(* ===== verification/Prelude.thy ===== *)
theory Prelude
  imports Main "HOL-Library.Monad_Syntax" "HOL-Library.Sublist"
begin

section \<open>Prelude: collections and generic lemmas\<close>

text \<open>
  The theorem collections of the development and the facts on lists, options and
  prefixes that several components share. \<open>mem_simps\<close> collects the rewrite rules of
  the C memory model, \<open>inv_intros\<close> the preservation lemmas of the component invariants.
  The only definition is \<open>find_sub\<close>, the position of the first occurrence of one list
  in another, on which the model of \<open>strstr\<close> rests.
\<close>

named_theorems mem_simps \<open>rewrite rules of the C memory model\<close>
named_theorems inv_intros \<open>preservation lemmas of component invariants\<close>

subsection \<open>First occurrence of a sublist\<close>

fun find_sub :: "'a list \<Rightarrow> 'a list \<Rightarrow> nat option" where
  "find_sub pat [] = (if pat = [] then Some 0 else None)"
| "find_sub pat (x # xs) =
     (if prefix pat (x # xs) then Some 0 else map_option Suc (find_sub pat xs))"

lemma find_sub_SomeD:
  "find_sub pat s = Some i \<Longrightarrow> \<exists>a b. s = a @ pat @ b \<and> length a = i"
proof (induction s arbitrary: i)
  case Nil
  then show ?case by (auto split: if_splits)
next
  case (Cons x xs)
  show ?case
  proof (cases "prefix pat (x # xs)")
    case True
    with Cons.prems show ?thesis by (auto simp: prefix_def)
  next
    case False
    with Cons.prems obtain j where "find_sub pat xs = Some j" and i: "i = Suc j"
      by auto
    with Cons.IH obtain a b where "xs = a @ pat @ b" and "length a = j" by blast
    with i have "x # xs = (x # a) @ pat @ b \<and> length (x # a) = i" by simp
    then show ?thesis by blast
  qed
qed

lemma find_sub_least:
  "find_sub pat s = Some i \<Longrightarrow> j < i \<Longrightarrow> \<not> prefix pat (drop j s)"
proof (induction s arbitrary: i j)
  case Nil
  then show ?case by (auto split: if_splits)
next
  case (Cons x xs)
  then show ?case by (cases j) (auto split: if_splits)
qed

lemma find_sub_None_iff: "find_sub pat s = None \<longleftrightarrow> \<not> sublist pat s"
  by (induction s) (auto simp: sublist_Cons_right)

lemma find_sub_bound: "find_sub pat s = Some i \<Longrightarrow> i + length pat \<le> length s"
  by (auto dest!: find_sub_SomeD)

lemma find_sub_prefix: "prefix pat s \<Longrightarrow> find_sub pat s = Some 0"
  by (cases s) auto

lemma find_sub_single: "c \<notin> set a \<Longrightarrow> find_sub [c] (a @ c # b) = Some (length a)"
  by (induction a) auto

lemma find_sub_single_None: "c \<notin> set s \<Longrightarrow> find_sub [c] s = None"
  by (induction s) auto

lemma find_sub_Some_iff:
  "find_sub pat s = Some i \<longleftrightarrow>
     i \<le> length s \<and> prefix pat (drop i s) \<and> (\<forall>j<i. \<not> prefix pat (drop j s))"
proof (induction s arbitrary: i)
  case Nil
  then show ?case by auto
next
  case (Cons x xs)
  show ?case
  proof (cases i)
    case 0
    then show ?thesis by auto
  next
    case (Suc k)
    have "(\<forall>j<Suc k. \<not> prefix pat (drop j (x # xs))) \<longleftrightarrow>
        \<not> prefix pat (x # xs) \<and> (\<forall>j<k. \<not> prefix pat (drop j xs))"
      using less_Suc_eq_0_disj by auto
    with Suc Cons.IH [of k] show ?thesis by auto
  qed
qed

lemma find_sub_before:
  assumes "find_sub pat s = Some i" and "pat \<noteq> []"
  shows "\<not> sublist pat (take i s)"
proof
  assume "sublist pat (take i s)"
  then obtain a b where ab: "take i s = a @ pat @ b" by (auto simp: sublist_def)
  have "length a < i"
    using arg_cong [OF ab, of length] \<open>pat \<noteq> []\<close> by (auto split: if_splits simp: min_def) (cases pat, auto)+
  moreover have "s = (a @ pat @ b) @ drop i s"
    by (metis ab append_take_drop_id)
  then have "prefix pat (drop (length a) s)"
    by (metis append_assoc append_eq_conv_conj prefixI)
  ultimately show False using find_sub_least [OF assms(1)] by blast
qed

subsection \<open>Lists and options\<close>

lemma take_list_update_le: "i \<le> j \<Longrightarrow> take i (xs[j := x]) = take i xs"
  by (simp add: take_update_swap list_update_beyond)

lemma not_sublist_take: "\<not> sublist pat s \<Longrightarrow> \<not> sublist pat (take n s)"
  using sublist_order.order.trans [OF _ sublist_take] by blast

lemma bind_Some_iff: "(Option.bind x f = Some y) \<longleftrightarrow> (\<exists>a. x = Some a \<and> f a = Some y)"
  by (cases x) auto

lemma drop_last_one: "xs \<noteq> [] \<Longrightarrow> drop (length xs - 1) xs = [last xs]"
  by (cases xs rule: rev_exhaust) auto

lemma takeWhile_neq_stop [simp]: "x \<notin> set s \<Longrightarrow> takeWhile (\<lambda>c. c \<noteq> x) (s @ x # t) = s"
  by (induction s) auto

end
