(* ===== verification/CString.thy ===== *)
theory CString
  imports Prelude
begin

section \<open>C memory blocks and the string functions of the C library\<close>

text \<open>
  The language layer. A C object (an array or a \<open>malloc\<close>ed block) is the list of its
  bytes, a pointer into it is an index, and a function that reads or writes outside the
  block, or needs a terminator that is not there, returns \<open>None\<close>: that is undefined
  behaviour in C. A C string is what \<open>cstr\<close> reads at a pointer. The string functions
  of the C library that weborf calls (\<open>strlen\<close>, \<open>strstr\<close>, \<open>strcmp\<close>, \<open>memmove\<close>,
  \<open>strtok_r\<close>, \<open>strtol\<close>, \<open>toupper\<close>, the numeric conversions of \<open>printf\<close>) are defined
  here. The platform is that of the released packages: \<open>char\<close> signed with eight bits,
  \<open>int\<close> with 32, \<open>long\<close> and pointers with 64.
\<close>

type_synonym cmem = "char list"

abbreviation NUL :: char where "NUL \<equiv> CHR 0x00"
abbreviation CR :: char where "CR \<equiv> CHR 0x0D"
abbreviation LF :: char where "LF \<equiv> CHR 0x0A"
abbreviation CRLF :: string where "CRLF \<equiv> [CR, LF]"

subsection \<open>Byte access\<close>

definition c_peek :: "cmem \<Rightarrow> nat \<Rightarrow> char option" where
  "c_peek m i = (if i < length m then Some (m ! i) else None)"

definition c_poke :: "cmem \<Rightarrow> nat \<Rightarrow> char \<Rightarrow> cmem option" where
  "c_poke m i c = (if i < length m then Some (m[i := c]) else None)"

definition c_memmove :: "cmem \<Rightarrow> nat \<Rightarrow> nat \<Rightarrow> nat \<Rightarrow> cmem option" where
  "c_memmove m dst src n =
     (if dst + n \<le> length m \<and> src + n \<le> length m
      then Some (take dst m @ take n (drop src m) @ drop (dst + n) m) else None)"

text \<open>Writing a run of bytes at an offset: what \<open>memcpy\<close> and \<open>read\<close> do to their target.\<close>

definition c_write :: "cmem \<Rightarrow> nat \<Rightarrow> string \<Rightarrow> cmem option" where
  "c_write m p s =
     (if p + length s \<le> length m then Some (take p m @ s @ drop (p + length s) m) else None)"

subsection \<open>C strings\<close>

definition cstr :: "cmem \<Rightarrow> nat \<Rightarrow> string option" where
  "cstr m p =
     (let s = drop p m
      in if NUL \<in> set s then Some (takeWhile (\<lambda>c. c \<noteq> NUL) s) else None)"

definition c_strlen :: "cmem \<Rightarrow> nat \<Rightarrow> nat option" where
  "c_strlen m p = map_option length (cstr m p)"

text \<open>\<open>strstr\<close>: the outer option is undefined behaviour, the inner one the null pointer.\<close>

definition c_strstr :: "cmem \<Rightarrow> nat \<Rightarrow> string \<Rightarrow> nat option option" where
  "c_strstr m p pat = map_option (\<lambda>s. map_option (\<lambda>i. p + i) (find_sub pat s)) (cstr m p)"

text \<open>\<open>strncmp(s, t, n) == 0\<close> on two C strings.\<close>

definition strn_eq :: "nat \<Rightarrow> string \<Rightarrow> string \<Rightarrow> bool" where
  "strn_eq n s t \<longleftrightarrow> take n s = take n t"

text \<open>
  \<open>strtok_r\<close> on one delimiter set: skip delimiters, cut the token at the next one. The
  result is the memory, the token (null when only delimiters are left) and the saved
  position.
\<close>

definition c_strtok_r :: "cmem \<Rightarrow> nat \<Rightarrow> string \<Rightarrow> (cmem \<times> nat option \<times> nat) option" where
  "c_strtok_r m p delims = do {
     s \<leftarrow> cstr m p;
     let skipped = takeWhile (\<lambda>c. c \<in> set delims) s;
     let rest = drop (length skipped) s;
     let tok = takeWhile (\<lambda>c. c \<notin> set delims) rest;
     let start = p + length skipped;
     let stop = start + length tok;
     if rest = [] then Some (m, None, start)
     else if length tok = length rest then Some (m, Some start, stop)
     else do {
       m' \<leftarrow> c_poke m stop NUL;
       Some (m', Some start, stop + 1)
     }
   }"

subsection \<open>Numbers\<close>

text \<open>The value of a signed \<open>char\<close>, and the byte a wider integer is truncated to.\<close>

definition schar :: "char \<Rightarrow> int" where
  "schar c = (let n = int (of_char c) in if n < 128 then n else n - 256)"

definition to_char :: "int \<Rightarrow> char" where
  "to_char v = char_of (nat (v mod 256))"

definition c_isspace :: "char \<Rightarrow> bool" where
  "c_isspace c \<longleftrightarrow> c \<in> {CHR '' '', CHR 0x09, CHR 0x0A, CHR 0x0B, CHR 0x0C, CHR 0x0D}"

definition digit_val :: "char \<Rightarrow> nat option" where
  "digit_val c =
     (let n = of_char c :: nat in
      if 48 \<le> n \<and> n \<le> 57 then Some (n - 48)
      else if 97 \<le> n \<and> n \<le> 122 then Some (n - 87)
      else if 65 \<le> n \<and> n \<le> 90 then Some (n - 55)
      else None)"

definition is_digit_in :: "nat \<Rightarrow> char \<Rightarrow> bool" where
  "is_digit_in b c = (case digit_val c of None \<Rightarrow> False | Some d \<Rightarrow> d < b)"

definition digits_value :: "nat \<Rightarrow> string \<Rightarrow> nat" where
  "digits_value b s = foldl (\<lambda>a c. a * b + the (digit_val c)) 0 s"

text \<open>
  \<open>strtol\<close> and \<open>strtoll\<close> with no end pointer: leading white space, a sign, the prefix
  \<open>0x\<close> for base 16 and 0, the prefix \<open>0\<close> for base 0, the longest run of digits, and
  saturation at the 64-bit bounds.
\<close>

definition LONG_MAX :: int where "LONG_MAX = 9223372036854775807"
definition LONG_MIN :: int where "LONG_MIN = -9223372036854775808"

definition strtol_base :: "nat \<Rightarrow> string \<Rightarrow> nat \<times> string" where
  "strtol_base base s =
     (if (base = 0 \<or> base = 16) \<and> 3 \<le> length s \<and> s ! 0 = CHR ''0''
           \<and> (s ! 1 = CHR ''x'' \<or> s ! 1 = CHR ''X'') \<and> is_digit_in 16 (s ! 2)
      then (16, drop 2 s)
      else if base = 0 \<and> s \<noteq> [] \<and> hd s = CHR ''0'' then (8, s)
      else (if base = 0 then 10 else base, s))"

definition c_strtol :: "nat \<Rightarrow> string \<Rightarrow> int" where
  "c_strtol base s =
     (let s1 = dropWhile c_isspace s;
          neg = (s1 \<noteq> [] \<and> hd s1 = CHR ''-'');
          s2 = (if s1 \<noteq> [] \<and> (hd s1 = CHR ''-'' \<or> hd s1 = CHR ''+'') then tl s1 else s1);
          (b, s3) = strtol_base base s2;
          v = int (digits_value b (takeWhile (is_digit_in b) s3))
      in max LONG_MIN (min LONG_MAX (if neg then - v else v)))"

text \<open>\<open>toupper\<close> in the C locale.\<close>

definition c_toupper :: "char \<Rightarrow> char" where
  "c_toupper c = (let n = of_char c :: nat in if 97 \<le> n \<and> n \<le> 122 then char_of (n - 32) else c)"

text \<open>The conversions \<open>%u\<close>, \<open>%d\<close> and \<open>%02x\<close> of \<open>printf\<close>.\<close>

definition digit_char :: "nat \<Rightarrow> char" where
  "digit_char d = (if d < 10 then char_of (48 + d) else char_of (87 + d))"

fun show_base :: "nat \<Rightarrow> nat \<Rightarrow> string" where
  "show_base b n =
     (if n < b \<or> b < 2 then [digit_char n] else show_base b (n div b) @ [digit_char (n mod b)])"

declare show_base.simps [simp del]

definition show_nat :: "nat \<Rightarrow> string" where
  "show_nat n = show_base 10 n"

definition show_int :: "int \<Rightarrow> string" where
  "show_int i = (if i < 0 then CHR ''-'' # show_nat (nat (- i)) else show_nat (nat i))"

definition show_02x :: "nat \<Rightarrow> string" where
  "show_02x n = (let s = show_base 16 n in if length s < 2 then CHR ''0'' # s else s)"

text \<open>
  \<open>snprintf(dst, size, "%s", s)\<close>: at most \<open>size - 1\<close> bytes and a terminator are
  stored, the result is the length of the whole text.
\<close>

definition c_snprintf :: "cmem \<Rightarrow> nat \<Rightarrow> nat \<Rightarrow> string \<Rightarrow> cmem option" where
  "c_snprintf m p sz s =
     (if sz = 0 then Some m else c_write m p (take (sz - 1) s @ [NUL]))"


text \<open>
  A chain of \<open>snprintf\<close> calls that append to one buffer, with the counter of free bytes
  that the source keeps: \<open>t = snprintf(p, left, ...); p += t; left -= t\<close>. The state is what the
  buffer holds and the counter. A text that does not fit is cut and terminated; a further
  call with a negative counter passes a huge size to \<open>snprintf\<close> and writes out of bounds.
\<close>

definition put_text :: "string \<times> int \<Rightarrow> string \<Rightarrow> (string \<times> int) option" where
  "put_text st s =
     (case st of (out, left) \<Rightarrow>
        if left < 0 then None
        else Some (if int (length s) < left then out @ s
                   else if left = 0 then out
                   else out @ take (nat left - 1) s @ [NUL],
                   left - int (length s)))"

subsection \<open>Lemmas: strings in memory\<close>

lemma cstr_append [mem_simps]:
  "NUL \<notin> set s \<Longrightarrow> cstr (pre @ s @ NUL # post) (length pre) = Some s"
  by (auto simp: cstr_def Let_def)

lemma cstr_appendI:
  "NUL \<notin> set s \<Longrightarrow> p = length pre \<Longrightarrow> m = pre @ s @ NUL # post \<Longrightarrow> cstr m p = Some s"
  by (simp add: cstr_append)

lemma cstr_SomeE:
  assumes "cstr m p = Some s"
  obtains pre post where "m = pre @ s @ NUL # post" and "length pre = p" and "NUL \<notin> set s"
proof -
  from assms have in_set: "NUL \<in> set (drop p m)"
    and s: "s = takeWhile (\<lambda>c. c \<noteq> NUL) (drop p m)"
    by (auto simp: cstr_def Let_def split: if_splits)
  from in_set have "dropWhile (\<lambda>c. c \<noteq> NUL) (drop p m) \<noteq> []" by (auto simp: dropWhile_eq_Nil_conv)
  then obtain x post where d: "dropWhile (\<lambda>c. c \<noteq> NUL) (drop p m) = x # post"
    by (cases "dropWhile (\<lambda>c. c \<noteq> NUL) (drop p m)") auto
  then have "x = NUL" using hd_dropWhile [of "\<lambda>c. c \<noteq> NUL" "drop p m"] by simp
  have "drop p m = s @ NUL # post"
    using d \<open>x = NUL\<close> s takeWhile_dropWhile_id [of "\<lambda>c. c \<noteq> NUL" "drop p m"] by simp
  then have "m = take p m @ s @ NUL # post"
    by (metis append_take_drop_id)
  moreover have "length (take p m) = p"
    using in_set by (cases "p \<le> length m") auto
  moreover have "NUL \<notin> set s" using s by (auto dest: set_takeWhileD)
  ultimately show thesis by (rule that)
qed

lemma cstr_no_NUL: "cstr m p = Some s \<Longrightarrow> NUL \<notin> set s"
  by (erule cstr_SomeE)

lemma cstr_length: "cstr m p = Some s \<Longrightarrow> p + length s < length m"
  by (erule cstr_SomeE) auto

lemma cstr_nth: "cstr m p = Some s \<Longrightarrow> i < length s \<Longrightarrow> m ! (p + i) = s ! i"
  by (erule cstr_SomeE) (auto simp: nth_append)

lemma cstr_end: "cstr m p = Some s \<Longrightarrow> m ! (p + length s) = NUL"
  by (erule cstr_SomeE) (auto simp: nth_append)

lemma cstr_at:
  assumes "e < length m" and "m ! e = NUL" and "p \<le> e"
  obtains s where "cstr m p = Some s" and "p + length s \<le> e"
proof -
  have mem: "drop p m ! (e - p) = NUL" and len: "e - p < length (drop p m)" using assms by auto
  then have "NUL \<in> set (drop p m)" by (metis nth_mem)
  then have c: "cstr m p = Some (takeWhile (\<lambda>c. c \<noteq> NUL) (drop p m))"
    by (simp add: cstr_def)
  have "length (takeWhile (\<lambda>c. c \<noteq> NUL) (drop p m)) \<le> e - p"
    using mem len nth_length_takeWhile
    by (metis (mono_tags, lifting) not_le_imp_less nth_mem set_takeWhileD takeWhile_nth)
  with c \<open>p \<le> e\<close> show thesis by (intro that) auto
qed

lemma cstr_NUL: "p < length m \<Longrightarrow> m ! p = NUL \<Longrightarrow> cstr m p = Some []"
  by (auto simp: cstr_def Let_def simp flip: Cons_nth_drop_Suc)

lemma cstr_suffix:
  assumes "cstr m p = Some s" and "i \<le> length s"
  shows "cstr m (p + i) = Some (drop i s)"
proof -
  from assms(1) obtain pre post where m: "m = pre @ s @ NUL # post" "length pre = p"
    and s: "NUL \<notin> set s" by (rule cstr_SomeE)
  have "m = (pre @ take i s) @ drop i s @ NUL # post" using m by simp
  moreover have "NUL \<notin> set (drop i s)" using s by (meson in_set_dropD)
  moreover have "p + i = length (pre @ take i s)" using m assms(2) by simp
  ultimately show ?thesis by (rule cstr_appendI [rotated 2])
qed

lemma cstr_take_update:
  assumes "cstr m p = Some s" and "i \<le> length s" and "m' = m[p + i := NUL]"
  shows "cstr m' p = Some (take i s)"
proof -
  from assms(1) obtain pre post where m: "m = pre @ s @ NUL # post" "length pre = p"
    and s: "NUL \<notin> set s" by (rule cstr_SomeE)
  show ?thesis
  proof (cases "i = length s")
    case True
    with m assms(3) have "m' = pre @ s @ NUL # post" by (simp add: list_update_append)
    with m s True show ?thesis by (auto intro: cstr_appendI)
  next
    case False
    then have "s = take i s @ s ! i # drop (Suc i) s" and "i < length s"
      using assms(2) by (auto simp: id_take_nth_drop)
    then have "m' = pre @ take i s @ NUL # (drop (Suc i) s @ NUL # post)"
      using m assms(3) by (auto simp: list_update_append upd_conv_take_nth_drop)
    moreover have "NUL \<notin> set (take i s)" using s by (meson in_set_takeD)
    ultimately show ?thesis using m by (auto intro: cstr_appendI)
  qed
qed

lemma cstr_cong:
  assumes "cstr m p = Some s" and "length m' = length m"
    and "\<And>i. p \<le> i \<Longrightarrow> i \<le> p + length s \<Longrightarrow> m' ! i = m ! i"
  shows "cstr m' p = Some s"
proof -
  have len: "p + length s < length m'" using cstr_length [OF assms(1)] assms(2) by simp
  have "drop p m' = s @ NUL # drop (Suc (p + length s)) m'"
  proof (rule nth_equalityI)
    show "length (drop p m') = length (s @ NUL # drop (Suc (p + length s)) m')"
      using len by auto
    fix i assume "i < length (drop p m')"
    then show "drop p m' ! i = (s @ NUL # drop (Suc (p + length s)) m') ! i"
      using assms(3) [of "p + i"] len cstr_nth [OF assms(1), of i] cstr_end [OF assms(1)]
      by (auto simp: nth_append nth_Cons' add.assoc)
  qed
  then show ?thesis using cstr_no_NUL [OF assms(1)]
    by (auto simp: cstr_def Let_def)
qed

lemma c_strstr_Some [mem_simps]:
  "cstr m p = Some s \<Longrightarrow> c_strstr m p pat = Some (map_option (\<lambda>i. p + i) (find_sub pat s))"
  by (simp add: c_strstr_def)

lemma c_strlen_Some [mem_simps]: "cstr m p = Some s \<Longrightarrow> c_strlen m p = Some (length s)"
  by (simp add: c_strlen_def)

lemma c_strstr_bounds:
  assumes "c_strstr m p pat = Some (Some q)"
  shows "p \<le> q \<and> q + length pat < length m"
proof -
  from assms obtain s i where "cstr m p = Some s" and "find_sub pat s = Some i" and "q = p + i"
    by (auto simp: c_strstr_def)
  then show ?thesis using cstr_length find_sub_bound by fastforce
qed

lemma strtok_token:
  assumes "cstr m p = Some (sk @ t @ x # u)" and "set sk \<subseteq> set d" and "t \<noteq> []" and "set t \<inter> set d = {}" and "x \<in> set d"
  shows "c_strtok_r m p d = Some (m[p + length sk + length t := NUL], Some (p + length sk), p + length sk + length t + 1)"
    and "cstr (m[p + length sk + length t := NUL]) (p + length sk) = Some t"
    and "cstr (m[p + length sk + length t := NUL]) (p + length sk + length t + 1) = Some u"
proof -
  let ?i = "p + length sk + length t"
  obtain y ys where y: "t = y # ys" "y \<notin> set d" using assms(3,4) by (cases t) auto
  have "takeWhile (\<lambda>c. c \<in> set d) (sk @ t @ x # u) = sk" using assms(2) y by (subst takeWhile_append2) auto
  moreover have "takeWhile (\<lambda>c. c \<notin> set d) (t @ x # u) = t" using assms(4,5) by (subst takeWhile_append2) auto
  moreover have "?i < length m" using cstr_length [OF assms(1)] by simp
  ultimately show "c_strtok_r m p d = Some (m[?i := NUL], Some (p + length sk), ?i + 1)"
    using assms(1,3) by (simp add: c_strtok_r_def Let_def c_poke_def)
  have t: "cstr m (p + length sk) = Some (t @ x # u)" using cstr_suffix [OF assms(1), of "length sk"] by simp
  show "cstr (m[?i := NUL]) (p + length sk) = Some t" using cstr_take_update [OF t, of "length t"] by simp
  have "cstr m (?i + 1) = Some u" using cstr_suffix [OF t, of "length t + 1"] by (simp add: add.assoc)
  then show "cstr (m[?i := NUL]) (?i + 1) = Some u" by (rule cstr_cong) auto
qed

lemma c_poke_length: "c_poke m i c = Some m' \<Longrightarrow> length m' = length m"
  by (auto simp: c_poke_def split: if_splits)

lemma c_memmove_length: "c_memmove m d s n = Some m' \<Longrightarrow> length m' = length m"
  by (auto simp: c_memmove_def split: if_splits)

lemma c_memmove_nth:
  assumes "c_memmove m d s n = Some m'" and "i < length m"
  shows "m' ! i = (if d \<le> i \<and> i < d + n then m ! (s + (i - d)) else m ! i)"
  using assms by (auto simp: c_memmove_def nth_append split: if_splits)

lemma c_write_length: "c_write m p s = Some m' \<Longrightarrow> length m' = length m"
  by (auto simp: c_write_def split: if_splits)

lemma put_text_fits:
  "int (length s) < left \<Longrightarrow> put_text (out, left) s = Some (out @ s, left - int (length s))"
  by (simp add: put_text_def)

lemma c_write_append [mem_simps]:
  "length old = length s \<Longrightarrow> c_write (pre @ old @ post) (length pre) s = Some (pre @ s @ post)"
  by (simp add: c_write_def)

subsection \<open>Lemmas: characters and numbers\<close>

lemma schar_range: "-128 \<le> schar c \<and> schar c \<le> 127"
proof -
  define n where "n = int (of_char c)"
  have "n < 256" and "0 \<le> n" using nat_of_char_less_256 [of c] by (auto simp: n_def)
  then show ?thesis unfolding schar_def Let_def n_def [symmetric] by auto
qed

lemma to_char_of_char [simp]: "to_char (int (of_char c)) = c"
  using nat_of_char_less_256 [of c] by (simp add: to_char_def nat_mod_distrib)

lemma to_char_schar [simp]: "to_char (schar c) = c"
proof -
  have "(int (of_char c) - 256) mod 256 = int (of_char c) mod 256" by (rule minus_mod_self2)
  then have "schar c mod 256 = int (of_char c) mod 256" by (simp add: schar_def Let_def)
  then show ?thesis using to_char_of_char [of c] by (simp add: to_char_def)
qed

lemma digit_char_val: "d < 10 \<Longrightarrow> digit_val (digit_char d) = Some d"
proof -
  assume "d < 10"
  then have "d \<in> {0,1,2,3,4,5,6,7,8,9}" by auto
  then show ?thesis by (auto simp: digit_char_def digit_val_def Let_def)
qed

lemma digits_value_snoc: "digits_value b (s @ [c]) = digits_value b s * b + the (digit_val c)"
  by (simp add: digits_value_def)

lemma show_nat_digits: "list_all (is_digit_in 10) (show_nat n) \<and> show_nat n \<noteq> [] \<and> digits_value 10 (show_nat n) = n"
  unfolding show_nat_def
proof (induction "10::nat" n rule: show_base.induct)
  case (1 n)
  show ?case
  proof (cases "n < 10")
    case True
    then show ?thesis by (subst (1 2 3) show_base.simps) (simp add: digit_char_val is_digit_in_def digits_value_def)
  next
    case False
    with 1 have IH: "list_all (is_digit_in 10) (show_base 10 (n div 10))" "digits_value 10 (show_base 10 (n div 10)) = n div 10" by auto
    have d: "n mod 10 < 10" by simp
    from False IH digit_char_val [OF d] show ?thesis
      by (subst (1 2 3) show_base.simps) (simp add: digits_value_snoc is_digit_in_def)
  qed
qed

lemma show_nat_length: "n < 10 ^ k \<Longrightarrow> 0 < k \<Longrightarrow> length (show_nat n) \<le> k"
  unfolding show_nat_def
proof (induction k arbitrary: n)
  case 0
  then show ?case by simp
next
  case (Suc k)
  show ?case
  proof (cases "n < 10")
    case True
    then show ?thesis by (subst show_base.simps) simp
  next
    case False
    with Suc.prems have "n div 10 < 10 ^ k" by auto
    moreover from False Suc.prems have "0 < k" by (cases k) auto
    ultimately have "length (show_base 10 (n div 10)) \<le> k" by (rule Suc.IH)
    with False show ?thesis by (subst show_base.simps) simp
  qed
qed

lemma is_digit_10_range: "is_digit_in 10 c \<Longrightarrow> 48 \<le> (of_char c :: nat) \<and> (of_char c :: nat) \<le> 57"
  by (auto simp: is_digit_in_def digit_val_def Let_def split: option.splits if_splits)

lemma c_strtol_show:
  assumes "int n \<le> LONG_MAX" and "r = [] \<or> \<not> is_digit_in 10 (hd r)"
  shows "c_strtol 10 (show_nat n @ r) = int n"
proof -
  have d: "list_all (is_digit_in 10) (show_nat n)" and ne: "show_nat n \<noteq> []"
    and v: "digits_value 10 (show_nat n) = n" using show_nat_digits by auto
  obtain x xs where s: "show_nat n = x # xs" using ne by (cases "show_nat n") auto
  with d have x: "is_digit_in 10 x" by simp
  note rx = is_digit_10_range [OF x]
  have ns: "\<not> c_isspace x" "x \<noteq> CHR ''-''" "x \<noteq> CHR ''+''"
    using rx by (auto simp: c_isspace_def)
  have tw: "takeWhile (is_digit_in 10) (show_nat n @ r) = show_nat n"
    using d assms(2) by (subst takeWhile_append2) (auto simp: list_all_iff takeWhile_eq_Nil_iff)
  have dw: "dropWhile c_isspace (show_nat n @ r) = show_nat n @ r" using s ns by simp
  have b: "strtol_base 10 (show_nat n @ r) = (10, show_nat n @ r)" by (simp add: strtol_base_def)
  show ?thesis unfolding c_strtol_def Let_def dw
    using s ns b tw v assms(1) by (simp add: LONG_MIN_def)
qed

lemma show_nat_hd: "0 < n \<Longrightarrow> hd (show_nat n) \<noteq> CHR ''0''"
  unfolding show_nat_def
proof (induction "10::nat" n rule: show_base.induct)
  case (1 n)
  show ?case
  proof (cases "n < 10")
    case True
    have "digit_val (CHR ''0'') = Some 0" by code_simp
    then have "digit_char n \<noteq> CHR ''0''" using digit_char_val [OF True] 1 by auto
    with True show ?thesis by (subst show_base.simps) simp
  next
    case False
    with 1 have "hd (show_base 10 (n div 10)) \<noteq> CHR ''0''" by auto
    moreover have "show_base 10 (n div 10) \<noteq> []" using show_nat_digits [of "n div 10"] by (simp add: show_nat_def)
    ultimately show ?thesis using False by (subst show_base.simps) simp
  qed
qed

lemma is_digit_mono: "is_digit_in a c \<Longrightarrow> a \<le> b \<Longrightarrow> is_digit_in b c"
  by (auto simp: is_digit_in_def split: option.splits)

text \<open>Base 0 reads a decimal number back; what follows must not be a letter or a digit.\<close>

lemma c_strtol_0_show:
  assumes "int n \<le> LONG_MAX" and "r = [] \<or> \<not> is_digit_in 36 (hd r)"
  shows "c_strtol 0 (show_nat n @ r) = int n"
proof (cases "n = 0")
  case True
  have x: "is_digit_in 36 (CHR ''x'')" "is_digit_in 36 (CHR ''X'')" and z: "is_digit_in 8 (CHR ''0'')"
    and v: "digits_value 8 ''0'' = 0" by code_simp+
  have "strtol_base 0 (CHR ''0'' # r) = (8, CHR ''0'' # r)"
    using assms(2) x by (cases r) (auto simp: strtol_base_def)
  moreover have "takeWhile (is_digit_in 8) r = []"
    using assms(2) is_digit_mono [of 8 _ 36] by (cases r) auto
  ultimately have "c_strtol 0 (CHR ''0'' # r) = 0"
    using z v by (simp add: c_strtol_def Let_def c_isspace_def LONG_MAX_def LONG_MIN_def)
  moreover have "show_nat 0 = ''0''" by code_simp
  ultimately show ?thesis using True by simp
next
  case False
  then have hd: "hd (show_nat n) \<noteq> CHR ''0''" and ne: "show_nat n \<noteq> []"
    using show_nat_hd [of n] show_nat_digits [of n] by auto
  have b: "strtol_base 0 (show_nat n @ r) = strtol_base 10 (show_nat n @ r)"
    using hd ne by (auto simp: strtol_base_def hd_conv_nth nth_append)
  obtain x xs where s: "show_nat n = x # xs" using ne by (cases "show_nat n") auto
  then have "is_digit_in 10 x" using show_nat_digits [of n] by simp
  then have "\<not> c_isspace x" "x \<noteq> CHR ''-''" "x \<noteq> CHR ''+''"
    using is_digit_10_range [of x] by (auto simp: c_isspace_def)
  then have "c_strtol 0 (show_nat n @ r) = c_strtol 10 (show_nat n @ r)"
    unfolding c_strtol_def Let_def using s b by simp
  then show ?thesis using c_strtol_show [of n r] assms is_digit_mono [of 10 _ 36] by auto
qed

end
