(* ===== verification/Types.thy ===== *)
theory Types
  imports CString "HOL-Library.Word"
begin

unbundle bit_operations_syntax

section \<open>The shared data types\<close>

text \<open>
  The structures of \<open>types.h\<close> and the constants of \<open>options.h.in\<close> and \<open>instance.h\<close>.
  The four request pointers of \<open>connection_t\<close> (\<open>req_method\<close>, \<open>page\<close>, \<open>get_params\<close>,
  \<open>http_param\<close>) all point into one array, the request buffer \<open>buf\<close> of
  \<open>handle_requests\<close>; the record keeps that array next to them, and the pointers are
  indices into it, so that what one write does to the other strings is visible.
\<close>

subsection \<open>Constants of options.h\<close>

definition INBUFFER :: nat where "INBUFFER = 1024"
definition FILEBUF :: nat where "FILEBUF = 4096"
definition MAXSCRIPTOUT :: nat where "MAXSCRIPTOUT = 512000"
definition HEADBUF :: nat where "HEADBUF = 1024"
definition PWDLIMIT :: nat where "PWDLIMIT = 300"
definition INDEXMAXLEN :: nat where "INDEXMAXLEN = 30"
definition NBUFFER :: nat where "NBUFFER = 15"
definition RBUFFER :: nat where "RBUFFER = 128"
definition BUFFERED_READER_SIZE :: nat where "BUFFERED_READER_SIZE = 2048"
definition URI_LEN :: nat where "URI_LEN = 256"
definition ESCAPED_FNAME_LEN :: nat where "ESCAPED_FNAME_LEN = 768"
definition PATH_LEN :: nat where "PATH_LEN = 1024"
definition MIMETYPELEN :: nat where "MIMETYPELEN = 15"
definition MAXINDEXCOUNT :: nat where "MAXINDEXCOUNT = 10"
definition POST_MAX_SIZE :: int where "POST_MAX_SIZE = 2000000"
definition MAXTHREAD :: nat where "MAXTHREAD = 300"
definition INITIALTHREAD :: nat where "INITIALTHREAD = 6"
definition LOWTHREAD :: nat where "LOWTHREAD = 3"
definition MAXFREETHREAD :: nat where "MAXFREETHREAD = 6"

lemmas buffer_sizes =
  INBUFFER_def FILEBUF_def MAXSCRIPTOUT_def HEADBUF_def PWDLIMIT_def INDEXMAXLEN_def
  NBUFFER_def RBUFFER_def BUFFERED_READER_SIZE_def URI_LEN_def ESCAPED_FNAME_LEN_def
  PATH_LEN_def MIMETYPELEN_def MAXINDEXCOUNT_def POST_MAX_SIZE_def

lemmas thread_limits = MAXTHREAD_def INITIALTHREAD_def LOWTHREAD_def MAXFREETHREAD_def

subsection \<open>Constants of instance.h\<close>

abbreviation (input) GET :: int where "GET \<equiv> 0"
abbreviation (input) POST :: int where "POST \<equiv> 1"
abbreviation (input) PUT :: int where "PUT \<equiv> 2"
abbreviation (input) DELETE :: int where "DELETE \<equiv> 3"
abbreviation (input) PROPFIND :: int where "PROPFIND \<equiv> 4"
abbreviation (input) COPY :: int where "COPY \<equiv> 5"
abbreviation (input) MOVE :: int where "MOVE \<equiv> 6"
abbreviation (input) MKCOL :: int where "MKCOL \<equiv> 7"
abbreviation (input) OPTIONS :: int where "OPTIONS \<equiv> 8"

abbreviation (input) ERR_RANGE_NOT_SATISFIABLE :: int where "ERR_RANGE_NOT_SATISFIABLE \<equiv> -15"
abbreviation (input) ERR_PRECONDITION_FAILED :: int where "ERR_PRECONDITION_FAILED \<equiv> -14"
abbreviation (input) ERR_NOT_ALLOWED :: int where "ERR_NOT_ALLOWED \<equiv> -13"
abbreviation (input) ERR_INSUFFICIENT_STORAGE :: int where "ERR_INSUFFICIENT_STORAGE \<equiv> -12"
abbreviation (input) ERR_CONFLICT :: int where "ERR_CONFLICT \<equiv> -11"
abbreviation (input) ERR_SERVICE_UNAVAILABLE :: int where "ERR_SERVICE_UNAVAILABLE \<equiv> -10"
abbreviation (input) ERR_FORBIDDEN :: int where "ERR_FORBIDDEN \<equiv> -9"
abbreviation (input) ERR_NOTIMPLEMENTED :: int where "ERR_NOTIMPLEMENTED \<equiv> -8"
abbreviation (input) ERR_NODATA :: int where "ERR_NODATA \<equiv> -7"
abbreviation (input) ERR_NOTHTTP :: int where "ERR_NOTHTTP \<equiv> -6"
abbreviation (input) ERR_NOAUTH :: int where "ERR_NOAUTH \<equiv> -5"
abbreviation (input) ERR_SOCKWRITE :: int where "ERR_SOCKWRITE \<equiv> -4"
abbreviation (input) ERR_NOMEM :: int where "ERR_NOMEM \<equiv> -3"
abbreviation (input) ERR_FILENOTFOUND :: int where "ERR_FILENOTFOUND \<equiv> -2"
abbreviation (input) ERR_BRKPIPE :: int where "ERR_BRKPIPE \<equiv> -1"
abbreviation (input) OK_CREATED :: int where "OK_CREATED \<equiv> 1"
abbreviation (input) OK_NOCONTENT :: int where "OK_NOCONTENT \<equiv> 2"

abbreviation (input) HTTP_0_9 :: int where "HTTP_0_9 \<equiv> 57"
abbreviation (input) HTTP_1_0 :: int where "HTTP_1_0 \<equiv> 48"
abbreviation (input) HTTP_1_1 :: int where "HTTP_1_1 \<equiv> 2"

subsection \<open>Structures\<close>

text \<open>The fields of \<open>struct stat\<close> that weborf reads, and the file-type test of POSIX.\<close>

record stat =
  st_mode :: "32 word"
  st_size :: int
  st_mtime :: int
  st_ino :: int
  st_dev :: int

definition S_IFMT :: "32 word" where "S_IFMT = 0xF000"
definition S_IFDIR :: "32 word" where "S_IFDIR = 0x4000"
definition S_IFREG :: "32 word" where "S_IFREG = 0x8000"
definition S_IFSOCK :: "32 word" where "S_IFSOCK = 0xC000"
definition S_IFLNK :: "32 word" where "S_IFLNK = 0xA000"
definition S_IFBLK :: "32 word" where "S_IFBLK = 0x6000"
definition S_IFCHR :: "32 word" where "S_IFCHR = 0x2000"

lemmas file_types =
  S_IFMT_def S_IFDIR_def S_IFREG_def S_IFSOCK_def S_IFLNK_def S_IFBLK_def S_IFCHR_def

definition S_ISDIR :: "32 word \<Rightarrow> bool" where
  "S_ISDIR md \<longleftrightarrow> md AND S_IFMT = S_IFDIR"

definition S_ISREG :: "32 word \<Rightarrow> bool" where
  "S_ISREG md \<longleftrightarrow> md AND S_IFMT = S_IFREG"

record connection_t =
  buf :: cmem
  ip_addr :: string
  keep_alive :: bool
  protocol_version :: int
  method_id :: int
  req_method :: nat
  http_param :: nat
  page :: nat
  page_len :: nat
  get_params :: "nat option"
  strfile :: cmem
  strfile_len :: nat
  strfile_stat :: stat
  strfile_fd :: int
  basedir :: string
  status_code :: int

record string_t =
  len :: nat
  data :: "string option"

record weborf_configuration_t =
  conf_basedir :: string
  authsock :: "string option"
  conf_uid :: int
  conf_gid :: int
  send_content_type :: bool
  is_inetd :: bool
  cgi_paths :: "string list"
  virtual_host :: bool
  exec_script :: bool
  tar_directory :: bool
  conf_daemonize :: bool
  conf_ip :: "string option"
  conf_port :: string
  indexes :: "string list"

end
