(* ===== verification/MyString.thy ===== *)
theory MyString
  imports Types
begin

section \<open>mystring.c: in-place string editing\<close>

text \<open>
  The five routines of \<open>mystring.c\<close>, on a memory block and a pointer, byte for byte:
  \<open>replaceEscape\<close> decodes \<open>%XX\<close> inside the request buffer, \<open>strReplace\<close> substitutes a
  character for a substring, \<open>delChar\<close> deletes bytes, \<open>split_get_params\<close> cuts the URL at
  the question mark, \<open>endsWith\<close> compares a tail. The lemmas give the memory safety of
  the editing loops with their frame, the agreement of \<open>replaceEscape\<close> with a recursive
  decoder on lists, and what \<open>strReplace\<close> leaves in the string.
\<close>

subsection \<open>Definitions\<close>

function strToUpper :: "cmem \<Rightarrow> nat \<Rightarrow> cmem option" where
  "strToUpper m p = do {
     c \<leftarrow> c_peek m p;
     if c = NUL then Some m
     else do {
       m' \<leftarrow> c_poke m p (c_toupper c);
       strToUpper m' (p + 1)
     }
   }"
  by pat_completeness auto
termination
  by (relation "measure (\<lambda>(m, p). length m - p)")
    (auto simp: c_peek_def c_poke_def split: if_splits)

declare strToUpper.simps [simp del]

definition split_get_params :: "connection_t \<Rightarrow> connection_t option" where
  "split_get_params c = do {
     separator \<leftarrow> c_strstr (buf c) (page c) ''?'';
     case separator of
       None \<Rightarrow> do {
         l \<leftarrow> c_strlen (buf c) (page c);
         Some (c\<lparr>get_params := None, page_len := l\<rparr>)
       }
     | Some sep \<Rightarrow> do {
         m \<leftarrow> c_poke (buf c) sep NUL;
         Some (c\<lparr>buf := m, get_params := Some (sep + 1), page_len := sep - page c\<rparr>)
       }
   }"

definition delChar :: "cmem \<Rightarrow> nat \<Rightarrow> nat \<Rightarrow> nat \<Rightarrow> cmem option" where
  "delChar m str pos n = do {
     l \<leftarrow> c_strlen m (str + pos);
     if l < n then Some m
     else do {
       m' \<leftarrow> c_memmove m (str + pos) (str + pos + n) (l - n);
       c_poke m' (str + (l - n)) NUL
     }
   }"

text \<open>The character \<open>strtol(e_seq, NULL, 16)\<close> of the two bytes after the percent sign.\<close>

definition escape_char :: "char \<Rightarrow> char \<Rightarrow> char" where
  "escape_char e0 e1 = to_char (c_strtol 16 (takeWhile (\<lambda>c. c \<noteq> NUL) [e0, e1]))"

lemma delChar_length: "delChar m str pos n = Some m' \<Longrightarrow> length m' = length m"
  by (auto simp: delChar_def bind_Some_iff split: if_splits dest!: c_poke_length c_memmove_length)

function replaceEscape :: "cmem \<Rightarrow> nat \<Rightarrow> cmem option" where
  "replaceEscape m str = do {
     r \<leftarrow> c_strstr m str ''%'';
     case r of
       None \<Rightarrow> Some m
     | Some q \<Rightarrow> do {
         e0 \<leftarrow> c_peek m (q + 1);
         e1 \<leftarrow> c_peek m (q + 2);
         m1 \<leftarrow> delChar m q 0 2;
         m2 \<leftarrow> c_poke m1 q (escape_char e0 e1);
         replaceEscape m2 (q + 1)
       }
   }"
  by pat_completeness auto
termination
  by (relation "measure (\<lambda>(m, p). length m - p)")
    (auto dest!: c_poke_length delChar_length c_strstr_bounds)

declare replaceEscape.simps [simp del]

partial_function (option) strReplace :: "cmem \<Rightarrow> nat \<Rightarrow> string \<Rightarrow> char \<Rightarrow> cmem option" where
  "strReplace m str substr with = do {
     r \<leftarrow> c_strstr m str substr;
     case r of
       None \<Rightarrow> Some m
     | Some pointer \<Rightarrow> do {
         m1 \<leftarrow> delChar m pointer 0 (length substr - 1);
         m2 \<leftarrow> c_poke m1 pointer with;
         strReplace m2 pointer substr with
       }
   }"

text \<open>\<open>endsWith\<close> compares the C string at \<open>str + len_str - len_end\<close> with \<open>end\<close>.\<close>

definition endsWith :: "cmem \<Rightarrow> nat \<Rightarrow> string \<Rightarrow> nat \<Rightarrow> nat \<Rightarrow> bool option" where
  "endsWith m str suf len_str len_end =
     (if str + len_str < len_end then None
      else map_option (\<lambda>s. s = suf) (cstr m (str + len_str - len_end)))"

subsection \<open>delChar\<close>

lemma delChar_eq:
  assumes "NUL \<notin> set s" and "0 < n" and "n \<le> length s"
  shows "delChar (pre @ s @ NUL # post) (length pre) 0 n =
    Some (pre @ drop n s @ NUL # drop (length s - n + 1) s @ NUL # post)"
proof -
  have mm: "c_memmove (pre @ s @ NUL # post) (length pre) (length pre + n) (length s - n) =
      Some (pre @ drop n s @ drop (length s - n) s @ NUL # post)"
    using assms by (simp add: c_memmove_def)
  have "drop (length s - n) s = s ! (length s - n) # drop (length s - n + 1) s"
    using assms by (simp add: Cons_nth_drop_Suc)
  with mm assms show ?thesis
    by (auto simp: delChar_def c_strlen_Some cstr_append c_poke_def list_update_append)
qed

lemma delChar_short: "cstr m p = Some s \<Longrightarrow> length s < n \<Longrightarrow> delChar m p 0 n = Some m"
  by (simp add: delChar_def c_strlen_Some)

lemma delChar_frame:
  assumes "cstr m q = Some s" and "0 < n"
  obtains m' where "delChar m q 0 n = Some m'" and "length m' = length m"
    and "\<And>i. i < q \<or> q + length s \<le> i \<Longrightarrow> m' ! i = m ! i"
proof (cases "length s < n")
  case True
  with assms show ?thesis by (intro that [of m]) (auto simp: delChar_short)
next
  case False
  from assms(1) obtain pre post where m: "m = pre @ s @ NUL # post" and q: "length pre = q"
    and s: "NUL \<notin> set s" by (rule cstr_SomeE)
  let ?m' = "pre @ drop n s @ NUL # drop (length s - n + 1) s @ NUL # post"
  have "delChar m q 0 n = Some ?m'"
    using delChar_eq [OF s \<open>0 < n\<close>, of pre post] False m q by simp
  moreover from this have "length ?m' = length m" by (rule delChar_length)
  moreover have "?m' ! i = m ! i" if "i < q \<or> q + length s \<le> i" for i
    using that q False \<open>0 < n\<close> unfolding m
    by (auto simp: nth_append nth_Cons' not_less add.commute)
  ultimately show ?thesis by (rule that)
qed

subsection \<open>replaceEscape: safety and frame\<close>

text \<open>
  One round of the loop edits the bytes between the percent sign and the terminator only,
  so the terminator at \<open>e\<close> stays and the next round starts inside the same string.
\<close>

lemma replaceEscape_round:
  assumes "e + 1 < length m" and "m ! e = NUL" and "p \<le> e"
    and "c_strstr m p ''%'' = Some (Some q)"
  obtains e0 e1 m1 m2 where "c_peek m (q + 1) = Some e0" and "c_peek m (q + 2) = Some e1"
    and "delChar m q 0 2 = Some m1" and "c_poke m1 q (escape_char e0 e1) = Some m2"
    and "length m2 = length m" and "p \<le> q" and "q < e"
    and "\<And>i. i < q \<or> e \<le> i \<Longrightarrow> m2 ! i = m ! i"
proof -
  from assms obtain s where s: "cstr m p = Some s" "p + length s \<le> e"
    using cstr_at by (metis add_lessD1)
  with assms(4) obtain i where i: "find_sub ''%'' s = Some i" "q = p + i"
    by (auto simp: c_strstr_Some)
  then have "i < length s" using find_sub_bound by fastforce
  then have q: "cstr m q = Some (drop i s)" "q < e" "p \<le> q"
    using s i cstr_suffix by auto
  from q(1) obtain m1 where m1: "delChar m q 0 2 = Some m1" "length m1 = length m"
    "\<And>j. j < q \<or> q + length (drop i s) \<le> j \<Longrightarrow> m1 ! j = m ! j"
    by (rule delChar_frame [of m q _ 2]) auto
  let ?c = "escape_char (m ! (q + 1)) (m ! (q + 2))"
  have "m1[q := ?c] ! j = m ! j" if "j < q \<or> e \<le> j" for j
    using that m1(3) [of j] s(2) i(2) q(2) \<open>i < length s\<close> by auto
  then show thesis using m1(1,2) q assms(1)
    by (intro that [of "m ! (q + 1)" "m ! (q + 2)" m1 "m1[q := ?c]"])
      (auto simp: c_peek_def c_poke_def)
qed

lemma replaceEscape_safe:
  assumes "e + 1 < length m" and "m ! e = NUL" and "p \<le> e"
  shows "\<exists>m'. replaceEscape m p = Some m' \<and> length m' = length m \<and>
           (\<forall>i. i < p \<or> e \<le> i \<longrightarrow> m' ! i = m ! i)"
  using assms
proof (induction "length m - p" arbitrary: m p rule: less_induct)
  case less
  from less.prems obtain s where s: "cstr m p = Some s" using cstr_at by (metis add_lessD1)
  show ?case
  proof (cases "find_sub ''%'' s")
    case None
    with s show ?thesis by (simp add: replaceEscape.simps [of m p] c_strstr_Some)
  next
    case (Some i)
    with s have q: "c_strstr m p ''%'' = Some (Some (p + i))" by (simp add: c_strstr_Some)
    from less.prems q obtain e0 e1 m1 m2
      where r: "c_peek m (p + i + 1) = Some e0" "c_peek m (p + i + 2) = Some e1"
        "delChar m (p + i) 0 2 = Some m1" "c_poke m1 (p + i) (escape_char e0 e1) = Some m2"
        and m2: "length m2 = length m" "p + i < e" "\<And>j. j < p + i \<or> e \<le> j \<Longrightarrow> m2 ! j = m ! j"
      by (rule replaceEscape_round) auto
    have "\<exists>m'. replaceEscape m2 (p + i + 1) = Some m' \<and> length m' = length m2 \<and>
        (\<forall>j. j < p + i + 1 \<or> e \<le> j \<longrightarrow> m' ! j = m2 ! j)"
      using less.prems m2 by (intro less.hyps) auto
    then show ?thesis using q r m2 by (auto simp: replaceEscape.simps [of m p])
  qed
qed

subsection \<open>replaceEscape: the decoded text\<close>

text \<open>The decoding of \<open>%XX\<close> on lists, and the strings whose escapes are complete.\<close>

fun url_decode :: "string \<Rightarrow> string" where
  "url_decode [] = []"
| "url_decode (x # xs) =
     (if x = CHR ''%''
      then (case xs of a # b # ys \<Rightarrow> escape_char a b # url_decode ys | _ \<Rightarrow> x # url_decode xs)
      else x # url_decode xs)"

fun well_escaped :: "string \<Rightarrow> bool" where
  "well_escaped [] = True"
| "well_escaped (x # xs) =
     (if x = CHR ''%''
      then (case xs of a # b # ys \<Rightarrow> well_escaped ys | _ \<Rightarrow> False)
      else well_escaped xs)"

lemma url_decode_plain: "CHR ''%'' \<notin> set a \<Longrightarrow> url_decode (a @ s) = a @ url_decode s"
  by (induction a) auto

lemma url_decode_no_percent: "CHR ''%'' \<notin> set s \<Longrightarrow> url_decode s = s"
  using url_decode_plain [of s "[]"] by simp

lemma well_escaped_plain: "CHR ''%'' \<notin> set a \<Longrightarrow> well_escaped (a @ s) = well_escaped s"
  by (induction a) auto

lemma replaceEscape_once:
  assumes "NUL \<notin> set (a @ CHR ''%'' # x # y # b)" and "CHR ''%'' \<notin> set a"
  shows "\<exists>z. replaceEscape (pre @ (a @ CHR ''%'' # x # y # b) @ NUL # post) (length pre) =
    replaceEscape ((pre @ a @ [escape_char x y]) @ b @ NUL # z # NUL # post)
      (length (pre @ a @ [escape_char x y]))"
proof -
  let ?s = "CHR ''%'' # x # y # b" and ?m = "pre @ (a @ CHR ''%'' # x # y # b) @ NUL # post"
  let ?q = "length (pre @ a)" and ?z = "last ?s"
  have str: "c_strstr ?m (length pre) ''%'' = Some (Some ?q)"
    using assms by (subst c_strstr_Some [OF cstr_append]) (auto simp: find_sub_single)
  have peek: "c_peek ?m (?q + 1) = Some x" "c_peek ?m (?q + 2) = Some y"
    by (auto simp: c_peek_def nth_append)
  have last: "drop (length ?s - 2 + 1) ?s = [?z]"
    using drop_last_one [of ?s] by simp
  have "delChar ((pre @ a) @ ?s @ NUL # post) ?q 0 2 =
      Some ((pre @ a) @ (y # b) @ NUL # [?z] @ NUL # post)"
    using delChar_eq [of ?s 2 "pre @ a" post] assms(1) unfolding last by (simp del: last.simps)
  then have del: "delChar ?m ?q 0 2 = Some ((pre @ a) @ (y # b) @ NUL # ?z # NUL # post)"
    by simp
  have poke: "c_poke ((pre @ a) @ (y # b) @ NUL # ?z # NUL # post) ?q (escape_char x y) =
      Some ((pre @ a @ [escape_char x y]) @ b @ NUL # ?z # NUL # post)"
    by (auto simp: c_poke_def list_update_append)
  show ?thesis
    by (rule exI [of _ ?z], subst replaceEscape.simps)
      (simp only: str peek del poke option.simps bind.bind_lunit, simp)
qed

lemma replaceEscape_decode:
  assumes "well_escaped s" and "NUL \<notin> set s"
  shows "\<exists>junk. length junk + length (url_decode s) = length s \<and>
    replaceEscape (pre @ s @ NUL # post) (length pre) =
      Some (pre @ url_decode s @ NUL # junk @ post)"
  using assms
proof (induction "length s" arbitrary: s pre post rule: less_induct)
  case less
  show ?case
  proof (cases "CHR ''%'' \<in> set s")
    case False
    with less.prems show ?thesis
      by (subst replaceEscape.simps)
        (simp add: c_strstr_Some cstr_append find_sub_single_None url_decode_no_percent)
  next
    case True
    then obtain a zs where s: "s = a @ CHR ''%'' # zs" and a: "CHR ''%'' \<notin> set a"
      by (metis split_list_first)
    with less.prems(1) obtain x y b where zs: "zs = x # y # b" and wb: "well_escaped b"
      by (auto simp: well_escaped_plain split: list.splits)
    let ?c = "escape_char x y"
    from replaceEscape_once [of a x y b pre post] less.prems(2) a s zs obtain z where
      once: "replaceEscape (pre @ s @ NUL # post) (length pre) =
        replaceEscape ((pre @ a @ [?c]) @ b @ NUL # z # NUL # post) (length (pre @ a @ [?c]))"
      by blast
    from less.hyps [of b "pre @ a @ [?c]" "z # NUL # post"] s zs wb less.prems(2)
    obtain junk where j: "length junk + length (url_decode b) = length b"
      "replaceEscape ((pre @ a @ [?c]) @ b @ NUL # z # NUL # post) (length (pre @ a @ [?c])) =
        Some ((pre @ a @ [?c]) @ url_decode b @ NUL # junk @ z # NUL # post)"
      by auto
    have "url_decode s = a @ ?c # url_decode b" using s zs a by (simp add: url_decode_plain)
    with j once s zs show ?thesis by (intro exI [of _ "junk @ [z, NUL]"]) simp
  qed
qed

subsection \<open>strReplace and strToUpper\<close>

lemma strReplace_absent:
  "cstr m p = Some s \<Longrightarrow> \<not> sublist pat s \<Longrightarrow> strReplace m p pat c = Some m"
  by (simp add: strReplace.simps c_strstr_Some flip: find_sub_None_iff)

text \<open>With the null character the string ends where the first occurrence began.\<close>

lemma strReplace_truncates:
  assumes "cstr m p = Some s" and "2 \<le> length pat"
  shows "\<exists>m'. strReplace m p pat NUL = Some m' \<and> length m' = length m \<and>
    cstr m' p = Some (case find_sub pat s of None \<Rightarrow> s | Some i \<Rightarrow> take i s) \<and>
    (\<forall>j. j < p \<or> p + length s \<le> j \<longrightarrow> m' ! j = m ! j)"
proof (cases "find_sub pat s")
  case None
  with assms show ?thesis by (simp add: strReplace_absent flip: find_sub_None_iff)
next
  case (Some i)
  let ?q = "p + i"
  from Some assms(2) have i: "i < length s" using find_sub_bound by fastforce
  then have q: "cstr m ?q = Some (drop i s)" using cstr_suffix assms(1) by simp
  from assms(2) have "0 < length pat - 1" by simp
  with q obtain m1 where m1: "delChar m ?q 0 (length pat - 1) = Some m1" "length m1 = length m"
    "\<And>j. j < ?q \<or> ?q + length (drop i s) \<le> j \<Longrightarrow> m1 ! j = m ! j"
    by (rule delChar_frame) blast
  let ?m2 = "m1[?q := NUL]"
  have qm: "?q < length m1" using cstr_length [OF q] m1(2) i by simp
  then have empty: "cstr ?m2 ?q = Some []"
    by (intro cstr_NUL) auto
  have "strReplace m p pat NUL = strReplace ?m2 ?q pat NUL"
    using Some assms(1) m1(1) qm by (subst strReplace.simps) (simp add: c_strstr_Some c_poke_def)
  also have "\<dots> = Some ?m2" using empty assms(2) by (intro strReplace_absent) auto
  finally have run: "strReplace m p pat NUL = Some ?m2" .
  have "cstr (m[?q := NUL]) p = Some (take i s)"
    using assms(1) i by (intro cstr_take_update) auto
  then have "cstr ?m2 p = Some (take i s)"
    by (rule cstr_cong) (use m1 i qm in \<open>auto simp: nth_list_update\<close>)
  with run m1 i Some show ?thesis by (auto simp: nth_list_update)
qed

lemma delChar_0: "cstr m p = Some s \<Longrightarrow> delChar m p 0 0 = Some m"
  using cstr_length [of m p s] cstr_end [of m p s] list_update_id [of m "p + length s"]
  by (simp add: delChar_def c_strlen_Some c_memmove_def c_poke_def flip: take_add append_assoc)

lemma strReplace_char:
  assumes "a \<noteq> b" and "b \<noteq> NUL" and "NUL \<notin> set s"
  shows "strReplace (pre @ s @ NUL # post) (length pre) [a] b =
    Some (pre @ map (\<lambda>c. if c = a then b else c) s @ NUL # post)"
  using assms(3)
proof (induction "count_list s a" arbitrary: s pre rule: less_induct)
  case less
  show ?case
  proof (cases "a \<in> set s")
    case False
    then have "map (\<lambda>c. if c = a then b else c) s = s" by (auto intro: map_idI)
    moreover have "\<not> sublist [a] s" using False by (simp add: find_sub_single_None flip: find_sub_None_iff)
    ultimately show ?thesis using less.prems by (simp add: strReplace_absent cstr_append)
  next
    case True
    then obtain u v where s: "s = u @ a # v" and u: "a \<notin> set u" by (metis split_list_first)
    let ?m = "pre @ s @ NUL # post" and ?q = "length (pre @ u)"
    have c: "cstr ?m (length pre) = Some s" using less.prems by (rule cstr_append)
    then have str: "c_strstr ?m (length pre) [a] = Some (Some ?q)"
      using s u by (simp add: c_strstr_Some find_sub_single)
    have "cstr ?m ?q = Some (a # v)" using cstr_suffix [OF c, of "length u"] s by simp
    then have del: "delChar ?m ?q 0 0 = Some ?m" by (rule delChar_0)
    have poke: "c_poke ?m ?q b = Some ((pre @ u) @ (b # v) @ NUL # post)"
      using s by (simp add: c_poke_def list_update_append)
    have "strReplace ?m (length pre) [a] b = strReplace ((pre @ u) @ (b # v) @ NUL # post) ?q [a] b"
      using str del poke by (subst strReplace.simps) simp
    also have "\<dots> = Some ((pre @ u) @ map (\<lambda>c. if c = a then b else c) (b # v) @ NUL # post)"
      using less.prems s assms by (intro less.hyps) auto
    also have "\<dots> = Some (pre @ map (\<lambda>c. if c = a then b else c) s @ NUL # post)"
      using s u assms by (auto intro!: map_idI [symmetric])
    finally show ?thesis .
  qed
qed

lemma strToUpper_eq:
  assumes "NUL \<notin> set s"
  shows "strToUpper (pre @ s @ NUL # post) (length pre) = Some (pre @ map c_toupper s @ NUL # post)"
  using assms
proof (induction s arbitrary: pre)
  case Nil
  show ?case by (subst strToUpper.simps) (simp add: c_peek_def)
next
  case (Cons c s)
  have "strToUpper (pre @ (c # s) @ NUL # post) (length pre) =
      strToUpper ((pre @ [c_toupper c]) @ s @ NUL # post) (length (pre @ [c_toupper c]))"
    using Cons.prems by (subst strToUpper.simps) (auto simp: c_peek_def c_poke_def)
  also have "\<dots> = Some ((pre @ [c_toupper c]) @ map c_toupper s @ NUL # post)"
    using Cons.prems by (intro Cons.IH) auto
  finally show ?case by simp
qed

subsection \<open>Properties\<close>





end
