(* ===== verification/Utils.thy ===== *)
theory Utils
  imports MyString
begin

section \<open>utils.c: encoders and header fields\<close>

text \<open>
  \<open>uri_encode\<close>, \<open>html_encode\<close> and \<open>get_param_value\<close>. The encoders fill a buffer of
  a given size; the lemmas say when the text is complete and that no byte is written
  outside. \<open>get_param_value\<close> reads a field of the request header that the four request
  pointers share; the lemmas give its safety, under the shape of the header that
  \<open>handle_requests\<close> establishes, and the value it returns.
\<close>

subsection \<open>Encoders\<close>

definition uri_reserved :: "char \<Rightarrow> bool" where
  "uri_reserved c \<longleftrightarrow> c \<in> set ''!*();:@&=+$,/?#[]%><'' \<or> c = CHR 0x27 \<or> c = CHR 0x22 \<or>
     c = CHR '' '' \<or> c = CHR 0x5C"

definition uri_code :: "char \<Rightarrow> string" where
  "uri_code c = (if uri_reserved c then CHR ''%'' # show_02x (of_char c) else [c])"

fun uri_encode_loop :: "cmem \<Rightarrow> nat \<Rightarrow> nat \<Rightarrow> string \<Rightarrow> cmem option" where
  "uri_encode_loop m sz rlen [] = Some m"
| "uri_encode_loop m sz rlen (c # cs) =
     (if sz - rlen \<le> 2 then Some m
      else do {
        m' \<leftarrow> c_write m rlen (uri_code c @ [NUL]);
        uri_encode_loop m' sz (rlen + length (uri_code c)) cs
      })"

text \<open>The destination and the origin may be null pointers.\<close>

definition uri_encode :: "cmem option \<Rightarrow> nat \<Rightarrow> string option \<Rightarrow> cmem option option" where
  "uri_encode dest sz origin =
     (case (dest, origin) of
        (Some m, Some s) \<Rightarrow>
          if sz = 0 then Some dest
          else map_option Some (do { m' \<leftarrow> c_poke m 0 NUL; uri_encode_loop m' sz 0 s })
      | _ \<Rightarrow> Some dest)"

definition html_code :: "char \<Rightarrow> string" where
  "html_code c =
     (if c = CHR ''&'' then ''&amp;''
      else if c = CHR ''<'' then ''&lt;''
      else if c = CHR ''>'' then ''&gt;''
      else if c = CHR '' '' then ''&nbsp;''
      else if c = CHR 0x22 then ''&quot;''
      else [c])"

fun html_encode_loop :: "cmem \<Rightarrow> nat \<Rightarrow> nat \<Rightarrow> string \<Rightarrow> cmem option" where
  "html_encode_loop m sz l [] = Some m"
| "html_encode_loop m sz l (c # cs) =
     (if sz \<le> l + length (html_code c) then Some m
      else do {
        m' \<leftarrow> c_write m l (html_code c @ [NUL]);
        html_encode_loop m' sz (l + length (html_code c)) cs
      })"

definition html_encode :: "cmem option \<Rightarrow> nat \<Rightarrow> string option \<Rightarrow> cmem option option" where
  "html_encode dest sz origin =
     (case (dest, origin) of
        (Some m, Some s) \<Rightarrow>
          if sz = 0 then Some dest
          else map_option Some (do { m' \<leftarrow> c_poke m 0 NUL; html_encode_loop m' sz 0 s })
      | _ \<Rightarrow> Some dest)"

subsection \<open>Header fields\<close>

definition get_param_value :: "cmem \<Rightarrow> nat \<Rightarrow> string \<Rightarrow> nat \<Rightarrow> nat \<Rightarrow> string option option" where
  "get_param_value m hp parameter sz param_len = do {
     r \<leftarrow> c_strstr m hp parameter;
     case r of
       None \<Rightarrow> Some None
     | Some v \<Rightarrow> do {
         let val = v + param_len + 2;
         field_end \<leftarrow> c_strstr m val CRLF;
         case field_end of
           None \<Rightarrow> Some None
         | Some e \<Rightarrow>
             if e - val + 1 < sz then Some (Some (take (e - val) (drop val m))) else Some None
       }
   }"

subsection \<open>The encoders: bounds\<close>

definition uri_encoded :: "string \<Rightarrow> string" where
  "uri_encoded s = concat (map uri_code s)"

definition html_encoded :: "string \<Rightarrow> string" where
  "html_encoded s = concat (map html_code s)"

lemma html_encode_loop_prefix:
  assumes "NUL \<notin> set s" and "NUL \<notin> set w" and "length (w @ NUL # old) = sz"
  shows "\<exists>k post. html_encode_loop (w @ NUL # old) sz (length w) s =
      Some (w @ html_encoded (take k s) @ NUL # post) \<and>
    length w + length (html_encoded (take k s)) < sz \<and>
    (length w + length (html_encoded s) < sz \<longrightarrow> k = length s) \<and>
    length (w @ html_encoded (take k s) @ NUL # post) = length (w @ NUL # old)"
  using assms
proof (induction s arbitrary: w old)
  case Nil
  then show ?case by (auto simp: html_encoded_def)
next
  case (Cons c cs)
  let ?t = "html_code c"
  have t: "NUL \<notin> set ?t" using Cons.prems by (auto simp: html_code_def)
  show ?case
  proof (cases "sz \<le> length w + length ?t")
    case True
    then have "html_encode_loop (w @ NUL # old) sz (length w) (c # cs) = Some (w @ NUL # old)" by simp
    with True Cons.prems show ?thesis
      by (intro exI [of _ 0] exI [of _ old]) (auto simp: html_encoded_def)
  next
    case False
    have len: "length (take (length ?t + 1) (NUL # old)) = length (?t @ [NUL])"
      using False Cons.prems by simp
    let ?old' = "drop (length ?t + 1) (NUL # old)"
    have "c_write (w @ NUL # old) (length w) (?t @ [NUL]) = Some (w @ (?t @ [NUL]) @ ?old')"
      using c_write_append [OF len, of w ?old'] by (simp only: append_take_drop_id)
    then have step: "html_encode_loop (w @ NUL # old) sz (length w) (c # cs) =
        html_encode_loop ((w @ ?t) @ NUL # ?old') sz (length (w @ ?t)) cs"
      using False by simp
    have "length ((w @ ?t) @ NUL # ?old') = sz" using False Cons.prems by simp
    with Cons.IH [of "w @ ?t" ?old'] Cons.prems t False obtain k post where
      k: "html_encode_loop ((w @ ?t) @ NUL # ?old') sz (length (w @ ?t)) cs =
        Some ((w @ ?t) @ html_encoded (take k cs) @ NUL # post)"
      "length (w @ ?t) + length (html_encoded (take k cs)) < sz"
      "length (w @ ?t) + length (html_encoded cs) < sz \<longrightarrow> k = length cs"
      "length ((w @ ?t) @ html_encoded (take k cs) @ NUL # post) = length ((w @ ?t) @ NUL # ?old')"
      by (auto simp: not_le)
    with step Cons.prems False show ?thesis
      by (intro exI [of _ "Suc k"] exI [of _ post]) (auto simp: html_encoded_def add.assoc)
  qed
qed

lemma html_code_safe: "set (html_code c) \<inter> {CHR ''<'', CHR ''>'', CHR 0x22, CHR '' ''} = {}"
  by (auto simp: html_code_def)

lemma html_encoded_safe: "set (html_encoded s) \<inter> {CHR ''<'', CHR ''>'', CHR 0x22, CHR '' ''} = {}"
  using html_code_safe by (induction s) (auto simp: html_encoded_def)

lemma html_encoded_no_NUL: "NUL \<notin> set s \<Longrightarrow> NUL \<notin> set (html_encoded s)"
  by (induction s) (auto simp: html_encoded_def html_code_def)

lemma html_encoded_take_prefix: "prefix (html_encoded (take k s)) (html_encoded s)"
  by (metis append_take_drop_id concat_append html_encoded_def map_append prefixI)

lemma uri_code_reserved:
  assumes "uri_reserved c"
  obtains a b where "uri_code c = [CHR ''%'', a, b]" and "escape_char a b = c"
    and "a \<noteq> NUL" and "b \<noteq> NUL"
proof -
  let ?ok = "\<lambda>c. let t = show_02x (of_char c) in
    length t = 2 \<and> escape_char (t ! 0) (t ! 1) = c \<and> t ! 0 \<noteq> NUL \<and> t ! 1 \<noteq> NUL"
  have "list_all ?ok ''!*();:@&=+$,/?#[]%><''" and
    "list_all ?ok [CHR 0x27, CHR 0x22, CHR '' '', CHR 0x5C]"
    by code_simp+
  then have ok: "?ok c" using assms unfolding list_all_iff uri_reserved_def by auto
  then have two: "length (show_02x (of_char c)) = 2" by (simp add: Let_def)
  then have "show_02x (of_char c) = [show_02x (of_char c) ! 0, show_02x (of_char c) ! 1]"
    by (auto simp: length_Suc_conv numeral_2_eq_2)
  then show thesis using ok assms by (intro that) (auto simp: uri_code_def Let_def)
qed

lemma uri_code_plain: "\<not> uri_reserved c \<Longrightarrow> uri_code c = [c] \<and> c \<noteq> CHR ''%''"
  by (auto simp: uri_code_def uri_reserved_def)

lemma uri_code_length: "1 \<le> length (uri_code c) \<and> length (uri_code c) \<le> 3"
  by (cases "uri_reserved c") (auto elim: uri_code_reserved dest: uri_code_plain)

lemma uri_code_three: "length (uri_code c) \<noteq> 1 \<Longrightarrow> length (uri_code c) = 3"
  by (cases "uri_reserved c") (auto elim: uri_code_reserved dest: uri_code_plain)

lemma uri_code_no_NUL: "c \<noteq> NUL \<Longrightarrow> NUL \<notin> set (uri_code c)"
  by (cases "uri_reserved c") (auto elim!: uri_code_reserved dest: uri_code_plain)

lemma uri_encoded_Cons: "uri_encoded (c # s) = uri_code c @ uri_encoded s"
  by (simp add: uri_encoded_def)

lemma uri_encoded_no_NUL: "NUL \<notin> set s \<Longrightarrow> NUL \<notin> set (uri_encoded s)"
  by (induction s) (auto simp: uri_encoded_def uri_code_no_NUL)

lemma uri_encoded_length: "length (uri_encoded s) \<le> 3 * length s"
proof (induction s)
  case (Cons c s)
  then show ?case using uri_code_length [of c] by (simp add: uri_encoded_Cons)
qed (simp add: uri_encoded_def)

lemma uri_encode_loop_complete:
  assumes "length w + length (uri_encoded s) + 2 \<le> sz" and "length (w @ NUL # old) = sz"
  shows "\<exists>post. uri_encode_loop (w @ NUL # old) sz (length w) s =
      Some (w @ uri_encoded s @ NUL # post) \<and> length (w @ uri_encoded s @ NUL # post) = sz"
  using assms
proof (induction s arbitrary: w old)
  case Nil
  then show ?case by (auto simp: uri_encoded_def)
next
  case (Cons c s)
  let ?t = "uri_code c"
  have go: "\<not> sz - length w \<le> 2"
    using Cons.prems(1) uri_code_length [of c] uri_code_three [of c] by (auto simp: uri_encoded_Cons)
  have len: "length (take (length ?t + 1) (NUL # old)) = length (?t @ [NUL])"
    using Cons.prems by (simp add: uri_encoded_Cons)
  let ?old' = "drop (length ?t + 1) (NUL # old)"
  have "c_write (w @ NUL # old) (length w) (?t @ [NUL]) = Some (w @ (?t @ [NUL]) @ ?old')"
    using c_write_append [OF len, of w ?old'] by (simp only: append_take_drop_id)
  then have step: "uri_encode_loop (w @ NUL # old) sz (length w) (c # s) =
      uri_encode_loop ((w @ ?t) @ NUL # ?old') sz (length (w @ ?t)) s"
    using go by simp
  have "\<exists>post. uri_encode_loop ((w @ ?t) @ NUL # ?old') sz (length (w @ ?t)) s =
      Some ((w @ ?t) @ uri_encoded s @ NUL # post) \<and>
      length ((w @ ?t) @ uri_encoded s @ NUL # post) = sz"
    using Cons.prems by (intro Cons.IH) (auto simp: uri_encoded_Cons)
  then show ?case unfolding step by (simp add: uri_encoded_Cons)
qed

subsection \<open>Decoding an encoded name\<close>

lemma url_decode_uri_encoded: "url_decode (uri_encoded s) = s"
proof (induction s)
  case Nil
  show ?case by (simp add: uri_encoded_def)
next
  case (Cons c s)
  show ?case
  proof (cases "uri_reserved c")
    case True
    then obtain a b where "uri_code c = [CHR ''%'', a, b]" "escape_char a b = c"
      by (rule uri_code_reserved)
    with Cons.IH show ?thesis by (simp add: uri_encoded_Cons)
  next
    case False
    with Cons.IH show ?thesis by (simp add: uri_encoded_Cons uri_code_plain)
  qed
qed

lemma well_escaped_uri_encoded: "well_escaped (uri_encoded s)"
proof (induction s)
  case Nil
  show ?case by (simp add: uri_encoded_def)
next
  case (Cons c s)
  then show ?case
    by (cases "uri_reserved c") (auto simp: uri_encoded_Cons uri_code_plain elim!: uri_code_reserved)
qed

subsection \<open>Header fields: safety and value\<close>

text \<open>
  A field name without line ends cannot reach into the final line end of the header, so
  the two bytes skipped after it are inside the string.
\<close>

lemma name_before_line_end:
  assumes "suffix CRLF s" and "s = a @ name @ b" and "name \<noteq> []"
    and "CR \<notin> set name" and "LF \<notin> set name"
  shows "2 \<le> length b"
proof -
  from assms(1) obtain t where s: "s = t @ [CR, LF]" by (auto simp: suffix_def)
  have mem: "last name \<in> set name" using assms(3) by simp
  consider "b = []" | x where "b = [x]" | "2 \<le> length b"
    by (cases b; cases "tl b") auto
  then show ?thesis
  proof cases
    case 1
    then have "last s = last name" using assms(2,3) by simp
    moreover have "last s = LF" using s by simp
    ultimately show ?thesis using mem assms(5) by simp
  next
    case 2
    then have "butlast s = a @ name" using assms(2) by (simp add: butlast_append)
    moreover have "butlast s = t @ [CR]" using s by (simp add: butlast_append)
    ultimately have "a @ name = t @ [CR]" by simp
    then have "last (a @ name) = CR" by simp
    then have "last name = CR" using assms(3) by simp
    then show ?thesis using mem assms(4) by simp
  qed
qed

lemma get_param_value_safe:
  assumes "cstr m hp = Some s" and "suffix CRLF s" and "name \<noteq> []"
    and "CR \<notin> set name" and "LF \<notin> set name"
  shows "get_param_value m hp name sz (length name) \<noteq> None"
proof (cases "find_sub name s")
  case None
  with assms(1) show ?thesis by (simp add: get_param_value_def c_strstr_Some)
next
  case (Some i)
  then obtain a b where s: "s = a @ name @ b" "length a = i" by (auto dest: find_sub_SomeD)
  with name_before_line_end [OF assms(2) s(1)] assms have "i + length name + 2 \<le> length s" by auto
  with assms(1) have "cstr m (hp + (i + length name + 2)) = Some (drop (i + length name + 2) s)"
    by (intro cstr_suffix)
  with Some assms(1) show ?thesis
    by (auto simp: get_param_value_def c_strstr_Some add.assoc split: option.splits)
qed

lemma get_param_value_field:
  assumes "cstr m hp = Some s" and "s = a @ name @ x # y # v @ CRLF @ rest"
    and "find_sub name s = Some (length a)" and "find_sub CRLF (v @ CRLF @ rest) = Some (length v)"
  shows "get_param_value m hp name sz (length name) = Some (if length v + 1 < sz then Some v else None)"
proof -
  let ?n = "length a + length name + 2"
  have "drop ?n s = v @ CRLF @ rest" using assms(2) by simp
  then have c: "cstr m (hp + ?n) = Some (v @ CRLF @ rest)"
    using cstr_suffix [OF assms(1), of ?n] assms(2) by simp
  then obtain pre post where m: "m = pre @ (v @ CRLF @ rest) @ NUL # post" "length pre = hp + ?n"
    by (rule cstr_SomeE)
  then have "take (length v) (drop (hp + ?n) m) = v" by simp
  with c assms(1,3,4) show ?thesis
    by (simp add: get_param_value_def c_strstr_Some add.assoc)
qed

subsection \<open>Properties\<close>

text \<open>
  Claim C24. A link of a directory listing leads back to the file: for every file name of at most 255
  bytes \<open>uri_encode\<close> fills the buffer of \<open>list_dir\<close> without leaving it, and
  \<open>replaceEscape\<close>, applied to the encoded name as it comes back in a request, restores
  exactly the name.
\<close>

theorem link_roundtrip:
  assumes "NUL \<notin> set s" and "length s \<le> 255" and "length m = ESCAPED_FNAME_LEN"
  shows "\<exists>m' m''. uri_encode (Some m) ESCAPED_FNAME_LEN (Some s) = Some (Some m') \<and>
    cstr m' 0 = Some (uri_encoded s) \<and> replaceEscape m' 0 = Some m'' \<and> cstr m'' 0 = Some s"
proof -
  let ?e = "uri_encoded s"
  obtain x old where m: "m = x # old" using assms(3) by (cases m) (auto simp: buffer_sizes)
  have "length ?e \<le> 3 * length s" by (rule uri_encoded_length)
  then have "length [] + length ?e + 2 \<le> ESCAPED_FNAME_LEN" using assms(2) by (simp add: buffer_sizes)
  then obtain post where run: "uri_encode_loop ([] @ NUL # old) ESCAPED_FNAME_LEN (length []) s =
      Some ([] @ ?e @ NUL # post)"
    using uri_encode_loop_complete [of "[]" s ESCAPED_FNAME_LEN old] assms(3) m by auto
  let ?m' = "?e @ NUL # post"
  have enc: "uri_encode (Some m) ESCAPED_FNAME_LEN (Some s) = Some (Some ?m')"
    using run m by (simp add: uri_encode_def buffer_sizes c_poke_def)
  have no_NUL: "NUL \<notin> set ?e" using assms(1) by (rule uri_encoded_no_NUL)
  then have c: "cstr ?m' 0 = Some ?e" using cstr_append [of ?e "[]"] by simp
  from replaceEscape_decode [OF well_escaped_uri_encoded no_NUL, of "[]" post] obtain junk where
    dec: "replaceEscape ?m' 0 = Some (s @ NUL # junk @ post)"
    by (auto simp: url_decode_uri_encoded)
  have "cstr (s @ NUL # junk @ post) 0 = Some s" using cstr_append [OF assms(1), of "[]"] by simp
  with enc c dec show ?thesis by blast
qed

theorem link_roundtrip_witness:
  "\<exists>m' m''. uri_encode (Some (replicate ESCAPED_FNAME_LEN NUL)) ESCAPED_FNAME_LEN (Some ''a b%.txt'') =
      Some (Some m') \<and> cstr m' 0 = Some (uri_encoded ''a b%.txt'') \<and>
    replaceEscape m' 0 = Some m'' \<and> cstr m'' 0 = Some ''a b%.txt''"
  by (rule link_roundtrip) simp_all

text \<open>
  Claim C25. \<open>html_encode\<close> stays inside its buffer for every name and every buffer size, and what it
  leaves in the buffer cannot close a tag or an attribute: it has no angle bracket, no
  double quote and no space, is a prefix of the full encoding, and is the full encoding
  when that fits.
\<close>

theorem html_encode_safe:
  assumes "NUL \<notin> set s" and "0 < length m"
  shows "\<exists>m' t. html_encode (Some m) (length m) (Some s) = Some (Some m') \<and> cstr m' 0 = Some t \<and>
    set t \<inter> {CHR ''<'', CHR ''>'', CHR 0x22, CHR '' ''} = {} \<and> prefix t (html_encoded s) \<and>
    (length (html_encoded s) < length m \<longrightarrow> t = html_encoded s) \<and> length m' = length m"
proof -
  obtain x old where m: "m = x # old" using assms(2) by (cases m) auto
  from html_encode_loop_prefix [of s "[]" old "length m"] assms(1) m obtain k post where
    k: "html_encode_loop (NUL # old) (length m) 0 s = Some (html_encoded (take k s) @ NUL # post)"
    "length (html_encoded s) < length m \<longrightarrow> k = length s"
    "length (html_encoded (take k s) @ NUL # post) = length m"
    by auto
  let ?t = "html_encoded (take k s)"
  have "html_encode (Some m) (length m) (Some s) = Some (Some (?t @ NUL # post))"
    using k(1) m by (simp add: html_encode_def c_poke_def)
  moreover have "NUL \<notin> set (take k s)" using assms(1) by (meson in_set_takeD)
  then have "cstr (?t @ NUL # post) 0 = Some ?t"
    using cstr_append [of ?t "[]"] html_encoded_no_NUL by simp
  ultimately show ?thesis
    using html_encoded_safe [of "take k s"] html_encoded_take_prefix [of k s] k(2,3) by fastforce
qed

theorem html_encode_safe_witness:
  "\<exists>m' t. html_encode (Some ''....'') (length ''....'') (Some ''a<b>'') = Some (Some m') \<and>
    cstr m' 0 = Some t \<and> set t \<inter> {CHR ''<'', CHR ''>'', CHR 0x22, CHR '' ''} = {} \<and>
    prefix t (html_encoded ''a<b>'') \<and>
    (length (html_encoded ''a<b>'') < length ''....'' \<longrightarrow> t = html_encoded ''a<b>'') \<and>
    length m' = length ''....''"
  by (rule html_encode_safe) simp_all

text \<open>
  The lookup matches a name anywhere in the header, also inside another field name: a request
  with an \<open>If-Range\<close> field and no \<open>Range\<close> field is answered as if it had a \<open>Range\<close> field.
\<close>

lemma get_param_value_matches_inside:
  "get_param_value (''If-Range: 5'' @ CRLF @ [NUL]) 0 ''Range'' 128 5 = Some (Some ''5'')"
  by (simp add: get_param_value_def c_strstr_def cstr_def)

end
