(* ===== verification/Base64.thy ===== *)
theory Base64
  imports Types
begin

unbundle bit_operations_syntax

section \<open>base64.c: decoding credentials\<close>

text \<open>
  \<open>getCode\<close>, \<open>decode4_64\<close> and \<open>decode64\<close> of \<open>base64.c\<close>. The source text and the result
  buffer are two memory blocks; the decoder walks the text in groups of four and writes
  three bytes and a terminator for each. The lemmas show that a text whose length is a
  multiple of four is decoded inside a result buffer of the size the comment of
  \<open>decode64\<close> asks for, and that decoding inverts the encoder of RFC 4648.
\<close>

subsection \<open>Definitions\<close>

definition getCode :: "char \<Rightarrow> 8 word" where
  "getCode c =
     (let n = of_char c :: nat in
      if 65 \<le> n \<and> n \<le> 90 then of_nat (n - 65)
      else if 97 \<le> n \<and> n \<le> 122 then of_nat (n - 97 + 26)
      else if 48 \<le> n \<and> n \<le> 57 then of_nat (n - 48 + 52)
      else if c = CHR ''+'' then 62
      else if c = CHR ''/'' then 63
      else 0)"

definition byte :: "8 word \<Rightarrow> char" where
  "byte w = char_of (unat w)"

definition decode_group :: "char \<Rightarrow> char \<Rightarrow> char \<Rightarrow> char \<Rightarrow> string" where
  "decode_group g0 g1 g2 g3 =
     [byte (push_bit 2 (getCode g0) OR drop_bit 4 (getCode g1)),
      byte (push_bit 4 (getCode g1) OR drop_bit 2 (getCode g2)),
      byte (push_bit 6 (getCode g2) OR getCode g3)]"

definition decode4_64 :: "cmem \<Rightarrow> nat \<Rightarrow> cmem \<Rightarrow> nat \<Rightarrow> cmem option" where
  "decode4_64 rm res em grp = do {
     g0 \<leftarrow> c_peek em grp;
     g1 \<leftarrow> c_peek em (grp + 1);
     g2 \<leftarrow> c_peek em (grp + 2);
     g3 \<leftarrow> c_peek em (grp + 3);
     c_write rm res (decode_group g0 g1 g2 g3)
   }"

function decode64 :: "cmem \<Rightarrow> nat \<Rightarrow> cmem \<Rightarrow> nat \<Rightarrow> cmem option" where
  "decode64 rm res em enc = do {
     c \<leftarrow> c_peek em enc;
     if c = NUL then Some rm
     else do {
       rm1 \<leftarrow> decode4_64 rm res em enc;
       rm2 \<leftarrow> c_poke rm1 (res + 3) NUL;
       decode64 rm2 (res + 3) em (enc + 4)
     }
   }"
  by pat_completeness auto
termination
  by (relation "measure (\<lambda>(rm, res, em, enc). length em - enc)")
    (auto simp: c_peek_def split: if_splits)

declare decode64.simps [simp del]

text \<open>The decoding of whole groups on lists.\<close>

fun groups_decode :: "string \<Rightarrow> string" where
  "groups_decode (g0 # g1 # g2 # g3 # gs) = decode_group g0 g1 g2 g3 @ groups_decode gs"
| "groups_decode _ = []"

text \<open>The encoder of RFC 4648, the specification of the text a client sends.\<close>

definition b64_char :: "8 word \<Rightarrow> char" where
  "b64_char w =
     (let n = unat w in
      if n < 26 then char_of (n + 65)
      else if n < 52 then char_of (n - 26 + 97)
      else if n < 62 then char_of (n - 52 + 48)
      else if n = 62 then CHR ''+'' else CHR ''/'')"

abbreviation wchar :: "char \<Rightarrow> 8 word" where
  "wchar c \<equiv> of_nat (of_char c)"

fun b64_encode :: "string \<Rightarrow> string" where
  "b64_encode [] = []"
| "b64_encode [a] =
     [b64_char (drop_bit 2 (wchar a)), b64_char (push_bit 4 (wchar a AND 3)),
      CHR ''='', CHR ''='']"
| "b64_encode [a, b] =
     [b64_char (drop_bit 2 (wchar a)),
      b64_char (push_bit 4 (wchar a AND 3) OR drop_bit 4 (wchar b)),
      b64_char (push_bit 2 (wchar b AND 15)), CHR ''='']"
| "b64_encode (a # b # c # s) =
     b64_char (drop_bit 2 (wchar a))
     # b64_char (push_bit 4 (wchar a AND 3) OR drop_bit 4 (wchar b))
     # b64_char (push_bit 2 (wchar b AND 15) OR drop_bit 6 (wchar c))
     # b64_char (wchar c AND 63) # b64_encode s"

subsection \<open>The decoding loop\<close>

lemma length_decode_group [simp]: "length (decode_group a b c d) = 3"
  by (simp add: decode_group_def)

lemma div4_step: "(4 + n) div 4 = Suc (n div (4::nat))"
  by simp

lemma drop4_step: "drop (4 + k) (x0 # x1 # x2 # x3 # xs) = drop k xs"
  by (simp add: eval_nat_numeral)

lemma groups_decode_length: "length s mod 4 = 0 \<Longrightarrow> length (groups_decode s) = length s div 4 * 3"
proof (induction s rule: groups_decode.induct)
  case (1 g0 g1 g2 g3 gs)
  then show ?case by (simp add: div4_step)
qed auto

lemma decode64_step:
  assumes "g0 \<noteq> NUL"
  shows "decode64 (pre @ x0 # x1 # x2 # x3 # old) (length pre)
      (ep @ g0 # g1 # g2 # g3 # rest) (length ep) =
    decode64 ((pre @ decode_group g0 g1 g2 g3) @ NUL # old)
      (length (pre @ decode_group g0 g1 g2 g3))
      ((ep @ [g0, g1, g2, g3]) @ rest) (length (ep @ [g0, g1, g2, g3]))"
proof -
  have "c_write (pre @ x0 # x1 # x2 # x3 # old) (length pre) (decode_group g0 g1 g2 g3) =
      Some (pre @ decode_group g0 g1 g2 g3 @ x3 # old)"
    by (simp add: c_write_def)
  then show ?thesis
    using assms by (subst decode64.simps)
      (simp add: c_peek_def nth_append decode4_64_def c_poke_def list_update_append eval_nat_numeral)
qed

lemma decode64_groups:
  assumes "length s mod 4 = 0" and "NUL \<notin> set s" and "s \<noteq> []"
    and "length s div 4 * 3 < length old"
  shows "decode64 (pre @ old) (length pre) (ep @ s @ NUL # post) (length ep) =
    Some (pre @ groups_decode s @ NUL # drop (length s div 4 * 3 + 1) old)"
  using assms
proof (induction s arbitrary: pre old ep rule: groups_decode.induct)
  case (1 g0 g1 g2 g3 gs)
  let ?d = "decode_group g0 g1 g2 g3"
  from "1.prems"(4) have len: "3 + length gs div 4 * 3 < length old" by (simp add: div4_step)
  then obtain x0 x1 x2 x3 old' where old: "old = x0 # x1 # x2 # x3 # old'"
    by (cases old; cases "tl old"; cases "tl (tl old)"; cases "tl (tl (tl old))") auto
  have step: "decode64 (pre @ old) (length pre) (ep @ (g0 # g1 # g2 # g3 # gs) @ NUL # post) (length ep) =
      decode64 ((pre @ ?d) @ NUL # old') (length (pre @ ?d))
        ((ep @ [g0, g1, g2, g3]) @ gs @ NUL # post) (length (ep @ [g0, g1, g2, g3]))"
    using decode64_step [of g0 pre x0 x1 x2 x3 old' ep g1 g2 g3 "gs @ NUL # post"] "1.prems"(2) old
    by (auto simp del: decode64.simps)
  show ?case
  proof (cases "gs = []")
    case True
    then show ?thesis unfolding step
      by (subst decode64.simps) (simp add: c_peek_def nth_append old)
  next
    case False
    have "decode64 ((pre @ ?d) @ NUL # old') (length (pre @ ?d))
        ((ep @ [g0, g1, g2, g3]) @ gs @ NUL # post) (length (ep @ [g0, g1, g2, g3])) =
      Some ((pre @ ?d) @ groups_decode gs @ NUL # drop (length gs div 4 * 3 + 1) (NUL # old'))"
      using "1.prems" False len old by (intro "1.IH") auto
    then show ?thesis unfolding step by (simp add: old div4_step drop4_step)
  qed
qed auto

subsection \<open>The decoder inverts the encoder\<close>

lemma getCode_b64_char:
  assumes "unat w < 64"
  shows "getCode (b64_char w) = w"
proof -
  obtain n where n: "unat w = n" and w: "of_nat n = w" by simp
  with assms consider "n < 26" | "26 \<le> n" "n < 52" | "52 \<le> n" "n < 62" | "n = 62" | "n = 63"
    by linarith
  then have "getCode (b64_char w) = of_nat n"
  proof cases
    case 3
    then obtain k where "n = k + 52" and "k < 10" by (intro that [of "n - 52"]) auto
    then show ?thesis unfolding getCode_def b64_char_def Let_def n by (simp add: of_char_of)
  qed (unfold getCode_def b64_char_def Let_def n, simp_all add: of_char_of)
  with w show ?thesis by simp
qed

text \<open>Equality of bytes, bit by bit.\<close>

lemma bit_beyond_byte: "8 \<le> n \<Longrightarrow> \<not> bit (w :: 8 word) n"
  using bit_imp_le_length [of w n] by auto

lemma byte_eqI:
  fixes a b :: "8 word"
  assumes "bit a 0 = bit b 0" "bit a 1 = bit b 1" "bit a 2 = bit b 2" "bit a 3 = bit b 3"
    "bit a 4 = bit b 4" "bit a 5 = bit b 5" "bit a 6 = bit b 6" "bit a 7 = bit b 7"
  shows "a = b"
proof (rule bit_word_eqI)
  fix n assume "n < LENGTH(8)"
  then have "n \<in> {0, 1, 2, 3, 4, 5, 6, 7}" by auto
  then show "bit a n = bit b n" using assms by auto
qed

lemma sextet_bound: "w AND 63 = w \<Longrightarrow> unat (w :: 8 word) < 64"
  using word_and_le1 [of w 63] by (auto simp: word_le_nat_alt)

lemma sextet_bounds:
  fixes a b c :: "8 word"
  shows "unat (drop_bit 2 a) < 64" "unat (push_bit 4 (a AND 3)) < 64"
    "unat (push_bit 4 (a AND 3) OR drop_bit 4 b) < 64" "unat (push_bit 2 (b AND 15)) < 64"
    "unat (push_bit 2 (b AND 15) OR drop_bit 6 c) < 64" "unat (c AND 63) < 64"
  by (rule sextet_bound, rule byte_eqI; simp add: bit_simps bit_beyond_byte)+

lemma join_first: "push_bit 2 (drop_bit 2 a) OR drop_bit 4 (push_bit 4 (a AND 3) OR drop_bit 4 b) = (a :: 8 word)"
  by (rule byte_eqI) (simp_all add: bit_simps)

lemma join_second:
  "push_bit 4 (push_bit 4 (a AND 3) OR drop_bit 4 b) OR
   drop_bit 2 (push_bit 2 (b AND 15) OR drop_bit 6 c) = (b :: 8 word)"
  by (rule byte_eqI) (simp_all add: bit_simps)

lemma join_third: "push_bit 6 (push_bit 2 (b AND 15) OR drop_bit 6 c) OR (c AND 63) = (c :: 8 word)"
  by (rule byte_eqI) (simp_all add: bit_simps)

lemma byte_wchar [simp]: "byte (wchar c) = c"
  using nat_of_char_less_256 [of c] by (simp add: byte_def unat_of_nat)

lemma getCode_pad: "getCode (CHR ''='') = 0"
  by (simp add: getCode_def)

lemma join_padded:
  fixes a b :: "8 word"
  shows "push_bit 2 (drop_bit 2 a) OR drop_bit 4 (push_bit 4 (a AND 3)) = a"
    "push_bit 4 (push_bit 4 (a AND 3)) OR drop_bit 2 0 = 0"
    "push_bit 4 (push_bit 4 (a AND 3) OR drop_bit 4 b) OR drop_bit 2 (push_bit 2 (b AND 15)) = b"
    "push_bit 6 (push_bit 2 (b AND 15)) OR 0 = 0"
    "push_bit 6 0 OR 0 = (0 :: 8 word)"
  by (rule byte_eqI; simp add: bit_simps)+

lemmas join_simps = join_first join_second join_third join_padded

lemma byte_0: "byte 0 = NUL"
  by (simp add: byte_def char_of_def)

lemma groups_decode_encode:
  "\<exists>z. groups_decode (b64_encode s) = s @ z \<and> set z \<subseteq> {NUL}"
proof (induction s rule: b64_encode.induct)
  case (2 a)
  have "groups_decode (b64_encode [a]) = [a] @ [NUL, NUL]"
    by (simp only: b64_encode.simps groups_decode.simps decode_group_def getCode_b64_char
        sextet_bounds getCode_pad join_simps byte_wchar byte_0 append.simps)
  then show ?case by (intro exI [of _ "[NUL, NUL]"]) simp
next
  case (3 a b)
  have "groups_decode (b64_encode [a, b]) = [a, b] @ [NUL]"
    by (simp only: b64_encode.simps groups_decode.simps decode_group_def getCode_b64_char
        sextet_bounds getCode_pad join_simps byte_wchar byte_0 append.simps)
  then show ?case by (intro exI [of _ "[NUL]"]) simp
next
  case (4 a b c s)
  have "groups_decode (b64_encode (a # b # c # s)) = [a, b, c] @ groups_decode (b64_encode s)"
    by (simp only: b64_encode.simps groups_decode.simps decode_group_def getCode_b64_char
        sextet_bounds join_simps byte_wchar append.simps)
  with 4 show ?case by auto
qed auto

lemma b64_encode_length: "length (b64_encode s) mod 4 = 0"
  by (induction s rule: b64_encode.induct) auto

lemma b64_char_not_NUL: "b64_char w \<noteq> NUL"
proof -
  have "of_char (b64_char w) \<noteq> (0::nat)"
    by (cases "unat w = 62") (auto simp: b64_char_def Let_def)
  then show ?thesis by auto
qed

lemma b64_encode_no_NUL: "NUL \<notin> set (b64_encode s)"
  by (induction s rule: b64_encode.induct) (auto simp: b64_char_not_NUL [symmetric])

lemma decode64_encode:
  assumes "NUL \<notin> set s" and "s \<noteq> []" and "length (b64_encode s) div 4 * 3 + 1 \<le> length rm"
  shows "\<exists>rm'. decode64 rm 0 (b64_encode s @ NUL # post) 0 = Some rm' \<and> cstr rm' 0 = Some s \<and>
           length rm' = length rm"
proof -
  let ?e = "b64_encode s" and ?n = "length (b64_encode s) div 4 * 3 + 1"
  have ne: "?e \<noteq> []" using assms(2) by (cases s rule: b64_encode.cases) auto
  obtain z where z: "groups_decode ?e = s @ z" "set z \<subseteq> {NUL}" using groups_decode_encode by blast
  have len: "length (s @ z) = length ?e div 4 * 3"
    using groups_decode_length [OF b64_encode_length, of s] z(1) by simp
  have run: "decode64 rm 0 (?e @ NUL # post) 0 = Some (s @ z @ NUL # drop ?n rm)"
    using decode64_groups [of ?e rm "[]" "[]" post] b64_encode_length b64_encode_no_NUL ne assms(3) z(1)
    by simp
  have "cstr (s @ z @ NUL # drop ?n rm) 0 = Some s"
  proof (cases z)
    case Nil
    then show ?thesis using cstr_append [OF assms(1), of "[]"] by simp
  next
    case (Cons c z')
    then show ?thesis using cstr_append [OF assms(1), of "[]" "z' @ NUL # drop ?n rm"] z(2) by simp
  qed
  then show ?thesis using run len assms(3) by auto
qed

subsection \<open>Properties\<close>

text \<open>
  Claim C26. Decoding the RFC 4648 encoding of a text gives the text back: with a result buffer of
  the size that the comment of \<open>decode64\<close> asks for, \<open>decode64\<close> stays inside both buffers and
  leaves the text as the C string in the result.
\<close>

theorem decode64_roundtrip:
  assumes "NUL \<notin> set s" and "s \<noteq> []" and "length (b64_encode s) div 4 * 3 + 1 \<le> length rm"
  shows "\<exists>rm'. decode64 rm 0 (b64_encode s @ NUL # post) 0 = Some rm' \<and> cstr rm' 0 = Some s \<and>
           length rm' = length rm"
  using assms by (rule decode64_encode)

theorem decode64_roundtrip_witness:
  "\<exists>rm'. decode64 (replicate 9 NUL) 0 (b64_encode ''ab:cd'' @ NUL # ''zz'') 0 = Some rm' \<and>
     cstr rm' 0 = Some ''ab:cd'' \<and> length rm' = length (replicate 9 NUL)"
  by (rule decode64_roundtrip) simp_all

text \<open>
  A text whose length is not a multiple of four sends the decoder past its terminator:
  after the last group it looks for the end of the text behind the terminator and reads
  outside the array that holds it. The loop has no check that would stop it.
\<close>

lemma decode64_runs_past_end:
  "decode64 (replicate 600 NUL) 0 (''QQQQQ'' @ [NUL]) 0 = None"
proof -
  have step: "decode64 (x0 # x1 # x2 # x3 # rs) 0 (''QQQQQ'' @ [NUL]) 0 = None" for x0 x1 x2 x3 rs
    using decode64_step [of "CHR ''Q''" "[]" x0 x1 x2 x3 rs "[]" "CHR ''Q''" "CHR ''Q''" "CHR ''Q''"
        "[CHR ''Q'', NUL]"]
    by (simp add: decode64.simps [of _ 3] c_peek_def decode4_64_def)
  from step [of NUL NUL NUL NUL "replicate 596 NUL"] show ?thesis
    by (simp add: numeral_eq_Suc)
qed

end
