(* ===== verification/SynQueue.thy ===== *)
theory SynQueue
  imports Types
begin

section \<open>queue.c: the synchronised queue of accepted sockets\<close>

text \<open>
  The ring buffer that carries accepted sockets, and the termination orders of
  \<open>t_shape\<close>, from the listener to the worker threads. \<open>q_put\<close> and \<open>q_get\<close> are the two
  critical sections of \<open>queue.c\<close>; a thread that finds the queue empty is \<open>Blocked\<close> in
  \<open>pthread_cond_wait\<close> and runs \<open>q_get\<close> again when it wakes up, which is what the
  \<open>while\<close> loop of the source does. The interface \<open>bounded_fifo\<close> states what the
  listener and the workers rely on; the ring buffer is interpreted as one. The step
  relation \<open>qstep\<close> interleaves the critical sections of any number of threads, with
  spurious wake-ups, and the invariant rules out lost wake-ups.
\<close>

subsection \<open>The structure and its operations\<close>

record syn_queue_t =
  q_num :: nat
  q_size :: nat
  q_head :: nat
  q_tail :: nat
  q_data :: "int list"
  n_wait_sp :: nat
  n_wait_dt :: nat

text \<open>\<open>q_init\<close>: the argument is what \<open>malloc\<close> returned, a block of \<open>sz\<close> integers or null.\<close>

definition q_init :: "nat \<Rightarrow> int list option \<Rightarrow> int \<times> syn_queue_t" where
  "q_init sz block =
     (case block of
        None \<Rightarrow> (1, \<lparr>q_num = 0, q_size = sz, q_head = 0, q_tail = 0, q_data = [],
                  n_wait_sp = 0, n_wait_dt = 0\<rparr>)
      | Some d \<Rightarrow> (0, \<lparr>q_num = 0, q_size = sz, q_head = 0, q_tail = 0, q_data = d,
                  n_wait_sp = 0, n_wait_dt = 0\<rparr>))"

datatype get_result = Got int syn_queue_t | Blocked syn_queue_t

definition q_get :: "syn_queue_t \<Rightarrow> get_result" where
  "q_get q =
     (if q_num q = 0 then Blocked (q\<lparr>n_wait_dt := n_wait_dt q + 1\<rparr>)
      else Got (q_data q ! q_head q)
             (q\<lparr>q_head := (q_head q + 1) mod q_size q, q_num := q_num q - 1\<rparr>))"

text \<open>\<open>q_put\<close> returns the status, the queue and whether \<open>for_data\<close> was signalled.\<close>

definition q_put :: "syn_queue_t \<Rightarrow> int \<Rightarrow> int \<times> syn_queue_t \<times> bool" where
  "q_put q v =
     (let sig = 0 < n_wait_dt q;
          q1 = (if sig then q\<lparr>n_wait_dt := n_wait_dt q - 1\<rparr> else q)
      in if q_num q1 = q_size q1 then (1, q1, sig)
         else (0, q1\<lparr>q_data := (q_data q1)[q_tail q1 := v],
                      q_tail := (q_tail q1 + 1) mod q_size q1,
                      q_num := q_num q1 + 1\<rparr>, sig))"

subsection \<open>Invariant and abstraction\<close>

definition q_inv :: "syn_queue_t \<Rightarrow> bool" where
  "q_inv q \<longleftrightarrow> 0 < q_size q \<and> length (q_data q) = q_size q \<and> q_num q \<le> q_size q \<and>
     q_head q < q_size q \<and> q_tail q = (q_head q + q_num q) mod q_size q"

definition q_list :: "syn_queue_t \<Rightarrow> int list" where
  "q_list q = map (\<lambda>i. q_data q ! ((q_head q + i) mod q_size q)) [0..<q_num q]"

lemma length_q_list [simp]: "length (q_list q) = q_num q"
  by (simp add: q_list_def)

lemma q_list_wait [simp]: "q_list (q\<lparr>n_wait_dt := n\<rparr>) = q_list q"
  by (simp add: q_list_def)

lemma q_inv_wait [simp]: "q_inv (q\<lparr>n_wait_dt := n\<rparr>) = q_inv q"
  by (simp add: q_inv_def)

lemma mod_add_neq:
  assumes "i < j" and "j < s" shows "(h + i) mod s \<noteq> (h + j) mod (s::nat)"
proof
  assume "(h + i) mod s = (h + j) mod s"
  then have "s dvd (h + j) - (h + i)" by (metis mod_eq_dvd_iff_nat add_le_cancel_left assms(1) less_imp_le)
  then have "s \<le> j - i" using assms by (auto dest: dvd_imp_le)
  with assms show False by simp
qed

lemma q_get_Got:
  assumes "q_inv q" and "0 < q_num q"
  shows "\<exists>q'. q_get q = Got (hd (q_list q)) q' \<and> q_inv q' \<and> q_list q' = tl (q_list q) \<and>
           q_size q' = q_size q"
proof -
  let ?q' = "q\<lparr>q_head := (q_head q + 1) mod q_size q, q_num := q_num q - 1\<rparr>"
  obtain n where n: "q_num q = Suc n" using assms(2) gr0_implies_Suc by blast
  have hd: "hd (q_list q) = q_data q ! q_head q"
    using assms n by (simp add: q_list_def q_inv_def hd_map del: upt_Suc)
  have tl: "q_list ?q' = tl (q_list q)"
    using n by (simp add: q_list_def map_tl [symmetric] upt_conv_Cons map_Suc_upt [symmetric]
        mod_simps del: upt_Suc map_Suc_upt)
  have "q_inv ?q'" using assms n by (auto simp: q_inv_def mod_simps)
  with hd tl assms(2) show ?thesis by (auto simp: q_get_def)
qed

lemma q_put_accept:
  assumes "q_inv q" and "q_num q < q_size q"
  shows "\<exists>q' sig. q_put q v = (0, q', sig) \<and> q_inv q' \<and> q_list q' = q_list q @ [v] \<and>
           q_size q' = q_size q"
proof -
  let ?w = "if 0 < n_wait_dt q then n_wait_dt q - 1 else n_wait_dt q"
  let ?q' = "q\<lparr>n_wait_dt := ?w, q_data := (q_data q)[q_tail q := v],
      q_tail := (q_tail q + 1) mod q_size q, q_num := q_num q + 1\<rparr>"
  have put: "q_put q v = (0, ?q', 0 < n_wait_dt q)"
    using assms by (simp add: q_put_def Let_def)
  have inv: "q_inv ?q'" using assms by (auto simp: q_inv_def mod_simps)
  have "(q_data q)[q_tail q := v] ! ((q_head q + i) mod q_size q) =
      q_data q ! ((q_head q + i) mod q_size q)" if "i < q_num q" for i
    using assms that mod_add_neq [of i "q_num q" "q_size q" "q_head q"]
    by (auto simp: q_inv_def nth_list_update)
  then have "q_list ?q' = q_list q @ [v]"
    using assms by (simp add: q_list_def q_inv_def)
  with put inv show ?thesis by auto
qed

lemma q_put_full:
  assumes "q_inv q" and "q_num q = q_size q"
  shows "\<exists>q' sig. q_put q v = (1, q', sig) \<and> q_inv q' \<and> q_list q' = q_list q \<and>
           q_size q' = q_size q"
  using assms by (auto simp: q_put_def Let_def)

subsection \<open>The interface: a bounded first-in first-out queue\<close>

datatype 'a fifo_op = Enq 'a | Deq
datatype 'a fifo_out = Accepted | Refused | Item 'a | Empty

text \<open>A sequence of operations on any implementation, and on a list of bounded length.\<close>

fun run_fifo :: "('q \<Rightarrow> 'a \<Rightarrow> int \<times> 'q) \<Rightarrow> ('q \<Rightarrow> 'a option \<times> 'q) \<Rightarrow>
    'a fifo_op list \<Rightarrow> 'q \<Rightarrow> 'a fifo_out list \<times> 'q" where
  "run_fifo put get [] q = ([], q)"
| "run_fifo put get (Enq x # ops) q =
     (let (r, q') = put q x; (outs, q'') = run_fifo put get ops q'
      in ((if r = 0 then Accepted else Refused) # outs, q''))"
| "run_fifo put get (Deq # ops) q =
     (let (r, q') = get q; (outs, q'') = run_fifo put get ops q'
      in ((case r of None \<Rightarrow> Empty | Some x \<Rightarrow> Item x) # outs, q''))"

fun fifo_spec :: "nat \<Rightarrow> 'a fifo_op list \<Rightarrow> 'a list \<Rightarrow> 'a fifo_out list \<times> 'a list" where
  "fifo_spec k [] xs = ([], xs)"
| "fifo_spec k (Enq x # ops) xs =
     (if length xs < k
      then let (outs, ys) = fifo_spec k ops (xs @ [x]) in (Accepted # outs, ys)
      else let (outs, ys) = fifo_spec k ops xs in (Refused # outs, ys))"
| "fifo_spec k (Deq # ops) xs =
     (case xs of
        [] \<Rightarrow> let (outs, ys) = fifo_spec k ops [] in (Empty # outs, ys)
      | x # xs' \<Rightarrow> let (outs, ys) = fifo_spec k ops xs' in (Item x # outs, ys))"

locale bounded_fifo =
  fixes put :: "'q \<Rightarrow> 'a \<Rightarrow> int \<times> 'q"
    and get :: "'q \<Rightarrow> 'a option \<times> 'q"
    and contents :: "'q \<Rightarrow> 'a list"
    and inv :: "'q \<Rightarrow> bool"
    and cap :: "'q \<Rightarrow> nat"
  assumes within_cap: "inv q \<Longrightarrow> length (contents q) \<le> cap q"
    and put_room: "inv q \<Longrightarrow> length (contents q) < cap q \<Longrightarrow>
      \<exists>q'. put q x = (0, q') \<and> inv q' \<and> contents q' = contents q @ [x] \<and> cap q' = cap q"
    and put_no_room: "inv q \<Longrightarrow> length (contents q) = cap q \<Longrightarrow>
      \<exists>q'. put q x = (1, q') \<and> inv q' \<and> contents q' = contents q \<and> cap q' = cap q"
    and get_item: "inv q \<Longrightarrow> contents q = x # xs \<Longrightarrow>
      \<exists>q'. get q = (Some x, q') \<and> inv q' \<and> contents q' = xs \<and> cap q' = cap q"
    and get_empty: "inv q \<Longrightarrow> contents q = [] \<Longrightarrow>
      \<exists>q'. get q = (None, q') \<and> inv q' \<and> contents q' = [] \<and> cap q' = cap q"
begin

lemma run_refines:
  "inv q \<Longrightarrow> \<exists>q'. run_fifo put get ops q = (fst (fifo_spec (cap q) ops (contents q)), q') \<and>
     inv q' \<and> contents q' = snd (fifo_spec (cap q) ops (contents q)) \<and> cap q' = cap q"
proof (induction ops arbitrary: q)
  case Nil
  then show ?case by simp
next
  case (Cons op ops)
  show ?case
  proof (cases op)
    case (Enq x)
    show ?thesis
    proof (cases "length (contents q) < cap q")
      case True
      with put_room [OF Cons.prems] obtain q' where "put q x = (0, q')" "inv q'"
        "contents q' = contents q @ [x]" "cap q' = cap q" by metis
      with Cons.IH [of q'] Enq True show ?thesis by (auto simp: split_beta)
    next
      case False
      with within_cap [OF Cons.prems] have "length (contents q) = cap q" by simp
      with put_no_room [OF Cons.prems] obtain q' where "put q x = (1, q')" "inv q'"
        "contents q' = contents q" "cap q' = cap q" by metis
      with Cons.IH [of q'] Enq False show ?thesis by (auto simp: split_beta)
    qed
  next
    case Deq
    show ?thesis
    proof (cases "contents q")
      case Nil
      with get_empty [OF Cons.prems] obtain q' where "get q = (None, q')" "inv q'"
        "contents q' = []" "cap q' = cap q" by metis
      with Cons.IH [of q'] Deq Nil show ?thesis by (auto simp: split_beta)
    next
      case (Cons x xs)
      with get_item [OF Cons.prems] obtain q' where "get q = (Some x, q')" "inv q'"
        "contents q' = xs" "cap q' = cap q" by metis
      with Cons.IH [of q'] Deq Cons show ?thesis by (auto simp: split_beta)
    qed
  qed
qed

end

definition ring_put :: "syn_queue_t \<Rightarrow> int \<Rightarrow> int \<times> syn_queue_t" where
  "ring_put q v = (case q_put q v of (r, q', _) \<Rightarrow> (r, q'))"

definition ring_get :: "syn_queue_t \<Rightarrow> int option \<times> syn_queue_t" where
  "ring_get q = (case q_get q of Got v q' \<Rightarrow> (Some v, q') | Blocked q' \<Rightarrow> (None, q'))"

interpretation ring: bounded_fifo ring_put ring_get q_list q_inv q_size
proof unfold_locales
  fix q assume "q_inv q"
  then show "length (q_list q) \<le> q_size q" by (simp add: q_inv_def)
next
  fix q x assume "q_inv q" "length (q_list q) < q_size q"
  then show "\<exists>q'. ring_put q x = (0, q') \<and> q_inv q' \<and> q_list q' = q_list q @ [x] \<and> q_size q' = q_size q"
    using q_put_accept [of q x] by (auto simp: ring_put_def)
next
  fix q x assume "q_inv q" "length (q_list q) = q_size q"
  then show "\<exists>q'. ring_put q x = (1, q') \<and> q_inv q' \<and> q_list q' = q_list q \<and> q_size q' = q_size q"
    using q_put_full [of q x] by (auto simp: ring_put_def)
next
  fix q x xs assume "q_inv q" "q_list q = x # xs"
  moreover from this(2) have "0 < q_num q" by (metis length_greater_0_conv length_q_list list.discI)
  ultimately show "\<exists>q'. ring_get q = (Some x, q') \<and> q_inv q' \<and> q_list q' = xs \<and> q_size q' = q_size q"
    using q_get_Got [of q] by (auto simp: ring_get_def)
next
  fix q assume "q_inv q" "q_list q = []"
  moreover from this(2) have "q_num q = 0" by (metis length_0_conv length_q_list)
  ultimately show "\<exists>q'. ring_get q = (None, q') \<and> q_inv q' \<and> q_list q' = [] \<and> q_size q' = q_size q"
    by (simp add: ring_get_def q_get_def)
qed

lemma q_init_inv:
  assumes "0 < sz" and "length d = sz"
  shows "q_inv (snd (q_init sz (Some d)))" and "q_list (snd (q_init sz (Some d))) = []"
    and "q_size (snd (q_init sz (Some d))) = sz"
  using assms by (auto simp: q_init_def q_inv_def q_list_def)

subsection \<open>Threads: waiting and signalling\<close>

text \<open>
  The queue with the threads inside \<open>pthread_cond_wait\<close>: those asleep on \<open>for_data\<close> and
  those woken but not yet through the loop test again. Any other thread is outside.
  A signal wakes a sleeper when there is one; a sleeper may also wake without a signal.
\<close>

record qsys =
  que :: syn_queue_t
  sleeping :: "nat set"
  woken :: "nat set"

inductive qstep :: "qsys \<Rightarrow> qsys \<Rightarrow> bool" where
  get_item: "t \<notin> sleeping s \<Longrightarrow> q_get (que s) = Got v q' \<Longrightarrow>
     qstep s (s\<lparr>que := q', woken := woken s - {t}\<rparr>)"
| get_wait: "t \<notin> sleeping s \<Longrightarrow> q_get (que s) = Blocked q' \<Longrightarrow>
     qstep s (s\<lparr>que := q', sleeping := insert t (sleeping s), woken := woken s - {t}\<rparr>)"
| put_wakes: "q_put (que s) v = (r, q', True) \<Longrightarrow> t \<in> sleeping s \<Longrightarrow>
     qstep s (s\<lparr>que := q', sleeping := sleeping s - {t}, woken := insert t (woken s)\<rparr>)"
| put_silent: "q_put (que s) v = (r, q', sig) \<Longrightarrow> \<not> sig \<or> sleeping s = {} \<Longrightarrow>
     qstep s (s\<lparr>que := q'\<rparr>)"
| spurious: "t \<in> sleeping s \<Longrightarrow>
     qstep s (s\<lparr>sleeping := sleeping s - {t}, woken := insert t (woken s)\<rparr>)"

inductive qreach :: "qsys \<Rightarrow> bool" where
  start: "0 < sz \<Longrightarrow> length d = sz \<Longrightarrow> q_init sz (Some d) = (0, q) \<Longrightarrow>
     qreach \<lparr>que = q, sleeping = {}, woken = {}\<rparr>"
| step: "qreach s \<Longrightarrow> qstep s s' \<Longrightarrow> qreach s'"

text \<open>
  The counter \<open>n_wait_dt\<close> never undercounts the sleepers, so a \<open>put\<close> that should signal
  does; and while anybody sleeps there is a woken thread for every item in the queue.
\<close>

definition wait_inv :: "qsys \<Rightarrow> bool" where
  "wait_inv s \<longleftrightarrow> q_inv (que s) \<and> finite (sleeping s) \<and> finite (woken s) \<and>
     sleeping s \<inter> woken s = {} \<and> card (sleeping s) \<le> n_wait_dt (que s) \<and>
     (sleeping s = {} \<or> q_num (que s) \<le> card (woken s))"

lemma q_get_wait_dt: "q_get q = Got v q' \<Longrightarrow> n_wait_dt q' = n_wait_dt q \<and> q_num q = Suc (q_num q')"
  by (auto simp: q_get_def split: if_splits)

lemma q_get_inv: "q_inv q \<Longrightarrow> q_get q = Got v q' \<Longrightarrow> q_inv q'"
  using q_get_Got [of q] by (auto simp: q_get_def split: if_splits)

lemma q_put_inv: "q_inv q \<Longrightarrow> q_put q v = (r, q', sig) \<Longrightarrow> q_inv q'"
  using q_put_accept [of q v] q_put_full [of q v] by (cases "q_num q = q_size q") (auto simp: q_inv_def)

lemma q_put_wait_dt:
  "q_put q v = (r, q', sig) \<Longrightarrow>
     sig = (0 < n_wait_dt q) \<and> n_wait_dt q' = n_wait_dt q - 1 \<and> q_num q' \<le> Suc (q_num q)"
  by (auto simp: q_put_def Let_def split: if_splits)

lemma wait_inv_step: "qstep s s' \<Longrightarrow> wait_inv s \<Longrightarrow> wait_inv s'"
proof (induction rule: qstep.induct)
  case (get_item t s v q')
  then show ?case using q_get_wait_dt [OF get_item.hyps(2)] q_get_inv [OF _ get_item.hyps(2)]
    by (auto simp: wait_inv_def card_Diff_singleton_if)
next
  case (get_wait t s q')
  then have "q' = que s\<lparr>n_wait_dt := n_wait_dt (que s) + 1\<rparr>" and "q_num (que s) = 0"
    by (auto simp: q_get_def split: if_splits)
  with get_wait show ?case by (auto simp: wait_inv_def)
next
  case (put_wakes s v r q' t)
  have "t \<notin> woken s" using put_wakes by (auto simp: wait_inv_def)
  then show ?case using put_wakes q_put_wait_dt [OF put_wakes.hyps(1)] q_put_inv [OF _ put_wakes.hyps(1)]
    by (auto simp: wait_inv_def card_Diff_singleton_if)
next
  case (put_silent s v r q' sig)
  then have "sleeping s = {}"
    using q_put_wait_dt [OF put_silent.hyps(1)] by (auto simp: wait_inv_def)
  then show ?case using put_silent q_put_inv [OF _ put_silent.hyps(1)] by (auto simp: wait_inv_def)
next
  case (spurious t s)
  then have "t \<notin> woken s" by (auto simp: wait_inv_def)
  with spurious show ?case by (auto simp: wait_inv_def card_Diff_singleton_if)
qed

lemma wait_inv_reach: "qreach s \<Longrightarrow> wait_inv s"
proof (induction rule: qreach.induct)
  case (start sz d q)
  then show ?case using q_init_inv [of sz d] by (simp add: wait_inv_def)
next
  case (step s s')
  then show ?case by (blast intro: wait_inv_step)
qed

text \<open>
  No wake-up is lost: in every state the threads can reach, whatever the interleaving and
  however many threads wake up without a signal, if a thread sleeps in \<open>q_get\<close> while
  the queue holds \<open>k\<close> items, then at least \<open>k\<close> threads have been woken and will look at
  the queue; so an item never waits with every thread asleep.
\<close>

lemma no_lost_wakeup:
  assumes "qreach s" and "sleeping s \<noteq> {}"
  shows "length (q_list (que s)) \<le> card (woken s)"
  using wait_inv_reach [OF assms(1)] assms(2) by (simp add: wait_inv_def)

subsection \<open>Properties\<close>

text \<open>
  Claim C19. The ring buffer is a bounded first-in first-out queue: for every sequence of \<open>q_put\<close> and
  \<open>q_get\<close> on a fresh queue, the statuses and items it returns are those of a list of at
  most \<open>size\<close> elements, in particular every socket is delivered once and in order, and
  only a full queue refuses one.
\<close>

theorem queue_refines_fifo:
  assumes "0 < sz" and "length d = sz"
  shows "fst (run_fifo ring_put ring_get ops (snd (q_init sz (Some d)))) = fst (fifo_spec sz ops [])"
  using ring.run_refines [of "snd (q_init sz (Some d))" ops] q_init_inv [OF assms] by auto

theorem queue_refines_fifo_witness:
  "fst (run_fifo ring_put ring_get [Enq 5, Enq 6, Enq 7, Deq, Enq 8, Deq, Deq, Deq]
      (snd (q_init 2 (Some [0, 0])))) =
    fst (fifo_spec 2 [Enq 5, Enq 6, Enq 7, Deq, Enq 8, Deq, Deq, Deq] []) \<and>
   fst (fifo_spec 2 [Enq 5, Enq 6, Enq 7, Deq, Enq 8, Deq, Deq, Deq] [] :: int fifo_out list \<times> int list) =
    [Accepted, Accepted, Refused, Item 5, Accepted, Item 6, Item 8, Empty]"
  by (rule conjI, rule queue_refines_fifo) simp_all

end
