(* ===== verification/BufReader.thy ===== *)
theory BufReader
  imports Types
begin

section \<open>buffered_reader.c: buffered input from the client\<close>

text \<open>
  \<open>buffered_read_t\<close> and its operations. What the socket delivers is a list of events, one
  per \<open>poll\<close>/\<open>read\<close> pair: the time-out, a read error, or a run of bytes, of which one
  \<open>read\<close> takes at most the size of the buffer and leaves the rest; the end of the list is
  the end of the stream. The interface \<open>byte_source\<close> says what \<open>handle_requests\<close>,
  \<open>read_post_data\<close> and \<open>read_file\<close> rely on: the reader hands out the bytes of the
  stream in order, none lost and none twice.
\<close>

subsection \<open>The structure and its operations\<close>

datatype rd_event = Timeout | ReadErr | Data string

record buffered_read_t =
  rbuffer :: cmem
  rstart :: nat
  rend :: nat
  rsize :: nat

definition buffer_reset :: "buffered_read_t \<Rightarrow> buffered_read_t" where
  "buffer_reset b = b\<lparr>rend := 0, rstart := 0\<rparr>"

text \<open>\<open>buffer_init\<close>: the argument is the block \<open>malloc\<close> returned, or null.\<close>

definition buffer_init :: "nat \<Rightarrow> cmem option \<Rightarrow> int \<times> buffered_read_t" where
  "buffer_init sz block =
     (case block of
        None \<Rightarrow> (1, buffer_reset \<lparr>rbuffer = [], rstart = 0, rend = 0, rsize = sz\<rparr>)
      | Some m \<Rightarrow> (0, buffer_reset \<lparr>rbuffer = m, rstart = 0, rend = 0, rsize = sz\<rparr>))"

definition buffer_fill :: "rd_event list \<Rightarrow> buffered_read_t \<Rightarrow>
    int \<times> buffered_read_t \<times> rd_event list" where
  "buffer_fill evs b =
     (case evs of
        [] \<Rightarrow> (0, b\<lparr>rstart := 0, rend := 0\<rparr>, [])
      | Timeout # es \<Rightarrow> (0, b\<lparr>rstart := 0, rend := 0\<rparr>, es)
      | ReadErr # es \<Rightarrow> (-1, b\<lparr>rstart := 0, rend := 0\<rparr>, es)
      | Data d # es \<Rightarrow>
          (let r = take (rsize b) d; rest = drop (rsize b) d
           in (int (length r),
               b\<lparr>rbuffer := r @ drop (length r) (rbuffer b), rstart := 0, rend := length r\<rparr>,
               if rest = [] then es else Data rest # es)))"

fun input_size :: "rd_event list \<Rightarrow> nat" where
  "input_size [] = 0"
| "input_size (Data d # es) = Suc (length d) + input_size es"
| "input_size (_ # es) = Suc (input_size es)"

lemma buffer_fill_decreases:
  "buffer_fill evs b = (r, b', evs') \<Longrightarrow> 0 < r \<Longrightarrow> input_size evs' < input_size evs"
  by (cases evs rule: input_size.cases) (auto simp: buffer_fill_def Let_def split: if_splits)

function buffer_read_loop :: "rd_event list \<Rightarrow> buffered_read_t \<Rightarrow> nat \<Rightarrow> string \<Rightarrow>
    string \<times> buffered_read_t \<times> rd_event list" where
  "buffer_read_loop evs b count out =
     (if length out < count then
        let available = rend b - rstart b; needed = count - length out in
        if needed \<le> available
        then (out @ take needed (drop (rstart b) (rbuffer b)), b\<lparr>rstart := rstart b + needed\<rparr>, evs)
        else
          let out' = out @ take available (drop (rstart b) (rbuffer b)) in
          (case buffer_fill evs b of
             (r, b', evs') \<Rightarrow>
               if r \<le> 0 then (out', b', evs') else buffer_read_loop evs' b' count out')
      else (out, b, evs))"
  by pat_completeness auto
termination
  by (relation "measure (\<lambda>(evs, b, count, out). input_size evs)")
    (auto simp: not_le dest!: sym [of _ "buffer_fill _ _"] intro: buffer_fill_decreases)

declare buffer_read_loop.simps [simp del]

text \<open>\<open>buffer_read\<close> returns the bytes it stored; their number is the result of the C function.\<close>

definition buffer_read :: "buffered_read_t \<times> rd_event list \<Rightarrow> nat \<Rightarrow>
    string \<times> buffered_read_t \<times> rd_event list" where
  "buffer_read s count = buffer_read_loop (snd s) (fst s) count []"

definition buffer_strstr :: "rd_event list \<Rightarrow> buffered_read_t \<Rightarrow> string \<Rightarrow>
    (nat \<times> buffered_read_t \<times> rd_event list) option" where
  "buffer_strstr evs b needle =
     (let (b1, evs1) =
        (if rend b - rstart b = 0 then (case buffer_fill evs b of (_, b', evs') \<Rightarrow> (b', evs'))
         else (b, evs))
      in do {
        m \<leftarrow> c_poke (rbuffer b1) (rend b1) NUL;
        r \<leftarrow> c_strstr m (rstart b1) needle;
        Some (case r of None \<Rightarrow> rend b1 - rstart b1 | Some q \<Rightarrow> q - rstart b1,
              b1\<lparr>rbuffer := m\<rparr>, evs1)
      })"

subsection \<open>Invariant and the stream\<close>

definition reader_inv :: "buffered_read_t \<times> rd_event list \<Rightarrow> bool" where
  "reader_inv s \<longleftrightarrow> 0 < rsize (fst s) \<and> length (rbuffer (fst s)) = rsize (fst s) \<and>
     rstart (fst s) \<le> rend (fst s) \<and> rend (fst s) \<le> rsize (fst s)"

definition pending :: "buffered_read_t \<Rightarrow> string" where
  "pending b = take (rend b - rstart b) (drop (rstart b) (rbuffer b))"

text \<open>The bytes that arrive before the next time-out, error or end of stream.\<close>

fun arriving :: "rd_event list \<Rightarrow> string" where
  "arriving (Data d # es) = (if d = [] then [] else d @ arriving es)"
| "arriving _ = []"

definition stream :: "buffered_read_t \<times> rd_event list \<Rightarrow> string" where
  "stream s = pending (fst s) @ arriving (snd s)"

lemma length_pending: "reader_inv (b, evs) \<Longrightarrow> length (pending b) = rend b - rstart b"
  by (auto simp: pending_def reader_inv_def)

lemma buffer_fill_inv:
  "reader_inv (b, evs) \<Longrightarrow> buffer_fill evs b = (r, b', evs') \<Longrightarrow> reader_inv (b', evs')"
  by (auto simp: buffer_fill_def reader_inv_def Let_def split: list.splits rd_event.splits if_splits)

lemma buffer_fill_stop:
  "reader_inv (b, evs) \<Longrightarrow> buffer_fill evs b = (r, b', evs') \<Longrightarrow> r \<le> 0 \<Longrightarrow>
     arriving evs = [] \<and> pending b' = []"
  by (cases evs rule: arriving.cases)
    (auto simp: buffer_fill_def pending_def reader_inv_def Let_def min_def split: if_splits)

lemma buffer_fill_go:
  assumes "reader_inv (b, evs)" and "buffer_fill evs b = (r, b', evs')" and "0 < r"
  shows "pending b' @ arriving evs' = arriving evs"
proof -
  from assms(2,3) obtain d es where evs: "evs = Data d # es"
    by (auto simp: buffer_fill_def split: list.splits rd_event.splits)
  let ?r = "take (rsize b) d" and ?rest = "drop (rsize b) d"
  from assms evs have "pending b' = ?r" and "evs' = (if ?rest = [] then es else Data ?rest # es)"
    and "d \<noteq> []"
    by (auto simp: buffer_fill_def pending_def Let_def min_def)
  then show ?thesis using evs by (cases "?rest = []") (auto simp: append_take_drop_id [of "rsize b", symmetric])
qed

subsection \<open>The interface: a source of bytes\<close>

lemma buffer_read_loop_spec:
  assumes "reader_inv (b, evs)" and "length out \<le> count"
    and "buffer_read_loop evs b count out = (out', b', evs')"
  shows "reader_inv (b', evs') \<and> out' = out @ take (count - length out) (stream (b, evs)) \<and>
    (count - length out \<le> length (stream (b, evs)) \<longrightarrow>
       stream (b', evs') = drop (count - length out) (stream (b, evs)))"
  using assms
proof (induction evs b count out arbitrary: out' b' evs' rule: buffer_read_loop.induct)
  case (1 evs b count out)
  note inv = "1.prems"(1) and run = "1.prems"(3)
  let ?avail = "rend b - rstart b" and ?need = "count - length out"
  let ?out' = "out @ pending b"
  have len: "length (pending b) = ?avail" using inv by (rule length_pending)
  consider (filled) "length out = count" | (enough) "length out < count" "?need \<le> ?avail"
    | (more) "length out < count" "?avail < ?need"
    using "1.prems"(2) by linarith
  then show ?case
  proof cases
    case filled
    with inv run show ?thesis by (simp add: buffer_read_loop.simps [of evs b count out])
  next
    case enough
    with run have res: "out' = out @ take ?need (drop (rstart b) (rbuffer b))"
      "b' = b\<lparr>rstart := rstart b + ?need\<rparr>" "evs' = evs"
      by (auto simp: buffer_read_loop.simps [of evs b count out] Let_def)
    have "pending b' = drop ?need (pending b)" and "reader_inv (b', evs')"
      using enough inv res by (auto simp: pending_def reader_inv_def drop_take add.commute)
    with res enough len show ?thesis by (auto simp: stream_def pending_def min_def)
  next
    case more
    obtain r b1 evs1 where fill: "buffer_fill evs b = (r, b1, evs1)" by (metis prod_cases3)
    have inv1: "reader_inv (b1, evs1)" using inv fill by (rule buffer_fill_inv)
    show ?thesis
    proof (cases "r \<le> 0")
      case True
      with more run fill have "out' = ?out'" "b' = b1" "evs' = evs1"
        by (auto simp: buffer_read_loop.simps [of evs b count out] Let_def pending_def)
      with more len inv1 buffer_fill_stop [OF inv fill True] show ?thesis by (simp add: stream_def)
    next
      case False
      with more run fill have rec: "buffer_read_loop evs1 b1 count ?out' = (out', b', evs')"
        by (auto simp: buffer_read_loop.simps [of evs b count out] Let_def pending_def)
      have go: "stream (b1, evs1) = arriving evs"
        using buffer_fill_go [OF inv fill] False by (simp add: stream_def)
      have "length ?out' \<le> count" using more len by simp
      then have "reader_inv (b', evs') \<and> out' = ?out' @ take (count - length ?out') (stream (b1, evs1)) \<and>
          (count - length ?out' \<le> length (stream (b1, evs1)) \<longrightarrow>
             stream (b', evs') = drop (count - length ?out') (stream (b1, evs1)))"
        using "1.IH" [OF more(1) refl refl _ _ fill [symmetric] refl, of ?out'] more False inv1 rec
        by (simp add: not_le pending_def)
      then show ?thesis unfolding go using more len by (auto simp: stream_def)
    qed
  qed
qed

locale byte_source =
  fixes rd :: "'s \<Rightarrow> nat \<Rightarrow> string \<times> 's"
    and avail :: "'s \<Rightarrow> string"
    and ok :: "'s \<Rightarrow> bool"
  assumes rd_bytes: "ok s \<Longrightarrow> fst (rd s n) = take n (avail s)"
    and rd_rest: "ok s \<Longrightarrow> n \<le> length (avail s) \<Longrightarrow> avail (snd (rd s n)) = drop n (avail s)"
    and rd_ok: "ok s \<Longrightarrow> ok (snd (rd s n))"
begin

text \<open>Two reads deliver what one read of the sum delivers, and leave the same stream.\<close>

lemma rd_rd:
  assumes "ok s" and "n + m \<le> length (avail s)"
  shows "fst (rd s n) @ fst (rd (snd (rd s n)) m) = fst (rd s (n + m))"
    and "avail (snd (rd (snd (rd s n)) m)) = avail (snd (rd s (n + m)))"
proof -
  show "fst (rd s n) @ fst (rd (snd (rd s n)) m) = fst (rd s (n + m))"
    using assms by (simp add: rd_bytes rd_rest rd_ok take_add)
  show "avail (snd (rd (snd (rd s n)) m)) = avail (snd (rd s (n + m)))"
    using assms by (simp add: rd_rest rd_ok add.commute)
qed

end

interpretation reader: byte_source buffer_read stream reader_inv
proof unfold_locales
  fix s :: "buffered_read_t \<times> rd_event list" and n assume inv: "reader_inv s"
  obtain o1 b1 e1 where run: "buffer_read_loop (snd s) (fst s) n [] = (o1, b1, e1)"
    by (metis prod_cases3)
  note spec = buffer_read_loop_spec [of "fst s" "snd s" "[]" n, OF _ _ run]
  show "fst (buffer_read s n) = take n (stream s)"
    and "reader_inv (snd (buffer_read s n))"
    using inv spec run by (simp_all add: buffer_read_def)
  show "stream (snd (buffer_read s n)) = drop n (stream s)" if "n \<le> length (stream s)"
    using inv spec run that by (simp add: buffer_read_def)
qed

lemma buffer_init_inv: "0 < sz \<Longrightarrow> length m = sz \<Longrightarrow> reader_inv (snd (buffer_init sz (Some m)), evs)"
  by (simp add: buffer_init_def buffer_reset_def reader_inv_def)

subsection \<open>Properties\<close>

text \<open>
  Claim C20. The buffered reader delivers the stream: however the bytes arrive in runs, two
  successive reads return consecutive pieces of what is in the buffer and on its way,
  both complete when enough bytes come before a time-out, and the rest stays to be read.
\<close>

theorem buffer_read_in_order:
  assumes "reader_inv s" and "n + k \<le> length (stream s)"
    and "buffer_read s n = (x, s1)" and "buffer_read s1 k = (y, s2)"
  shows "x @ y = take (n + k) (stream s) \<and> length x = n \<and> length y = k \<and>
    stream s2 = drop (n + k) (stream s) \<and> reader_inv s2"
proof -
  have 1: "x = take n (stream s)" "stream s1 = drop n (stream s)" "reader_inv s1"
    using reader.rd_bytes [OF assms(1), of n] reader.rd_rest [OF assms(1), of n]
      reader.rd_ok [OF assms(1), of n] assms(2,3) by auto
  have 2: "y = take k (stream s1)" "stream s2 = drop k (stream s1)" "reader_inv s2"
    using reader.rd_bytes [OF 1(3), of k] reader.rd_rest [OF 1(3), of k]
      reader.rd_ok [OF 1(3), of k] assms(2,4) 1(2) by auto
  from 1 2 assms(2) show ?thesis by (auto simp: take_add [symmetric] add.commute)
qed

definition small_reader :: "buffered_read_t \<times> rd_event list" where
  "small_reader = (snd (buffer_init 2 (Some ''..'')), [Data ''abc'', Data ''de'', Timeout])"

theorem buffer_read_in_order_witness:
  "\<exists>x s1 y s2. buffer_read small_reader 3 = (x, s1) \<and> buffer_read s1 2 = (y, s2) \<and>
    x @ y = take (3 + 2) (stream small_reader) \<and> length x = 3 \<and> length y = 2 \<and>
    stream s2 = drop (3 + 2) (stream small_reader) \<and> reader_inv s2"
proof -
  obtain x s1 where 1: "buffer_read small_reader 3 = (x, s1)" by (metis surj_pair)
  obtain y s2 where 2: "buffer_read s1 2 = (y, s2)" by (metis surj_pair)
  have inv: "reader_inv small_reader" unfolding small_reader_def by (rule buffer_init_inv) simp_all
  have "3 + 2 \<le> length (stream small_reader)"
    by (simp add: small_reader_def stream_def pending_def buffer_init_def buffer_reset_def)
  from buffer_read_in_order [OF inv this 1 2] 1 2 show ?thesis by blast
qed



end
