(* ===== verification/World.thy ===== *)
theory World
  imports Types BufReader "HOL-Library.AList"
begin

section \<open>The platform: file system, descriptors and the client connection\<close>

text \<open>
  What weborf uses of POSIX, as executable functions on an explicit state. The file
  system is an association list from absolute paths (lists of names) to inodes; the order
  of the list is the order in which \<open>readdir\<close> answers. Path strings are resolved name by
  name, as the kernel does. There are no symbolic links and no permissions; instead every
  call that can fail in the field takes its outcome from the list \<open>faults\<close> (an empty list
  means that nothing more goes wrong), and every \<open>write\<close> takes the number of bytes that
  the kernel accepts from \<open>wr_results\<close>. A theorem for all values of these lists covers
  every pattern of failures; one with both lists empty is about a healthy system.

  The lemmas show that the operations preserve the well-formedness of the tree
  (\<open>fs_ok\<close>) and what each of them does to the other files.
\<close>

subsection \<open>File trees\<close>

type_synonym path = "string list"

record inode =
  i_stat :: stat
  i_data :: string

type_synonym fsys = "(path \<times> inode) list"

datatype errno =
  EACCES | EBUSY | EEXIST | EFAULT | EINVAL | EISDIR | ELOOP | ENAMETOOLONG | ENOENT | ENOMEM
| ENOSPC | ENOTDIR | ENOTEMPTY | EPERM | EROFS | EXDEV | EIO

definition is_dir :: "inode \<Rightarrow> bool" where
  "is_dir i \<longleftrightarrow> S_ISDIR (st_mode (i_stat i))"

definition lookup :: "fsys \<Rightarrow> path \<Rightarrow> inode option" where
  "lookup fs p = map_of fs p"

definition dir_at :: "fsys \<Rightarrow> path \<Rightarrow> bool" where
  "dir_at fs p = (case lookup fs p of None \<Rightarrow> False | Some i \<Rightarrow> is_dir i)"

definition child_of :: "path \<Rightarrow> path \<Rightarrow> bool" where
  "child_of p q \<longleftrightarrow> q \<noteq> [] \<and> butlast q = p"

definition children :: "fsys \<Rightarrow> path \<Rightarrow> string list" where
  "children fs p = map last (filter (child_of p) (map fst fs))"

text \<open>What \<open>stat\<close> reports: the size of a file is the number of its bytes.\<close>

definition stat_of :: "inode \<Rightarrow> stat" where
  "stat_of i = (if is_dir i then i_stat i else (i_stat i)\<lparr>st_size := int (length (i_data i))\<rparr>)"

text \<open>Path resolution: the names of a path string, walked from a starting directory.\<close>

fun split_slash :: "string \<Rightarrow> string list" where
  "split_slash [] = [[]]"
| "split_slash (c # s) =
     (if c = CHR ''/'' then [] # split_slash s
      else case split_slash s of [] \<Rightarrow> [[c]] | n # ns \<Rightarrow> (c # n) # ns)"

fun walk :: "fsys \<Rightarrow> path \<Rightarrow> string list \<Rightarrow> errno + path" where
  "walk fs p [] = Inr p"
| "walk fs p (n # ns) =
     (case lookup fs p of
        None \<Rightarrow> Inl ENOENT
      | Some i \<Rightarrow>
          if \<not> is_dir i then Inl ENOTDIR
          else walk fs (if n = '''' \<or> n = ''.'' then p
                        else if n = ''..'' then butlast p else p @ [n]) ns)"

definition resolve :: "fsys \<Rightarrow> path \<Rightarrow> string \<Rightarrow> errno + path" where
  "resolve fs wd s =
     (if s = '''' then Inl ENOENT
      else if hd s = CHR ''/'' then walk fs [] (split_slash s)
      else walk fs wd (split_slash s))"

definition strip_slashes :: "string \<Rightarrow> string" where
  "strip_slashes s =
     (let t = rev (dropWhile (\<lambda>c. c = CHR ''/'') (rev s)) in if t = '''' \<and> s \<noteq> '''' then ''/'' else t)"

subsection \<open>Operations on the tree\<close>

definition fs_mkdir :: "inode \<Rightarrow> path \<Rightarrow> fsys \<Rightarrow> errno + fsys" where
  "fs_mkdir i p fs =
     (if lookup fs p \<noteq> None then Inl EEXIST else Inr (AList.update p i fs))"

definition fs_unlink :: "path \<Rightarrow> fsys \<Rightarrow> errno + fsys" where
  "fs_unlink p fs =
     (case lookup fs p of
        None \<Rightarrow> Inl ENOENT
      | Some i \<Rightarrow> if is_dir i then Inl EISDIR else Inr (AList.delete p fs))"

definition fs_rmdir :: "path \<Rightarrow> fsys \<Rightarrow> errno + fsys" where
  "fs_rmdir p fs =
     (case lookup fs p of
        None \<Rightarrow> Inl ENOENT
      | Some i \<Rightarrow>
          if \<not> is_dir i then Inl ENOTDIR
          else if p = [] then Inl EBUSY
          else if children fs p \<noteq> [] then Inl ENOTEMPTY
          else Inr (AList.delete p fs))"

definition relocate :: "path \<Rightarrow> path \<Rightarrow> path \<Rightarrow> path" where
  "relocate p q r = (if take (length p) r = p then q @ drop (length p) r else r)"

definition fs_rename :: "path \<Rightarrow> path \<Rightarrow> fsys \<Rightarrow> errno + fsys" where
  "fs_rename p q fs =
     (case lookup fs p of
        None \<Rightarrow> Inl ENOENT
      | Some i \<Rightarrow>
          if p = q then Inr fs
          else if q = [] \<or> p = [] then Inl EBUSY
          else if take (length p) q = p then Inl EINVAL
          else if map_option (\<lambda>d. st_dev (i_stat d)) (lookup fs (butlast q))
                   \<noteq> Some (st_dev (i_stat i)) then Inl EXDEV
          else (case lookup fs q of
                  None \<Rightarrow> Inr (map (\<lambda>(r, j). (relocate p q r, j)) fs)
                | Some d \<Rightarrow>
                    if is_dir i \<and> \<not> is_dir d then Inl ENOTDIR
                    else if \<not> is_dir i \<and> is_dir d then Inl EISDIR
                    else if children fs q \<noteq> [] then Inl ENOTEMPTY
                    else Inr (map (\<lambda>(r, j). (relocate p q r, j)) (AList.delete q fs))))"

text \<open>\<open>overwrite old off s\<close>: the bytes of a file after writing \<open>s\<close> at an offset; a gap reads as zeros.\<close>

definition overwrite :: "string \<Rightarrow> nat \<Rightarrow> string \<Rightarrow> string" where
  "overwrite old off s =
     take off old @ replicate (off - length old) NUL @ s @ drop (off + length s) old"

definition truncated :: "string \<Rightarrow> nat \<Rightarrow> string" where
  "truncated old n = take n old @ replicate (n - length old) NUL"

definition fs_set_data :: "path \<Rightarrow> (string \<Rightarrow> string) \<Rightarrow> fsys \<Rightarrow> fsys" where
  "fs_set_data p f fs =
     (case lookup fs p of
        None \<Rightarrow> fs
      | Some i \<Rightarrow> AList.update p (i\<lparr>i_data := f (i_data i)\<rparr>) fs)"

subsection \<open>Well-formed trees\<close>

definition proper :: "string \<Rightarrow> bool" where
  "proper n \<longleftrightarrow> n \<noteq> [] \<and> n \<noteq> ''.'' \<and> n \<noteq> ''..'' \<and> CHR ''/'' \<notin> set n"

definition fs_ok :: "fsys \<Rightarrow> bool" where
  "fs_ok tr \<longleftrightarrow> distinct (map fst tr) \<and> dir_at tr [] \<and>
     (\<forall>p \<in> fst ` set tr. p \<noteq> [] \<longrightarrow> dir_at tr (butlast p) \<and> proper (last p))"

text \<open>An absolute path string without dot components, and the path that it names.\<close>

definition names_path :: "string \<Rightarrow> path \<Rightarrow> bool" where
  "names_path s p \<longleftrightarrow> s \<noteq> [] \<and> hd s = CHR ''/'' \<and> filter (\<lambda>n. n \<noteq> []) (split_slash s) = p \<and>
     list_all proper p"

subsection \<open>Lemmas: paths\<close>

lemma split_slash_not_Nil [simp]: "split_slash s \<noteq> []"
  by (induction s) (auto split: list.splits)

lemma split_slash_append: "split_slash (s @ CHR ''/'' # t) = split_slash s @ split_slash t"
  by (induction s) (auto split: list.splits)

lemma split_slash_plain: "CHR ''/'' \<notin> set n \<Longrightarrow> split_slash n = [n]"
  by (induction n) auto

lemma names_path_child:
  "names_path s p \<Longrightarrow> proper e \<Longrightarrow> names_path (s @ ''/'' @ e) (p @ [e])"
  by (auto simp: names_path_def split_slash_append split_slash_plain proper_def)

lemma dir_atD: "dir_at tr p \<Longrightarrow> p \<in> fst ` set tr"
  by (auto simp: dir_at_def lookup_def split: option.splits dest: map_of_SomeD intro: rev_image_eqI)

lemma lookup_iff: "lookup tr p = None \<longleftrightarrow> p \<notin> fst ` set tr"
  by (simp add: lookup_def map_of_eq_None_iff)

lemma fs_ok_prefix:
  assumes "fs_ok tr" and "p @ r \<in> fst ` set tr" and "r \<noteq> []"
  shows "dir_at tr p"
  using assms(2,3)
proof (induction r rule: rev_induct)
  case (snoc x r)
  then have d: "dir_at tr (p @ r)" using assms(1) by (force simp: fs_ok_def butlast_append)
  show ?case
  proof (cases "r = []")
    case False
    with snoc.IH dir_atD [OF d] show ?thesis by blast
  qed (use d in simp)
qed simp

lemma fs_ok_proper: "fs_ok tr \<Longrightarrow> p @ r \<in> fst ` set tr \<Longrightarrow> r \<noteq> [] \<Longrightarrow> proper (last r)"
  by (force simp: fs_ok_def)

lemma walk_names:
  assumes "\<And>k. k < length (filter (\<lambda>n. n \<noteq> []) ns) \<Longrightarrow> dir_at tr (p @ take k (filter (\<lambda>n. n \<noteq> []) ns))"
    and "ns \<noteq> [] \<Longrightarrow> last ns = [] \<Longrightarrow> dir_at tr (p @ filter (\<lambda>n. n \<noteq> []) ns)"
    and "list_all proper (filter (\<lambda>n. n \<noteq> []) ns)"
  shows "walk tr p ns = Inr (p @ filter (\<lambda>n. n \<noteq> []) ns)"
  using assms
proof (induction ns arbitrary: p)
  case (Cons n ns)
  have d: "dir_at tr p"
  proof (cases "filter (\<lambda>n. n \<noteq> []) (n # ns) = []")
    case True
    then have "last (n # ns) = []" by (metis (mono_tags, lifting) filter_empty_conv last_in_set list.distinct(1))
    with Cons.prems(2) True show ?thesis by simp
  next
    case False
    then show ?thesis using Cons.prems(1) [of 0] by simp
  qed
  show ?case
  proof (cases "n = []")
    case True
    have "walk tr p ns = Inr (p @ filter (\<lambda>n. n \<noteq> []) ns)"
      using Cons.prems True by (intro Cons.IH) auto
    with True d show ?thesis by (auto simp: dir_at_def split: option.splits)
  next
    case False
    have "walk tr (p @ [n]) ns = Inr ((p @ [n]) @ filter (\<lambda>n. n \<noteq> []) ns)"
    proof (rule Cons.IH)
      fix k assume "k < length (filter (\<lambda>n. n \<noteq> []) ns)"
      then show "dir_at tr ((p @ [n]) @ take k (filter (\<lambda>n. n \<noteq> []) ns))"
        using Cons.prems(1) [of "Suc k"] False by simp
    qed (use Cons.prems False in auto)
    moreover have "n \<noteq> ''.'' \<and> n \<noteq> ''..''" using Cons.prems(3) False by (simp add: proper_def)
    ultimately show ?thesis using False d by (auto simp: dir_at_def split: option.splits)
  qed
qed simp

lemma resolve_names:
  assumes "fs_ok tr" and "names_path s p" and "p \<in> fst ` set tr" and "last s = CHR ''/'' \<Longrightarrow> dir_at tr p"
  shows "resolve tr wd s = Inr p"
proof -
  have "walk tr [] (split_slash s) = Inr ([] @ filter (\<lambda>n. n \<noteq> []) (split_slash s))"
  proof (rule walk_names)
    fix k assume "k < length (filter (\<lambda>n. n \<noteq> []) (split_slash s))"
    then show "dir_at tr ([] @ take k (filter (\<lambda>n. n \<noteq> []) (split_slash s)))"
      using fs_ok_prefix [OF assms(1), of "take k p" "drop k p"] assms(2,3) by (simp add: names_path_def)
  next
    assume "last (split_slash s) = []"
    moreover have "s \<noteq> []" using assms(2) by (simp add: names_path_def)
    ultimately have "last s = CHR ''/''"
    proof (induction s)
      case (Cons c s)
      then show ?case by (cases "s = []") (auto split: if_splits list.splits)
    qed simp
    with assms(2,4) show "dir_at tr ([] @ filter (\<lambda>n. n \<noteq> []) (split_slash s))" by (simp add: names_path_def)
  qed (use assms(2) in \<open>simp add: names_path_def\<close>)
  then show ?thesis using assms(2) by (simp add: resolve_def names_path_def)
qed

lemma set_children: "e \<in> set (children tr p) \<longleftrightarrow> p @ [e] \<in> fst ` set tr"
proof
  assume "e \<in> set (children tr p)"
  then obtain q where "q \<in> fst ` set tr" "q \<noteq> []" "butlast q = p" "last q = e"
    by (auto simp: children_def child_of_def)
  then show "p @ [e] \<in> fst ` set tr" by (metis append_butlast_last_id)
next
  assume "p @ [e] \<in> fst ` set tr"
  then show "e \<in> set (children tr p)"
    by (auto simp: children_def child_of_def intro!: rev_image_eqI [of "p @ [e]"])
qed

lemma distinct_children: "distinct (map fst tr) \<Longrightarrow> distinct (children tr p)"
proof -
  assume "distinct (map fst tr)"
  then have "distinct (filter (child_of p) (map fst tr))" by (rule distinct_filter)
  moreover have "inj_on last (set (filter (child_of p) (map fst tr)))"
    by (auto simp: inj_on_def child_of_def) (metis append_butlast_last_id)
  ultimately show ?thesis unfolding children_def by (simp add: distinct_map)
qed

definition without :: "path \<Rightarrow> fsys \<Rightarrow> fsys" where
  "without p tr = filter (\<lambda>(q, _). take (length p) q \<noteq> p) tr"

definition path_size :: "path \<Rightarrow> nat" where
  "path_size r = sum_list (map (\<lambda>n. Suc (length n)) r)"

lemma without_keys: "fst ` set (without p tr) = {q \<in> fst ` set tr. take (length p) q \<noteq> p}"
  by (force simp: without_def)

lemma map_of_filter_key: "map_of (filter (\<lambda>(q, _). P q) tr) q = (if P q then map_of tr q else None)"
  by (induction tr) auto

lemma lookup_without: "lookup (without p tr) q = (if take (length p) q \<noteq> p then lookup tr q else None)"
  unfolding lookup_def without_def by (rule map_of_filter_key)

lemma dir_at_without: "dir_at (without p tr) q \<longleftrightarrow> take (length p) q \<noteq> p \<and> dir_at tr q"
  by (simp add: dir_at_def lookup_without)

lemma fs_ok_without [inv_intros]:
  assumes "fs_ok tr" and "p \<noteq> []"
  shows "fs_ok (without p tr)"
proof -
  have "distinct (map fst (without p tr))"
    using assms(1) unfolding without_def fs_ok_def by (meson distinct_map_filter)
  moreover have "take (length p) (butlast q) \<noteq> p" if "take (length p) q \<noteq> p" for q
    using that by (metis length_take min.absorb2 nat_le_linear take_all take_butlast butlast_conv_take take_take length_butlast)
  ultimately show ?thesis using assms unfolding fs_ok_def without_keys dir_at_without by auto
qed

lemma delete_filter: "AList.delete p tr = filter (\<lambda>(q, _). q \<noteq> p) tr"
  unfolding AList.delete_eq by (rule filter_cong) auto

lemma fold_without:
  "fold (\<lambda>e. without (p @ [e])) es tr =
     filter (\<lambda>(q, _). \<forall>e \<in> set es. take (Suc (length p)) q \<noteq> p @ [e]) tr"
  by (induction es arbitrary: tr) (auto simp: without_def intro!: filter_cong)

lemma take_child: "take (length p) q = p \<Longrightarrow> q \<noteq> p \<Longrightarrow> \<exists>e r. q = p @ e # r"
  by (metis append_Nil2 append_take_drop_id list.exhaust)

lemma delete_file_without:
  assumes "fs_ok tr" and "\<not> dir_at tr p"
  shows "AList.delete p tr = without p tr"
  unfolding delete_filter without_def
proof (rule filter_cong [OF refl], clarify)
  fix q i assume "(q, i) \<in> set tr"
  then show "(q \<noteq> p) = (take (length p) q \<noteq> p)"
    using fs_ok_prefix [OF assms(1), of p] assms(2) take_child [of p q]
    by (metis (no_types, lifting) fst_conv image_eqI list.distinct(1) order_refl take_all)
qed

lemma delete_emptied_without:
  assumes "fs_ok tr"
  shows "AList.delete p (fold (\<lambda>e. without (p @ [e])) (children tr p) tr) = without p tr"
  unfolding delete_filter without_def fold_without filter_filter
proof (rule filter_cong [OF refl], unfold split_paired_all)
  fix q i assume qi: "(q, i) \<in> set tr"
  have "\<exists>e \<in> set (children tr p). take (Suc (length p)) q = p @ [e]"
    if "take (length p) q = p" and "q \<noteq> p"
  proof -
    from take_child [OF that] obtain e r where q: "q = p @ e # r" by blast
    have "p @ [e] \<in> fst ` set tr"
    proof (cases "r = []")
      case True
      with qi q show ?thesis by force
    next
      case False
      have "(p @ [e]) @ r \<in> fst ` set tr" using qi q by force
      then show ?thesis using fs_ok_prefix [OF assms] False dir_atD by blast
    qed
    with q show ?thesis by (auto simp: set_children)
  qed
  then have "(\<forall>e\<in>set (children tr p). take (Suc (length p)) q \<noteq> p @ [e]) \<and> q \<noteq> p \<longleftrightarrow>
      take (length p) q \<noteq> p"
    by (auto dest: arg_cong [where f = "take (length p)"])
  then show "(case (q, i) of (q, _) \<Rightarrow> \<forall>e\<in>set (children tr p). take (Suc (length p)) q \<noteq> p @ [e]) \<and>
      (case (q, i) of (q, _) \<Rightarrow> q \<noteq> p) \<longleftrightarrow> (case (q, i) of (q, _) \<Rightarrow> take (length p) q \<noteq> p)"
    by simp
qed

subsection \<open>The state\<close>

datatype fd_t = Client | Fd int

record open_file =
  o_path :: path
  o_pos :: nat

record world =
  fs :: fsys
  cwd :: path
  now :: int
  next_ino :: int
  env :: "(string \<times> string) list"
  fds :: "(int \<times> open_file) list"
  reader :: buffered_read_t
  input :: "rd_event list"
  sent :: string
  wr_results :: "int list"
  faults :: "errno option list"

text \<open>The outcome of the next call that can fail.\<close>

definition next_fault :: "world \<Rightarrow> errno option \<times> world" where
  "next_fault w = (case faults w of [] \<Rightarrow> (None, w) | f # rest \<Rightarrow> (f, w\<lparr>faults := rest\<rparr>))"

definition malloc :: "world \<Rightarrow> bool \<times> world" where
  "malloc w = (case next_fault w of (f, w') \<Rightarrow> (f = None, w'))"

text \<open>A system call on the file tree: \<open>Inl\<close> is the result \<open>-1\<close> with its \<open>errno\<close>.\<close>

definition on_path :: "string \<Rightarrow> (path \<Rightarrow> world \<Rightarrow> (errno + 'a) \<times> world) \<Rightarrow> world \<Rightarrow>
    (errno + 'a) \<times> world" where
  "on_path s f w =
     (case next_fault w of
        (Some e, w') \<Rightarrow> (Inl e, w')
      | (None, w') \<Rightarrow> (case resolve (fs w') (cwd w') s of Inl e \<Rightarrow> (Inl e, w') | Inr p \<Rightarrow> f p w'))"

definition with_fs :: "(errno + fsys) \<Rightarrow> world \<Rightarrow> (errno + unit) \<times> world" where
  "with_fs r w = (case r of Inl e \<Rightarrow> (Inl e, w) | Inr t \<Rightarrow> (Inr (), w\<lparr>fs := t\<rparr>))"

definition sys_stat :: "string \<Rightarrow> world \<Rightarrow> (errno + stat) \<times> world" where
  "sys_stat s =
     on_path s (\<lambda>p w. (case lookup (fs w) p of None \<Rightarrow> Inl ENOENT | Some i \<Rightarrow> Inr (stat_of i), w))"

text \<open>\<open>access(path, R_OK)\<close>.\<close>

definition sys_access :: "string \<Rightarrow> world \<Rightarrow> bool \<times> world" where
  "sys_access s w =
     (case sys_stat s w of (Inl _, w') \<Rightarrow> (False, w') | (Inr _, w') \<Rightarrow> (True, w'))"

definition new_inode :: "32 word \<Rightarrow> path \<Rightarrow> world \<Rightarrow> inode" where
  "new_inode md p w =
     \<lparr>i_stat = \<lparr>st_mode = md, st_size = 0, st_mtime = now w, st_ino = next_ino w,
        st_dev = (case lookup (fs w) (butlast p) of None \<Rightarrow> 0 | Some d \<Rightarrow> st_dev (i_stat d))\<rparr>,
      i_data = []\<rparr>"

definition sys_mkdir :: "string \<Rightarrow> world \<Rightarrow> (errno + unit) \<times> world" where
  "sys_mkdir s =
     on_path (strip_slashes s)
       (\<lambda>p w. with_fs (fs_mkdir (new_inode (S_IFDIR OR 0x1FF) p w) p (fs w))
                (w\<lparr>next_ino := next_ino w + 1\<rparr>))"

definition sys_unlink :: "string \<Rightarrow> world \<Rightarrow> (errno + unit) \<times> world" where
  "sys_unlink s = on_path s (\<lambda>p w. with_fs (fs_unlink p (fs w)) w)"

definition sys_rmdir :: "string \<Rightarrow> world \<Rightarrow> (errno + unit) \<times> world" where
  "sys_rmdir s = on_path s (\<lambda>p w. with_fs (fs_rmdir p (fs w)) w)"

text \<open>A trailing slash on the new name is accepted when a directory is renamed.\<close>

definition sys_rename :: "string \<Rightarrow> string \<Rightarrow> world \<Rightarrow> (errno + unit) \<times> world" where
  "sys_rename s d =
     on_path s (\<lambda>p w.
       case resolve (fs w) (cwd w) (if dir_at (fs w) p then strip_slashes d else d) of
         Inl e \<Rightarrow> (Inl e, w)
       | Inr q \<Rightarrow> with_fs (fs_rename p q (fs w)) w)"

text \<open>\<open>opendir\<close> with the names that \<open>readdir\<close> then returns.\<close>

definition sys_opendir :: "string \<Rightarrow> world \<Rightarrow> (errno + string list) \<times> world" where
  "sys_opendir s =
     on_path s (\<lambda>p w.
       (case lookup (fs w) p of
          None \<Rightarrow> Inl ENOENT
        | Some i \<Rightarrow> if is_dir i then Inr (''.'' # ''..'' # children (fs w) p) else Inl ENOTDIR, w))"

definition new_fd :: "world \<Rightarrow> int" where
  "new_fd w = foldr (\<lambda>(d, _) m. max (d + 1) m) (fds w) 3"

definition add_fd :: "path \<Rightarrow> world \<Rightarrow> (errno + int) \<times> world" where
  "add_fd p w = (Inr (new_fd w), w\<lparr>fds := (new_fd w, \<lparr>o_path = p, o_pos = 0\<rparr>) # fds w\<rparr>)"

definition sys_open_read :: "string \<Rightarrow> world \<Rightarrow> (errno + int) \<times> world" where
  "sys_open_read s =
     on_path s (\<lambda>p w. if lookup (fs w) p = None then (Inl ENOENT, w) else add_fd p w)"

text \<open>\<open>open\<close> for writing with \<open>O_CREAT\<close>, without \<open>O_TRUNC\<close>.\<close>

definition sys_open_creat :: "string \<Rightarrow> world \<Rightarrow> (errno + int) \<times> world" where
  "sys_open_creat s =
     on_path s (\<lambda>p w.
       case lookup (fs w) p of
         Some i \<Rightarrow> if is_dir i then (Inl EISDIR, w) else add_fd p w
       | None \<Rightarrow>
           add_fd p (w\<lparr>fs := AList.update p (new_inode (S_IFREG OR 0x180) p w) (fs w),
                       next_ino := next_ino w + 1\<rparr>))"

definition sys_close :: "int \<Rightarrow> world \<Rightarrow> world" where
  "sys_close d w = w\<lparr>fds := AList.delete d (fds w)\<rparr>"

definition fd_inode :: "int \<Rightarrow> world \<Rightarrow> inode option" where
  "fd_inode d w = Option.bind (map_of (fds w) d) (\<lambda>f. lookup (fs w) (o_path f))"

definition sys_fstat :: "int \<Rightarrow> world \<Rightarrow> stat option" where
  "sys_fstat d w = map_option stat_of (fd_inode d w)"

definition sys_lseek :: "int \<Rightarrow> nat \<Rightarrow> world \<Rightarrow> world" where
  "sys_lseek d pos w =
     (case map_of (fds w) d of
        None \<Rightarrow> w
      | Some f \<Rightarrow> w\<lparr>fds := AList.update d (f\<lparr>o_pos := pos\<rparr>) (fds w)\<rparr>)"

definition sys_ftruncate :: "int \<Rightarrow> int \<Rightarrow> world \<Rightarrow> (errno + unit) \<times> world" where
  "sys_ftruncate d n w =
     (case next_fault w of
        (Some e, w') \<Rightarrow> (Inl e, w')
      | (None, w') \<Rightarrow>
          if n < 0 then (Inl EINVAL, w')
          else (case map_of (fds w') d of
                  None \<Rightarrow> (Inl EINVAL, w')
                | Some f \<Rightarrow>
                    (Inr (), w'\<lparr>fs := fs_set_data (o_path f) (\<lambda>s. truncated s (nat n)) (fs w')\<rparr>)))"

text \<open>\<open>read\<close> on a file: what is left, at most the size asked for.\<close>

definition sys_read :: "int \<Rightarrow> nat \<Rightarrow> world \<Rightarrow> string option \<times> world" where
  "sys_read d n w =
     (case next_fault w of
        (Some _, w') \<Rightarrow> (None, w')
      | (None, w') \<Rightarrow>
          (case (map_of (fds w') d, fd_inode d w') of
             (Some f, Some i) \<Rightarrow>
               if is_dir i then (None, w')
               else (let s = take n (drop (o_pos f) (i_data i))
                     in (Some s, sys_lseek d (o_pos f + length s) w'))
           | _ \<Rightarrow> (None, w')))"

text \<open>
  \<open>write\<close>: the next entry of \<open>wr_results\<close> is what the kernel accepts at most, a negative
  entry is a failure. The bytes go to the client or into the file.
\<close>

definition next_write :: "nat \<Rightarrow> world \<Rightarrow> int \<times> world" where
  "next_write n w =
     (case wr_results w of
        [] \<Rightarrow> (int n, w)
      | r # rs \<Rightarrow> (if r < 0 then -1 else min r (int n), w\<lparr>wr_results := rs\<rparr>))"

definition sys_write :: "int \<Rightarrow> string \<Rightarrow> world \<Rightarrow> int \<times> world" where
  "sys_write d s w =
     (case next_write (length s) w of
        (r, w') \<Rightarrow>
          if r < 0 then (-1, w')
          else (case map_of (fds w') d of
                  None \<Rightarrow> (-1, w')
                | Some f \<Rightarrow>
                    (r, sys_lseek d (o_pos f + nat r)
                      (w'\<lparr>fs := fs_set_data (o_path f) (\<lambda>old. overwrite old (o_pos f) (take (nat r) s))
                                 (fs w')\<rparr>))))"

definition client_write :: "string \<Rightarrow> world \<Rightarrow> int \<times> world" where
  "client_write s w =
     (case next_write (length s) w of
        (r, w') \<Rightarrow> (r, if r < 0 then w' else w'\<lparr>sent := sent w' @ take (nat r) s\<rparr>))"

text \<open>\<open>buffer_read\<close> on the client socket.\<close>

definition client_read :: "nat \<Rightarrow> world \<Rightarrow> string \<times> world" where
  "client_read n w =
     (case buffer_read (reader w, input w) n of
        (s, b, evs) \<Rightarrow> (s, w\<lparr>reader := b, input := evs\<rparr>))"

subsection \<open>A healthy system\<close>

definition healthy :: "world \<Rightarrow> bool" where
  "healthy w \<longleftrightarrow> faults w = [] \<and> wr_results w = []"

lemma healthy_simps [mem_simps]:
  "healthy w \<Longrightarrow> next_fault w = (None, w)"
  "healthy w \<Longrightarrow> malloc w = (True, w)"
  "healthy w \<Longrightarrow> next_write n w = (int n, w)"
  "healthy w \<Longrightarrow> client_write s w = (int (length s), w\<lparr>sent := sent w @ s\<rparr>)"
  by (simp_all add: healthy_def next_fault_def malloc_def next_write_def client_write_def)

lemma healthy_upd [simp]:
  "healthy (w\<lparr>fs := a\<rparr>) = healthy w"
  "healthy (w\<lparr>sent := b\<rparr>) = healthy w"
  "healthy (w\<lparr>fds := c\<rparr>) = healthy w"
  "healthy (w\<lparr>reader := d\<rparr>) = healthy w"
  "healthy (w\<lparr>input := e\<rparr>) = healthy w"
  "healthy (w\<lparr>next_ino := n\<rparr>) = healthy w"
  by (simp_all add: healthy_def)

subsection \<open>A small system for the examples\<close>

definition a_dir :: inode where
  "a_dir = \<lparr>i_stat = \<lparr>st_mode = S_IFDIR OR 0x1FF, st_size = 4096, st_mtime = 1000, st_ino = 2, st_dev = 1\<rparr>,
     i_data = []\<rparr>"

definition a_file :: "string \<Rightarrow> inode" where
  "a_file s = \<lparr>i_stat = \<lparr>st_mode = S_IFREG OR 0x180, st_size = 0, st_mtime = 1000, st_ino = 7, st_dev = 1\<rparr>,
     i_data = s\<rparr>"

definition small_world :: world where
  "small_world =
     \<lparr>fs = [([], a_dir), ([''srv''], a_dir), ([''srv'', ''a.txt''], a_file ''hello world''),
            ([''srv'', ''d''], a_dir), ([''srv'', ''d'', ''b''], a_file ''bee'')],
      cwd = [], now = 2000, next_ino = 100, env = [],
      fds = [(3, \<lparr>o_path = [''srv'', ''a.txt''], o_pos = 0\<rparr>)],
      reader = \<lparr>rbuffer = replicate 8 NUL, rstart = 0, rend = 0, rsize = 8\<rparr>, input = [],
      sent = [], wr_results = [], faults = []\<rparr>"

definition small_connection :: connection_t where
  "small_connection =
     \<lparr>buf = ''GET'' @ [NUL] @ ''/a.txt'' @ [NUL] @ ''HTTP/1.1'' @ CRLF @ [NUL], ip_addr = ''::1'',
      keep_alive = True, protocol_version = HTTP_1_1, method_id = GET, req_method = 0,
      http_param = 11, page = 4, page_len = 6, get_params = None,
      strfile = ''/srv/a.txt'' @ [NUL], strfile_len = 10,
      strfile_stat = stat_of (a_file ''hello world''), strfile_fd = 3, basedir = ''/srv'',
      status_code = 0\<rparr>"

text \<open>The same request with one more header line, and a configuration.\<close>

definition asking :: "string \<Rightarrow> connection_t" where
  "asking line = small_connection
     \<lparr>buf := ''GET'' @ [NUL] @ ''/a.txt'' @ [NUL] @ ''HTTP/1.1'' @ CRLF @ line @ CRLF @ [NUL]\<rparr>"

definition small_conf :: weborf_configuration_t where
  "small_conf =
     \<lparr>conf_basedir = ''/srv'', authsock = None, conf_uid = 0, conf_gid = 0, send_content_type = True,
      is_inetd = False, cgi_paths = [''.php'', ''/usr/lib/cgi-bin/php'', ''.py'', ''''], virtual_host = False,
      exec_script = False, tar_directory = False, conf_daemonize = False, conf_ip = None,
      conf_port = ''8080'', indexes = [''index.html'']\<rparr>"

lemma small_healthy [simp]: "healthy small_world"
  by (simp add: healthy_def small_world_def)

end
