(* ===== verification/Http.thy ===== *)
theory Http
  imports World Utils
begin

section \<open>Responses: instance.c, the part that writes headers and errors\<close>

text \<open>
  \<open>reason_phrase\<close>, \<open>send_http_header\<close>, \<open>send_err\<close>, \<open>request_auth\<close>, \<open>send_error_header\<close>,
  \<open>options\<close> and \<open>check_etag\<close>. A function of the source that writes to the client takes the
  connection and the world and returns its status with both updated, or \<open>None\<close> when a
  buffer is accessed out of bounds. The specification is the client's side: \<open>read_head\<close>
  splits a byte stream into header lines, and \<open>parse_response\<close> reads one complete message
  from it by its Content-Length.
\<close>

subsection \<open>Texts of options.h and configure.ac\<close>

definition SIGNATURE :: string where "SIGNATURE = ''weborf/1.0 (GNU/Linux)''"

definition QUOTE :: string where "QUOTE = [CHR 0x22]"

definition HTMLHEAD :: string where
  "HTMLHEAD =
     ''<!DOCTYPE HTML PUBLIC '' @ QUOTE @ ''-//W3C//DTD HTML 4.01 Transitional//EN'' @ QUOTE @ ''>'' @ [LF] @
     ''<html><head><meta http-equiv='' @ QUOTE @ ''Content-Type'' @ QUOTE @ '' content='' @ QUOTE @
     ''text/html; charset=UTF-8'' @ QUOTE @ '' />'' @
     ''<title>weborf</title>'' @
     ''<style type='' @ QUOTE @ ''text/css'' @ QUOTE @
     ''>a, a:active {text-decoration: none; color: blue;}a:visited {color: #48468F;}'' @
     ''a:hover, a:focus {text-decoration: underline; color: red;}body {background-color: #F5F5F5;}'' @
     ''h2 {margin-bottom: 12px;}table {margin-left: 12px;}th, td { font: 90% monospace; text-align: left;}'' @
     ''th { font-weight: bold; padding-right: 14px; padding-bottom: 3px;}td {padding-right: 14px;}'' @
     ''td.s, th.s {text-align: right;}div.list { background-color: white; border-top: 1px solid #646464;'' @
     ''border-bottom: 1px solid #646464; padding-top: 10px; padding-bottom: 14px;}'' @
     ''div.foot { font: 80% sans-serif; color: #787878; padding-top: 4px;}</style>'' @
     ''</head><body><h4>weborf</h4><div class='' @ QUOTE @ ''list'' @ QUOTE @ ''>''"

definition HTMLFOOT :: string where
  "HTMLFOOT = ''</div><div class='' @ QUOTE @ ''foot'' @ QUOTE @ ''>'' @ SIGNATURE @ ''</div></body></html>''"

subsection \<open>Buffers and writes\<close>

text \<open>
  The bytes of a buffer of \<open>sz\<close> bytes that \<open>snprintf\<close> initialises, and reading \<open>n\<close> bytes
  of initialised memory.
\<close>

definition snprintf_image :: "nat \<Rightarrow> string \<Rightarrow> string" where
  "snprintf_image sz s = take (sz - 1) s @ [NUL]"

definition read_image :: "string \<Rightarrow> nat \<Rightarrow> string option" where
  "read_image img n = (if n \<le> length img then Some (take n img) else None)"

text \<open>
  One block of \<open>HEADBUF + MAXSCRIPTOUT\<close> bytes, the header printed at its start and the page
  at \<open>HEADBUF\<close>: what the two writes of \<open>head_len\<close> and \<open>page_len\<close> bytes send. A header that
  fills its part runs on into the page.
\<close>

definition head_bytes :: "string \<Rightarrow> string \<Rightarrow> string option" where
  "head_bytes head pg =
     (if length head < HEADBUF then Some head
      else read_image (snprintf_image HEADBUF head @ snprintf_image MAXSCRIPTOUT pg) (length head))"

definition page_bytes :: "string \<Rightarrow> string option" where
  "page_bytes pg = read_image (snprintf_image MAXSCRIPTOUT pg) (length pg)"

definition send_two :: "string \<Rightarrow> string \<Rightarrow> world \<Rightarrow> (int \<times> world) option" where
  "send_two head pg w = do {
     h \<leftarrow> head_bytes head pg;
     let (r, w1) = client_write h w;
     if r \<noteq> int (length head) then Some (ERR_SOCKWRITE, w1)
     else do {
       p \<leftarrow> page_bytes pg;
       let (r2, w2) = client_write p w1;
       if r2 \<noteq> int (length pg) then Some (ERR_SOCKWRITE, w2) else Some (0, w2)
     }
   }"

subsection \<open>Headers\<close>

definition c_div :: "int \<Rightarrow> int \<Rightarrow> int" where
  "c_div a b = sgn a * sgn b * (\<bar>a\<bar> div \<bar>b\<bar>)"

definition reason_phrase :: "int \<Rightarrow> string" where
  "reason_phrase code =
     (let k = c_div code 100 in
      if k = 2 then ''OK''
      else if k = 3 then ''Found''
      else if k = 4 then ''Request error''
      else if k = 5 then ''Server error''
      else if k = 1 then ''Received''
      else ''Something is very wrong'')"

definition connection_header :: "connection_t \<Rightarrow> string" where
  "connection_header c =
     (if protocol_version c \<noteq> HTTP_1_1 \<and> keep_alive c then ''Connection: Keep-Alive'' @ CRLF
      else if protocol_version c = HTTP_1_1 \<and> \<not> keep_alive c then ''Connection: close'' @ CRLF
      else '''')"

text \<open>The conversion \<open>(int)timestamp\<close> of a 64-bit value.\<close>

definition to_int32 :: "int \<Rightarrow> int" where
  "to_int32 t = (t + 2147483648) mod 4294967296 - 2147483648"

definition send_http_header :: "int \<Rightarrow> 64 word option \<Rightarrow> string option \<Rightarrow> bool \<Rightarrow> int \<Rightarrow>
    connection_t \<Rightarrow> world \<Rightarrow> (int \<times> connection_t \<times> world) option" where
  "send_http_header code sz headers content timestamp c w =
     (let (ok, w1) = malloc w;
          c1 = c\<lparr>status_code := code\<rparr>;
          hs = (case headers of None \<Rightarrow> '''' | Some h \<Rightarrow> h)
      in if \<not> ok then Some (ERR_NOMEM, c1, w1)
         else do {
           st1 \<leftarrow> put_text ([], int HEADBUF)
             (''HTTP/1.1 '' @ show_int code @ '' '' @ reason_phrase code @ CRLF @
              ''Server: '' @ SIGNATURE @ CRLF @ connection_header c1);
           st2 \<leftarrow> (if timestamp \<noteq> -1
             then put_text st1 (''ETag: '' @ QUOTE @ show_int (to_int32 timestamp) @ QUOTE @ CRLF)
             else Some st1);
           st3 \<leftarrow> (case sz of
               None \<Rightarrow> Some st2
             | Some n \<Rightarrow>
                 if keep_alive c1
                 then put_text st2 ((if content then ''Content-Length: '' else ''entity-length: '') @
                        show_nat (unat n) @ CRLF)
                 else Some st2);
           (out, left) \<leftarrow> put_text st3 (hs @ CRLF);
           let n = int HEADBUF - left;
           bytes \<leftarrow> read_image out (nat n);
           let (r, w2) = client_write bytes w1;
           Some (if r \<noteq> n then ERR_BRKPIPE else 0, c1, w2)
         })"

subsection \<open>Error pages\<close>

definition send_err :: "connection_t \<Rightarrow> int \<Rightarrow> string \<Rightarrow> world \<Rightarrow>
    (int \<times> connection_t \<times> world) option" where
  "send_err c err descr w =
     (let c1 = c\<lparr>status_code := err\<rparr>; (ok, w1) = malloc w in
      if \<not> ok then Some (ERR_NOMEM, c1, w1)
      else do {
        let pg = HTMLHEAD @ '' <H1>Error '' @ show_int err @ ''</H1>'' @ descr @ '' '' @ HTMLFOOT;
        let head = ''HTTP/1.1 '' @ show_int err @ '' '' @ descr @ CRLF @ ''Server: '' @ SIGNATURE @ CRLF @
              ''Content-Length: '' @ show_nat (length pg) @ CRLF @
              ''Content-Type: text/html'' @ CRLF @ CRLF;
        (r, w2) \<leftarrow> send_two head pg w1;
        Some (r, c1, w2)
      })"

definition request_auth :: "connection_t \<Rightarrow> world \<Rightarrow> (int \<times> connection_t \<times> world) option" where
  "request_auth c w = do {
     descr \<leftarrow> cstr (buf c) (page c);
     let c1 = c\<lparr>status_code := 401\<rparr>;
     let (ok, w1) = malloc w;
     if \<not> ok then Some (ERR_NOMEM, c1, w1)
     else do {
       let pg = HTMLHEAD @ ''<H1>Authorization required</H1><p>'' @ descr @ ''</p>'' @ HTMLFOOT;
       let head = ''HTTP/1.1 401 Authorization Required'' @ CRLF @ ''Server: '' @ SIGNATURE @ CRLF @
             ''Content-Length: '' @ show_nat (length pg) @ CRLF @
             ''WWW-Authenticate: Basic realm='' @ QUOTE @ descr @ QUOTE @ CRLF @ CRLF;
       (r, w2) \<leftarrow> send_two head pg w1;
       Some (r, c1, w2)
     }
   }"

definition send_error_header :: "int \<Rightarrow> connection_t \<Rightarrow> world \<Rightarrow>
    (int \<times> connection_t \<times> world) option" where
  "send_error_header retval c w =
     (if retval = 0 then Some (0, c, w)
      else if retval = ERR_BRKPIPE then send_err c 500 ''Internal server error'' w
      else if retval = ERR_FILENOTFOUND then send_err c 404 ''Page not found'' w
      else if retval = ERR_SERVICE_UNAVAILABLE \<or> retval = ERR_NOMEM
        then send_err c 503 ''Service Unavailable'' w
      else if retval = ERR_RANGE_NOT_SATISFIABLE then send_err c 416 ''Range not satisfiable'' w
      else if retval = ERR_NODATA \<or> retval = ERR_NOTHTTP then send_err c 400 ''Bad request'' w
      else if retval = ERR_FORBIDDEN then send_err c 403 ''Forbidden'' w
      else if retval = ERR_NOTIMPLEMENTED then send_err c 501 ''Not implemented'' w
      else if retval = ERR_PRECONDITION_FAILED then send_err c 412 ''Precondition Failed'' w
      else if retval = ERR_CONFLICT then send_err c 409 ''Conflict'' w
      else if retval = ERR_INSUFFICIENT_STORAGE then send_err c 507 ''Insufficient Storage'' w
      else if retval = ERR_NOT_ALLOWED then send_err c 405 ''Method Not Allowed'' w
      else if retval = ERR_NOAUTH then request_auth c w
      else if retval = OK_NOCONTENT then send_http_header 204 None None True (-1) c w
      else if retval = OK_CREATED then send_http_header 201 None None True (-1) c w
      else Some (0, c, w))"

definition ALLOWED :: string where
  "ALLOWED =
     ''Allow: GET,POST,PUT,DELETE,OPTIONS,PROPFIND,MKCOL,COPY,MOVE'' @ CRLF @ ''DAV: 1,2'' @ CRLF @
     ''DAV: <http://apache.org/dav/propset/fs/1>'' @ CRLF @ ''MS-Author-Via: DAV'' @ CRLF"

definition options :: "connection_t \<Rightarrow> world \<Rightarrow> (int \<times> connection_t \<times> world) option" where
  "options c w = do {
     (_, c1, w1) \<leftarrow> send_http_header 200 None (Some ALLOWED) True (-1) c w;
     Some (0, c1, w1)
   }"

text \<open>
  \<open>check_etag\<close>: the value is read from its second character on, so the quotes of an entity
  tag are skipped. The result is 0 when the answer 304 was sent, 1 otherwise. An empty value
  leaves the second character of the buffer uninitialised.
\<close>

definition check_etag :: "connection_t \<Rightarrow> world \<Rightarrow> (int \<times> connection_t \<times> world) option" where
  "check_etag c w = do {
     r \<leftarrow> get_param_value (buf c) (http_param c) ''If-None-Match'' RBUFFER 13;
     case r of
       None \<Rightarrow> Some (1, c, w)
     | Some a \<Rightarrow>
         if a = '''' then None
         else do {
           let etag = c_strtol 0 (tl a);
           if st_mtime (strfile_stat c) = etag
           then do {
             (_, c1, w1) \<leftarrow> send_http_header 304 None None True etag c w;
             Some (0, c1, w1)
           }
           else Some (1, c, w)
         }
   }"

subsection \<open>The client's view\<close>

text \<open>The lines of a message head up to the empty line, and the bytes after it.\<close>

function read_head :: "string \<Rightarrow> (string list \<times> string) option" where
  "read_head s =
     (case find_sub CRLF s of
        None \<Rightarrow> None
      | Some 0 \<Rightarrow> Some ([], drop 2 s)
      | Some (Suc i) \<Rightarrow>
          map_option (\<lambda>(ls, rest). (take (Suc i) s # ls, rest)) (read_head (drop (Suc i + 2) s)))"
  by pat_completeness auto
termination
  by (relation "measure length") (auto dest: find_sub_bound)

declare read_head.simps [simp del]

definition content_length :: "string list \<Rightarrow> int option" where
  "content_length ls =
     (case find (\<lambda>l. prefix ''Content-Length: '' l) ls of
        None \<Rightarrow> None
      | Some l \<Rightarrow> Some (c_strtol 10 (drop 16 l)))"

definition status_of :: "string list \<Rightarrow> int" where
  "status_of ls = (case ls of [] \<Rightarrow> 0 | l # _ \<Rightarrow> c_strtol 10 (drop 9 l))"

text \<open>One message with a length: its status, its body and the bytes that follow it.\<close>

definition parse_response :: "string \<Rightarrow> (int \<times> string \<times> string) option" where
  "parse_response s = do {
     (ls, rest) \<leftarrow> read_head s;
     n \<leftarrow> content_length ls;
     if n < 0 \<or> int (length rest) < n then None
     else Some (status_of ls, take (nat n) rest, drop (nat n) rest)
   }"

definition http_head :: "string list \<Rightarrow> string" where
  "http_head ls = concat (map (\<lambda>l. l @ CRLF) ls) @ CRLF"

definition good_line :: "string \<Rightarrow> bool" where
  "good_line l \<longleftrightarrow> l \<noteq> [] \<and> CR \<notin> set l"

subsection \<open>Lemmas: heads and lines\<close>

lemma find_sub_CRLF: "CR \<notin> set l \<Longrightarrow> find_sub CRLF (l @ CR # LF # r) = Some (length l)"
  by (induction l) auto

lemma read_head_http_head:
  "list_all good_line ls \<Longrightarrow> read_head (http_head ls @ body) = Some (ls, body)"
proof (induction ls)
  case Nil
  then show ?case by (subst read_head.simps) (simp add: http_head_def)
next
  case (Cons l ls)
  then have l: "l \<noteq> []" "CR \<notin> set l" by (auto simp: good_line_def)
  then obtain k where k: "length l = Suc k" by (cases l) auto
  have eq: "http_head (l # ls) @ body = l @ CR # LF # http_head ls @ body" by (simp add: http_head_def)
  from Cons show ?case
    unfolding eq by (subst read_head.simps) (simp add: find_sub_CRLF l k)
qed
subsection \<open>Lemmas: the header\<close>

definition head_lines :: "int \<Rightarrow> 64 word option \<Rightarrow> string list \<Rightarrow> bool \<Rightarrow> int \<Rightarrow> connection_t \<Rightarrow> string list" where
  "head_lines code sz ls content ts c =
     [''HTTP/1.1 '' @ show_int code @ '' '' @ reason_phrase code, ''Server: '' @ SIGNATURE] @
     (if protocol_version c \<noteq> HTTP_1_1 \<and> keep_alive c then [''Connection: Keep-Alive'']
      else if protocol_version c = HTTP_1_1 \<and> \<not> keep_alive c then [''Connection: close''] else []) @
     (if ts \<noteq> -1 then [''ETag: '' @ QUOTE @ show_int (to_int32 ts) @ QUOTE] else []) @
     (case sz of
        None \<Rightarrow> []
      | Some n \<Rightarrow>
          if keep_alive c
          then [(if content then ''Content-Length: '' else ''entity-length: '') @ show_nat (unat n)]
          else []) @ ls"

definition header_text :: "string list \<Rightarrow> string" where
  "header_text ls = concat (map (\<lambda>l. l @ CRLF) ls)"

lemma header_text_append: "header_text (a @ b) = header_text a @ header_text b"
  by (simp add: header_text_def)

lemma put_text_step:
  "length out + length s < HEADBUF \<Longrightarrow>
   put_text (out, int HEADBUF - int (length out)) s =
     Some (out @ s, int HEADBUF - int (length (out @ s)))"
  by (subst put_text_fits) auto

lemma send_http_header_ok:
  assumes w: "healthy w"
    and fits: "length (http_head (head_lines code sz ls content ts c)) < HEADBUF"
    and hs: "(case headers of None \<Rightarrow> '''' | Some h \<Rightarrow> h) = header_text ls"
  shows "send_http_header code sz headers content ts c w =
    Some (0, c\<lparr>status_code := code\<rparr>,
      w\<lparr>sent := sent w @ http_head (head_lines code sz ls content ts c)\<rparr>)"
proof -
  let ?c = "c\<lparr>status_code := code\<rparr>"
  define t1 where "t1 = ''HTTP/1.1 '' @ show_int code @ '' '' @ reason_phrase code @ CRLF @
              ''Server: '' @ SIGNATURE @ CRLF @ connection_header ?c"
  define t2 where "t2 = (if ts \<noteq> -1
             then ''ETag: '' @ QUOTE @ show_int (to_int32 ts) @ QUOTE @ CRLF else [])"
  define t3 where "t3 = (case sz of None \<Rightarrow> [] | Some n \<Rightarrow> if keep_alive c
             then (if content then ''Content-Length: '' else ''entity-length: '') @
                    show_nat (unat n) @ CRLF else [])"
  define t4 where "t4 = header_text ls @ CRLF"
  have eq: "http_head (head_lines code sz ls content ts c) = t1 @ t2 @ t3 @ t4"
    unfolding t1_def t2_def t3_def t4_def http_head_def head_lines_def header_text_def connection_header_def
    by (cases sz) auto
  have len: "length t1 + length t2 + length t3 + length t4 < HEADBUF" using fits unfolding eq by simp
  have s1: "put_text ([], int HEADBUF) t1 = Some (t1, int HEADBUF - int (length t1))"
    using len put_text_step [of "[]" t1] by simp
  have s2: "(if ts \<noteq> -1 then put_text (t1, int HEADBUF - int (length t1))
        (''ETag: '' @ QUOTE @ show_int (to_int32 ts) @ QUOTE @ CRLF)
      else Some (t1, int HEADBUF - int (length t1))) =
      Some (t1 @ t2, int HEADBUF - int (length (t1 @ t2)))"
    using len put_text_step [of t1 t2] by (cases "ts \<noteq> -1") (simp_all add: t2_def)
  have s3: "(case sz of None \<Rightarrow> Some (t1 @ t2, int HEADBUF - int (length (t1 @ t2)))
      | Some n \<Rightarrow> if keep_alive ?c
          then put_text (t1 @ t2, int HEADBUF - int (length (t1 @ t2)))
             ((if content then ''Content-Length: '' else ''entity-length: '') @ show_nat (unat n) @ CRLF)
          else Some (t1 @ t2, int HEADBUF - int (length (t1 @ t2)))) =
      Some (t1 @ t2 @ t3, int HEADBUF - int (length (t1 @ t2 @ t3)))"
    using len put_text_step [of "t1 @ t2" t3] by (cases sz; cases "keep_alive c") (simp_all add: t3_def)
  have s4: "put_text (t1 @ t2 @ t3, int HEADBUF - int (length (t1 @ t2 @ t3))) t4 =
      Some (t1 @ t2 @ t3 @ t4, int HEADBUF - int (length (t1 @ t2 @ t3 @ t4)))"
    using len put_text_step [of "t1 @ t2 @ t3" t4] by simp
  have n: "int HEADBUF - (int HEADBUF - int (length x)) = int (length x)" for x :: string by simp
  have r: "read_image x (nat (int (length x))) = Some x" for x by (simp add: read_image_def)
  show ?thesis
    unfolding send_http_header_def Let_def healthy_simps [OF w] prod.case not_True_eq_False if_False hs
      s1 [unfolded t1_def] bind.bind_lunit
    unfolding t1_def [symmetric] s2 bind.bind_lunit s3
      t4_def [symmetric] s4 prod.case n r eq healthy_simps(4) [OF w]
    by simp
qed

lemma show_nat_no_CR: "CR \<notin> set (show_nat n)"
proof
  assume "CR \<in> set (show_nat n)"
  with show_nat_digits [of n] have "is_digit_in 10 CR" by (auto simp: list_all_iff)
  then show False using is_digit_10_range by fastforce
qed

lemma show_int_no_CR: "CR \<notin> set (show_int i)"
  using show_nat_no_CR by (auto simp: show_int_def)

lemma reason_phrase_no_CR: "CR \<notin> set (reason_phrase code)"
  by (auto simp: reason_phrase_def Let_def)

lemma signature_no_CR: "CR \<notin> set SIGNATURE"
  by (simp add: SIGNATURE_def)

lemmas no_CR = show_nat_no_CR show_int_no_CR reason_phrase_no_CR signature_no_CR

lemma head_lines_good: "list_all good_line ls \<Longrightarrow> list_all good_line (head_lines code sz ls content ts c)"
  by (auto simp: head_lines_def good_line_def no_CR QUOTE_def split: option.splits)

lemma show_int_length: "\<bar>i\<bar> < 10 ^ k \<Longrightarrow> 0 < k \<Longrightarrow> length (show_int i) \<le> Suc k"
proof -
  assume "\<bar>i\<bar> < 10 ^ k" and "0 < k"
  then have "nat \<bar>i\<bar> < 10 ^ k" by (simp add: nat_less_iff)
  with \<open>0 < k\<close> have "length (show_nat (nat \<bar>i\<bar>)) \<le> k" by (intro show_nat_length)
  then show ?thesis by (cases "i < 0") (simp_all add: show_int_def)
qed

lemma show_word64_length: "length (show_nat (unat (n :: 64 word))) \<le> 20"
proof -
  have "unat n < 2 ^ 64" using unsigned_less [of n] by simp
  also have "(2 :: nat) ^ 64 < 10 ^ 20" by simp
  finally show ?thesis by (intro show_nat_length) auto
qed

lemma to_int32_length: "length (show_int (to_int32 t)) \<le> 11"
proof -
  have "0 \<le> (t + 2147483648) mod 4294967296" "(t + 2147483648) mod 4294967296 < 4294967296" by simp_all
  then have "\<bar>to_int32 t\<bar> < 10 ^ 10" by (auto simp: to_int32_def)
  then show ?thesis using show_int_length [of _ 10] by simp
qed

lemma reason_phrase_length: "length (reason_phrase code) \<le> 23"
  by (simp add: reason_phrase_def Let_def)

lemma head_lines_short:
  assumes "\<bar>code\<bar> < 1000" and "length (header_text ls) \<le> 800"
  shows "length (http_head (head_lines code sz ls content ts c)) < HEADBUF"
proof -
  have "length (show_int code) \<le> 4" using show_int_length [of code 3] assms(1) by simp
  then show ?thesis
    using assms(2) show_word64_length [of "the sz"] to_int32_length [of ts] reason_phrase_length [of code]
    unfolding head_lines_def http_head_def header_text_def
    by (cases sz) (simp_all add: HEADBUF_def SIGNATURE_def QUOTE_def)
qed

lemma status_of_head_lines:
  assumes "0 \<le> code" and "code < 1000"
  shows "status_of (head_lines code sz ls content ts c) = code"
proof -
  have "int (nat code) \<le> LONG_MAX" using assms by (simp add: LONG_MAX_def)
  then have "c_strtol 10 (show_nat (nat code) @ '' '' @ reason_phrase code) = int (nat code)"
    by (intro c_strtol_show) (auto simp: is_digit_in_def digit_val_def)
  with assms show ?thesis by (simp add: status_of_def head_lines_def show_int_def)
qed

lemma below_LONG_MAX: "k < 2 ^ 63 \<Longrightarrow> int k \<le> LONG_MAX"
  by (simp add: LONG_MAX_def)

lemma content_length_head_lines:
  assumes "keep_alive c" and "unat n < 2 ^ 63"
  shows "content_length (head_lines code (Some n) ls True ts c) = Some (int (unat n))"
proof -
  have "int (unat n) \<le> LONG_MAX"
    using assms(2) by (rule below_LONG_MAX)
  then have "c_strtol 10 (show_nat (unat n)) = int (unat n)"
    using c_strtol_show [of "unat n" "[]"] by simp
  with assms(1) show ?thesis by (simp add: content_length_def head_lines_def)
qed

lemma send_http_header_message:
  assumes "healthy w" and "0 \<le> code" and "code < 1000"
    and "list_all good_line ls" and "length (header_text ls) \<le> 800"
    and "keep_alive c" and "unat n < 2 ^ 63" and "length body = unat n"
  shows "\<exists>h. send_http_header code (Some n) (Some (header_text ls)) True ts c w =
      Some (0, c\<lparr>status_code := code\<rparr>, w\<lparr>sent := sent w @ h\<rparr>) \<and>
    parse_response (h @ body @ rest) = Some (code, body, rest)"
proof -
  let ?h = "head_lines code (Some n) ls True ts c"
  have "send_http_header code (Some n) (Some (header_text ls)) True ts c w =
      Some (0, c\<lparr>status_code := code\<rparr>, w\<lparr>sent := sent w @ http_head ?h\<rparr>)"
    using assms by (intro send_http_header_ok head_lines_short) auto
  moreover have "parse_response (http_head ?h @ body @ rest) = Some (code, body, rest)"
    using assms
    by (simp add: parse_response_def read_head_http_head head_lines_good status_of_head_lines
        content_length_head_lines)
  ultimately show ?thesis by blast
qed

subsection \<open>Lemmas: error pages\<close>

lemma send_two_ok:
  assumes "healthy w" and "length head < HEADBUF" and "length pg < MAXSCRIPTOUT"
  shows "send_two head pg w = Some (0, w\<lparr>sent := sent w @ head @ pg\<rparr>)"
  using assms
  by (simp add: send_two_def head_bytes_def page_bytes_def read_image_def snprintf_image_def Let_def
      healthy_simps)

definition err_page :: "int \<Rightarrow> string \<Rightarrow> string" where
  "err_page err descr = HTMLHEAD @ '' <H1>Error '' @ show_int err @ ''</H1>'' @ descr @ '' '' @ HTMLFOOT"

definition err_lines :: "int \<Rightarrow> string \<Rightarrow> nat \<Rightarrow> string list" where
  "err_lines err descr n =
     [''HTTP/1.1 '' @ show_int err @ '' '' @ descr, ''Server: '' @ SIGNATURE,
      ''Content-Length: '' @ show_nat n, ''Content-Type: text/html'']"

lemma html_lengths: "length HTMLHEAD \<le> 2000" "length HTMLFOOT \<le> 200"
  by (simp_all add: HTMLHEAD_def HTMLFOOT_def QUOTE_def SIGNATURE_def)

lemma length_lines_parse:
  assumes "list_all good_line (l # ls)" and "content_length (l # ls) = Some (int (length pg))"
    and "status_of (l # ls) = code"
  shows "parse_response (http_head (l # ls) @ pg @ rest) = Some (code, pg, rest)"
  using assms by (simp add: parse_response_def read_head_http_head)

lemma send_err_ok:
  assumes w: "healthy w" and err: "0 \<le> err" "err < 1000" and d: "CR \<notin> set descr" "length descr \<le> 800"
  defines "pg \<equiv> err_page err descr"
  defines "h \<equiv> http_head (err_lines err descr (length pg))"
  shows "send_err c err descr w = Some (0, c\<lparr>status_code := err\<rparr>, w\<lparr>sent := sent w @ h @ pg\<rparr>)"
    and "parse_response (h @ pg @ rest) = Some (err, pg, rest)"
proof -
  have s: "length (show_int err) \<le> 4" using show_int_length [of err 3] err by simp
  then have pl: "length pg \<le> 4000" using d html_lengths by (simp add: pg_def err_page_def)
  then have nl: "length (show_nat (length pg)) \<le> 20" by (intro show_nat_length) simp_all
  have hl: "length h < HEADBUF"
    using s nl d unfolding h_def err_lines_def http_head_def
    by (simp add: HEADBUF_def SIGNATURE_def)
  have "send_two h pg w = Some (0, w\<lparr>sent := sent w @ h @ pg\<rparr>)"
    using w hl pl by (intro send_two_ok) (simp_all add: MAXSCRIPTOUT_def)
  moreover have "h = ''HTTP/1.1 '' @ show_int err @ '' '' @ descr @ CRLF @ ''Server: '' @ SIGNATURE @ CRLF @
              ''Content-Length: '' @ show_nat (length pg) @ CRLF @
              ''Content-Type: text/html'' @ CRLF @ CRLF"
    by (simp add: h_def err_lines_def http_head_def)
  ultimately show "send_err c err descr w =
      Some (0, c\<lparr>status_code := err\<rparr>, w\<lparr>sent := sent w @ h @ pg\<rparr>)"
    unfolding send_err_def Let_def healthy_simps [OF w] prod.case err_page_def [symmetric] pg_def [symmetric]
    by simp
  have "c_strtol 10 (show_nat (nat err) @ '' '' @ descr) = int (nat err)"
    using err by (intro c_strtol_show) (auto simp: is_digit_in_def digit_val_def LONG_MAX_def)
  then have st: "status_of (err_lines err descr (length pg)) = err"
    using err by (simp add: status_of_def err_lines_def show_int_def)
  have "c_strtol 10 (show_nat (length pg)) = int (length pg)"
    using pl c_strtol_show [of "length pg" "[]"] by (simp add: LONG_MAX_def)
  then have cl: "content_length (err_lines err descr (length pg)) = Some (int (length pg))"
    by (simp add: content_length_def err_lines_def)
  have "list_all good_line (err_lines err descr (length pg))"
    using d by (auto simp: err_lines_def good_line_def no_CR)
  with st cl show "parse_response (h @ pg @ rest) = Some (err, pg, rest)"
    unfolding h_def by (simp add: parse_response_def read_head_http_head)
qed

text \<open>The answers of the server: the internal result, the status and its description.\<close>

definition error_table :: "(int \<times> int \<times> string) list" where
  "error_table =
     [(ERR_BRKPIPE, 500, ''Internal server error''), (ERR_FILENOTFOUND, 404, ''Page not found''),
      (ERR_SERVICE_UNAVAILABLE, 503, ''Service Unavailable''), (ERR_NOMEM, 503, ''Service Unavailable''),
      (ERR_RANGE_NOT_SATISFIABLE, 416, ''Range not satisfiable''), (ERR_NODATA, 400, ''Bad request''),
      (ERR_NOTHTTP, 400, ''Bad request''), (ERR_FORBIDDEN, 403, ''Forbidden''),
      (ERR_NOTIMPLEMENTED, 501, ''Not implemented''),
      (ERR_PRECONDITION_FAILED, 412, ''Precondition Failed''), (ERR_CONFLICT, 409, ''Conflict''),
      (ERR_INSUFFICIENT_STORAGE, 507, ''Insufficient Storage''),
      (ERR_NOT_ALLOWED, 405, ''Method Not Allowed'')]"

lemma send_error_header_table:
  "(r, code, descr) \<in> set error_table \<Longrightarrow> send_error_header r c w = send_err c code descr w"
  by (auto simp: error_table_def send_error_header_def)

lemma error_table_ok:
  "(r, code, descr) \<in> set error_table \<Longrightarrow>
     CR \<notin> set descr \<and> length descr \<le> 800 \<and> 0 \<le> code \<and> code < 1000"
proof -
  have "list_all (\<lambda>(r, code, descr). CR \<notin> set descr \<and> length descr \<le> 800 \<and> 0 \<le> code \<and> code < 1000)
      error_table" by code_simp
  then show "(r, code, descr) \<in> set error_table \<Longrightarrow> ?thesis" by (auto simp: list_all_iff)
qed

lemma request_auth_ok:
  assumes w: "healthy w" and d: "cstr (buf c) (page c) = Some descr" "CR \<notin> set descr" "length descr \<le> 800"
  shows "\<exists>h pg. request_auth c w = Some (0, c\<lparr>status_code := 401\<rparr>, w\<lparr>sent := sent w @ h @ pg\<rparr>) \<and>
    (\<forall>rest. parse_response (h @ pg @ rest) = Some (401, pg, rest))"
proof -
  define pg where "pg = HTMLHEAD @ ''<H1>Authorization required</H1><p>'' @ descr @ ''</p>'' @ HTMLFOOT"
  define ls where "ls = [''HTTP/1.1 401 Authorization Required'', ''Server: '' @ SIGNATURE,
     ''Content-Length: '' @ show_nat (length pg),
     ''WWW-Authenticate: Basic realm='' @ QUOTE @ descr @ QUOTE]"
  have pl: "length pg \<le> 4000" using d html_lengths by (simp add: pg_def)
  then have nl: "length (show_nat (length pg)) \<le> 5" by (intro show_nat_length) simp_all
  have "length (http_head ls) < HEADBUF"
    using nl d unfolding ls_def http_head_def by (simp add: HEADBUF_def SIGNATURE_def QUOTE_def)
  then have "send_two (http_head ls) pg w = Some (0, w\<lparr>sent := sent w @ http_head ls @ pg\<rparr>)"
    using w pl by (intro send_two_ok) (simp_all add: MAXSCRIPTOUT_def)
  moreover have "http_head ls = ''HTTP/1.1 401 Authorization Required'' @ CRLF @ ''Server: '' @ SIGNATURE @ CRLF @
             ''Content-Length: '' @ show_nat (length pg) @ CRLF @
             ''WWW-Authenticate: Basic realm='' @ QUOTE @ descr @ QUOTE @ CRLF @ CRLF"
    by (simp add: ls_def http_head_def)
  ultimately have r: "request_auth c w =
      Some (0, c\<lparr>status_code := 401\<rparr>, w\<lparr>sent := sent w @ http_head ls @ pg\<rparr>)"
    unfolding request_auth_def d(1) bind.bind_lunit Let_def healthy_simps [OF w] prod.case pg_def [symmetric]
    by simp
  have "c_strtol 10 (show_nat (length pg)) = int (length pg)"
    using pl c_strtol_show [of "length pg" "[]"] by (simp add: LONG_MAX_def)
  then have cl: "content_length ls = Some (int (length pg))" by (simp add: content_length_def ls_def)
  have st: "status_of ls = 401" by (simp add: status_of_def ls_def) code_simp
  have "list_all good_line ls" using d by (auto simp: ls_def good_line_def no_CR QUOTE_def)
  with st cl have "parse_response (http_head ls @ pg @ rest) = Some (401, pg, rest)" for rest
    by (simp add: parse_response_def read_head_http_head)
  with r show ?thesis by blast
qed

subsection \<open>Properties\<close>

text \<open>
  Claim C15. On a keep-alive connection a header that \<open>send_http_header\<close> sends with a size,
  followed by a body of that size, is one complete HTTP message: a client that parses the
  stream by Content-Length reads the status code and exactly the body, and is left at the
  first byte after it.
\<close>

theorem send_http_header_frames:
  assumes "healthy w" and "0 \<le> code" and "code < 1000"
    and "list_all good_line ls" and "length (header_text ls) \<le> 800"
    and "keep_alive c" and "unat n < 2 ^ 63" and "length body = unat n"
  shows "\<exists>h. send_http_header code (Some n) (Some (header_text ls)) True ts c w =
      Some (0, c\<lparr>status_code := code\<rparr>, w\<lparr>sent := sent w @ h\<rparr>) \<and>
    parse_response (h @ body @ rest) = Some (code, body, rest)"
  using assms by (rule send_http_header_message)

theorem send_http_header_frames_witness:
  "\<exists>h. send_http_header 200 (Some 5) (Some (header_text [''X-A: b''])) True 1000 small_connection small_world =
      Some (0, small_connection\<lparr>status_code := 200\<rparr>, small_world\<lparr>sent := sent small_world @ h\<rparr>) \<and>
    parse_response (h @ ''hello'' @ ''next'') = Some (200, ''hello'', ''next'')"
  by (rule send_http_header_frames)
    (simp_all add: good_line_def header_text_def small_connection_def)

text \<open>
  Claim C9. Every error result of a handler is answered by one complete message with the
  status that the table assigns to it: the client parses that status, the error page as its
  body, and nothing of the message is left over.
\<close>

theorem errors_are_answered:
  assumes "healthy w" and "(r, code, descr) \<in> set error_table"
  shows "\<exists>h. send_error_header r c w =
      Some (0, c\<lparr>status_code := code\<rparr>, w\<lparr>sent := sent w @ h @ err_page code descr\<rparr>) \<and>
    parse_response (h @ err_page code descr @ rest) = Some (code, err_page code descr, rest)"
  using error_table_ok [OF assms(2)] send_error_header_table [OF assms(2)]
    send_err_ok [OF assms(1), of code descr] by auto

theorem errors_are_answered_witness:
  "\<exists>h. send_error_header (-2) small_connection small_world =
      Some (0, small_connection\<lparr>status_code := 404\<rparr>,
        small_world\<lparr>sent := sent small_world @ h @ err_page 404 ''Page not found''\<rparr>) \<and>
    parse_response (h @ err_page 404 ''Page not found'' @ ''rest'') =
      Some (404, err_page 404 ''Page not found'', ''rest'')"
  by (rule errors_are_answered) (simp_all add: error_table_def)

end
