(* ===== verification/Files.thy ===== *)
theory Files
  imports World
begin

section \<open>File operations: myio.c\<close>

text \<open>
  \<open>fd_copy\<close>, \<open>file_exists\<close>, \<open>dir_remove\<close>, \<open>file_move\<close>, \<open>file_copy\<close>, \<open>dir_copy\<close>,
  \<open>dir_move\<close> and \<open>dir_move_copy\<close>, on the file tree of the platform layer. The two recursive
  functions print the path of a directory entry into a buffer of \<open>PATH_LEN\<close> bytes and call
  themselves on it; a path that does not fit is cut, so the recursion need not end, and the
  model gives it fuel: the depth of the call stack. The lemmas show that the depth of the
  tree is enough fuel when every path fits.
\<close>

subsection \<open>Descriptors\<close>

definition myio_write :: "fd_t \<Rightarrow> string \<Rightarrow> world \<Rightarrow> int \<times> world" where
  "myio_write to s w = (case to of Client \<Rightarrow> client_write s w | Fd d \<Rightarrow> sys_write d s w)"

text \<open>\<open>fd_copy\<close> reads from a file in every call of the program.\<close>

lemma sys_read_length: "sys_read d n w = (Some s, w') \<Longrightarrow> length s \<le> n"
  by (auto simp: sys_read_def Let_def split: prod.splits option.splits if_splits)

function fd_copy_loop :: "int \<Rightarrow> fd_t \<Rightarrow> int \<Rightarrow> world \<Rightarrow> world" where
  "fd_copy_loop from to count w =
     (if count \<le> 0 then w
      else case sys_read from (if int FILEBUF < count then FILEBUF else nat count) w of
        (None, w1) \<Rightarrow> w1
      | (Some s, w1) \<Rightarrow>
          if s = [] then w1
          else (case myio_write to s w1 of
                  (wrote, w2) \<Rightarrow>
                    if wrote \<noteq> int (length s) then w2
                    else fd_copy_loop from to (count - int (length s)) w2))"
  by pat_completeness auto
termination
  by (relation "measure (\<lambda>(_, _, count, _). nat count)") auto

declare fd_copy_loop.simps [simp del]

definition fd_copy :: "int \<Rightarrow> fd_t \<Rightarrow> int \<Rightarrow> world \<Rightarrow> int \<times> world" where
  "fd_copy from to count w =
     (case malloc w of (ok, w1) \<Rightarrow> if \<not> ok then (ERR_NOMEM, w1) else (0, fd_copy_loop from to count w1))"

definition file_exists :: "string \<Rightarrow> world \<Rightarrow> bool \<times> world" where
  "file_exists file w = sys_access file w"

subsection \<open>Removing a directory\<close>

definition dot_name :: "string \<Rightarrow> bool" where
  "dot_name e \<longleftrightarrow> e = ''.'' \<or> e = ''..''"

text \<open>\<open>snprintf(file, PATH_LEN, "%s/%s", dir, name)\<close>.\<close>

definition entry_path :: "string \<Rightarrow> string \<Rightarrow> string" where
  "entry_path dir e = take (PATH_LEN - 1) (dir @ ''/'' @ e)"

fun dir_remove :: "nat \<Rightarrow> string \<Rightarrow> world \<Rightarrow> (int \<times> world) option"
  and dir_remove_entries :: "nat \<Rightarrow> string \<Rightarrow> string list \<Rightarrow> world \<Rightarrow> world option" where
  "dir_remove 0 dir w = None"
| "dir_remove (Suc k) dir w =
     (case sys_unlink dir w of
        (Inr _, w1) \<Rightarrow> Some (0, w1)
      | (Inl _, w1) \<Rightarrow>
          (case sys_opendir dir w1 of
             (Inl _, w2) \<Rightarrow> Some (1, w2)
           | (Inr names, w2) \<Rightarrow>
               (case malloc w2 of
                  (ok, w3) \<Rightarrow>
                    if \<not> ok then Some (ERR_NOMEM, w3)
                    else do {
                      w4 \<leftarrow> dir_remove_entries k dir names w3;
                      case sys_rmdir dir w4 of
                        (Inl _, w5) \<Rightarrow> Some (-1, w5)
                      | (Inr _, w5) \<Rightarrow> Some (0, w5)
                    })))"
| "dir_remove_entries k dir [] w = Some w"
| "dir_remove_entries k dir (e # es) w =
     (if dot_name e then dir_remove_entries k dir es w
      else do {
        (_, w1) \<leftarrow> dir_remove k (entry_path dir e) w;
        dir_remove_entries k dir es w1
      })"

subsection \<open>Moving and copying\<close>

text \<open>
  The loop of \<open>file_copy\<close>: the source is read to its end; \<open>None\<close> is a copy that does not end. A failing \<open>read\<close> ends the loop
  with success, as in the source.
\<close>

partial_function (option) file_copy_loop :: "int \<Rightarrow> int \<Rightarrow> world \<Rightarrow> (int \<times> world) option" where
  "file_copy_loop fd_from fd_to w =
     (case sys_read fd_from FILEBUF w of
        (None, w1) \<Rightarrow> Some (0, w1)
      | (Some s, w1) \<Rightarrow>
          if s = [] then Some (0, w1)
          else (case sys_write fd_to s w1 of
                  (wrote, w2) \<Rightarrow>
                    if wrote \<noteq> int (length s) then Some (ERR_BRKPIPE, w2)
                    else file_copy_loop fd_from fd_to w2))"

definition file_copy :: "string \<Rightarrow> string \<Rightarrow> world \<Rightarrow> (int \<times> world) option" where
  "file_copy source dest w =
     (case sys_open_creat dest w of
        (Inl _, w1) \<Rightarrow> Some (ERR_FORBIDDEN, w1)
      | (Inr fd_to, w1) \<Rightarrow>
          (case sys_open_read source w1 of
             (Inl _, w2) \<Rightarrow> Some (ERR_FILENOTFOUND, sys_close fd_to w2)
           | (Inr fd_from, w2) \<Rightarrow>
               (case malloc w2 of
                  (ok, w3) \<Rightarrow>
                    if \<not> ok then Some (ERR_NOMEM, sys_close fd_to (sys_close fd_from w3))
                    else do {
                      (r, w4) \<leftarrow> file_copy_loop fd_from fd_to w3;
                      Some (r, sys_close fd_to (sys_close fd_from w4))
                    })))"

definition file_move :: "string \<Rightarrow> string \<Rightarrow> world \<Rightarrow> (int \<times> world) option" where
  "file_move source dest w =
     (case sys_rename source dest w of
        (Inr _, w1) \<Rightarrow> Some (0, w1)
      | (Inl e, w1) \<Rightarrow>
          if e = EXDEV
          then do {
            (r, w2) \<leftarrow> file_copy source dest w1;
            if r = 0 then Some (r, snd (sys_unlink source w2)) else Some (r, w2)
          }
          else Some (-1, w1))"

text \<open>
  \<open>dir_move_copy\<close>. The result of \<open>stat\<close> on an entry is not checked in the source: when it
  fails the structure keeps the type of the entry before, here the argument \<open>md\<close>; its value
  before the first entry is uninitialised memory, \<open>None\<close>.
\<close>

fun dir_move_copy :: "nat \<Rightarrow> string \<Rightarrow> string \<Rightarrow> int \<Rightarrow> world \<Rightarrow> (int \<times> world) option"
  and dir_move_copy_entries :: "nat \<Rightarrow> string \<Rightarrow> string \<Rightarrow> int \<Rightarrow> 32 word option \<Rightarrow> string list \<Rightarrow>
        world \<Rightarrow> (int \<times> world) option" where
  "dir_move_copy 0 source dest meth w = None"
| "dir_move_copy (Suc k) source dest meth w =
     (case sys_mkdir dest w of
        (Inl _, w1) \<Rightarrow> Some (ERR_FORBIDDEN, w1)
      | (Inr _, w1) \<Rightarrow>
          (case sys_opendir source w1 of
             (Inl _, w2) \<Rightarrow> Some (ERR_FILENOTFOUND, w2)
           | (Inr names, w2) \<Rightarrow>
               (case malloc w2 of
                  (ok, w3) \<Rightarrow>
                    if \<not> ok then Some (ERR_NOMEM, w3)
                    else do {
                      (r, w4) \<leftarrow> dir_move_copy_entries k source dest meth None names w3;
                      if r = 0 \<and> meth = MOVE
                      then (case sys_rmdir source w4 of
                              (Inl _, w5) \<Rightarrow> Some (-1, w5)
                            | (Inr _, w5) \<Rightarrow> Some (0, w5))
                      else Some (r, w4)
                    })))"
| "dir_move_copy_entries k source dest meth md [] w = Some (0, w)"
| "dir_move_copy_entries k source dest meth md (e # es) w =
     (if dot_name e then dir_move_copy_entries k source dest meth md es w
      else do {
        let src_file = entry_path source e;
        let dest_file = entry_path dest e;
        let (st, w1) = sys_stat src_file w;
        let md1 = (case st of Inl _ \<Rightarrow> md | Inr s \<Rightarrow> Some (st_mode s));
        mode \<leftarrow> md1;
        (r, w2) \<leftarrow> (if S_ISDIR mode then dir_move_copy k src_file dest_file meth w1
                   else if meth = MOVE then file_move src_file dest_file w1
                   else file_copy src_file dest_file w1);
        if r \<noteq> 0 then Some (r, w2)
        else dir_move_copy_entries k source dest meth md1 es w2
      })"

definition dir_copy :: "nat \<Rightarrow> string \<Rightarrow> string \<Rightarrow> world \<Rightarrow> (int \<times> world) option" where
  "dir_copy k source dest w = dir_move_copy k source dest COPY w"

definition dir_move :: "nat \<Rightarrow> string \<Rightarrow> string \<Rightarrow> world \<Rightarrow> (int \<times> world) option" where
  "dir_move k source dest w =
     (case sys_rename source dest w of
        (Inr _, w1) \<Rightarrow> Some (0, w1)
      | (Inl e, w1) \<Rightarrow> if e = EXDEV then dir_move_copy k source dest MOVE w1 else Some (1, w1))"

subsection \<open>Lemmas: fd_copy\<close>

text \<open>What is left to read from a descriptor.\<close>

definition fd_rest :: "int \<Rightarrow> world \<Rightarrow> string" where
  "fd_rest d w =
     (case (map_of (fds w) d, fd_inode d w) of
        (Some f, Some i) \<Rightarrow> if is_dir i then [] else drop (o_pos f) (i_data i)
      | _ \<Rightarrow> [])"

lemma next_fault_frame:
  "next_fault w = (f, w') \<Longrightarrow> \<exists>x. w' = w\<lparr>faults := x\<rparr>"
  by (auto simp: next_fault_def split: list.splits intro: exI [of _ "faults w"])

lemma next_write_frame:
  "next_write n w = (r, w') \<Longrightarrow> (\<exists>x. w' = w\<lparr>wr_results := x\<rparr>) \<and> -1 \<le> r \<and> r \<le> int n"
  by (auto simp: next_write_def split: list.splits if_splits intro: exI [of _ "wr_results w"])

lemma fd_rest_upd [simp]:
  "fd_rest d (w\<lparr>faults := a\<rparr>) = fd_rest d w"
  "fd_rest d (w\<lparr>wr_results := b\<rparr>) = fd_rest d w"
  "fd_rest d (w\<lparr>sent := c\<rparr>) = fd_rest d w"
  by (simp_all add: fd_rest_def fd_inode_def)

lemma sys_read_spec:
  assumes "sys_read d n w = (r, w')"
  shows "sent w' = sent w" and "fs w' = fs w" and "reader w' = reader w" and "input w' = input w"
    and "r = Some s \<Longrightarrow> s = take n (fd_rest d w) \<and> fd_rest d w' = drop (length s) (fd_rest d w)"
  using assms
  by (auto simp: sys_read_def Let_def sys_lseek_def fd_rest_def fd_inode_def update_conv next_fault_def add.commute
      split: prod.splits option.splits if_splits list.splits)


lemma client_write_spec:
  assumes "client_write s w = (r, w')"
  shows "sent w' = sent w @ take (nat r) s" and "fs w' = fs w" and "fds w' = fds w"
    and "reader w' = reader w" and "input w' = input w" and "r \<le> int (length s)"
  using assms by (auto simp: client_write_def next_write_def split: list.splits if_splits)

lemma fd_rest_cong: "fds w' = fds w \<Longrightarrow> fs w' = fs w \<Longrightarrow> fd_rest d w' = fd_rest d w"
  by (simp add: fd_rest_def fd_inode_def)

lemma sys_read_healthy:
  assumes "sys_read d n w = (r, w')" and "healthy w"
  shows "healthy w'" and "r = None \<Longrightarrow> fd_rest d w = []"
  using assms
  by (auto simp: sys_read_def Let_def sys_lseek_def fd_rest_def fd_inode_def healthy_simps
      split: prod.splits option.splits if_splits)

lemma fd_copy_step:
  assumes "0 < count"
  obtains (stop) w1 where "fd_copy_loop d Client count w = w1" and "sent w1 = sent w"
      and "fs w1 = fs w" and "reader w1 = reader w" and "input w1 = input w"
      and "healthy w \<Longrightarrow> fd_rest d w = []"
    | (cut) s n w2 where "s = take n (fd_rest d w)" and "n \<le> nat count"
      and "fd_copy_loop d Client count w = w2" and "fs w2 = fs w" and "reader w2 = reader w"
      and "input w2 = input w" and "sent w2 = sent w @ s" and "\<not> healthy w"
    | (go) s w2 where "s = take (length s) (fd_rest d w)" and "s \<noteq> []" and "length s \<le> nat count"
      and "fd_copy_loop d Client count w = fd_copy_loop d Client (count - int (length s)) w2"
      and "fs w2 = fs w" and "reader w2 = reader w" and "input w2 = input w"
      and "sent w2 = sent w @ s" and "fd_rest d w2 = drop (length s) (fd_rest d w)"
      and "healthy w \<Longrightarrow> healthy w2"
proof -
  let ?n = "if int FILEBUF < count then FILEBUF else nat count"
  have n: "?n \<le> nat count" by (simp add: le_nat_iff)
  obtain r w1 where rd: "sys_read d ?n w = (r, w1)" by fastforce
  note spec = sys_read_spec [OF rd] and hl = sys_read_healthy [OF rd]
  note unf = fd_copy_loop.simps [of d Client count w]
  show thesis
  proof (cases r)
    case None
    then show thesis using unf rd spec(1-4) hl assms by (intro stop [of w1]) auto
  next
    case (Some s)
    note s = spec(5) [OF Some]
    show thesis
    proof (cases "s = []")
      case True
      with s n assms have "fd_rest d w = []" by (auto simp: FILEBUF_def split: if_splits)
      with True Some show thesis using unf rd spec(1-4) assms by (intro stop [of w1]) auto
    next
      case False
      obtain wrote w2 where wr: "client_write s w1 = (wrote, w2)" by fastforce
      note cw = client_write_spec [OF wr]
      have len: "length s \<le> nat count" using s n by auto
      have sl: "s = take (length s) (fd_rest d w)" using s by (metis append_eq_conv_conj append_take_drop_id)
      have r2: "fd_rest d w2 = drop (length s) (fd_rest d w)"
        using fd_rest_cong [OF cw(3,2)] s by simp
      show thesis
      proof (cases "wrote = int (length s)")
        case True
        have "healthy w \<Longrightarrow> healthy w2"
          using hl(1) wr by (auto simp: healthy_simps)
        then show thesis using unf rd wr Some False True spec(1-4) cw len sl r2 assms
          by (intro go [of s w2]) (auto simp: myio_write_def)
      next
        case wrong: False
        have "\<not> healthy w" using hl(1) wr wrong by (auto simp: healthy_simps)
        then show thesis using unf rd wr Some False wrong spec(1-4) cw len s assms
          by (intro cut [of "take (nat wrote) s" "min (nat wrote) ?n" w2]) (auto simp: myio_write_def)
      qed
    qed
  qed
qed

lemma fd_copy_loop_frame:
  "fs (fd_copy_loop d Client count w) = fs w \<and> reader (fd_copy_loop d Client count w) = reader w \<and>
   input (fd_copy_loop d Client count w) = input w"
proof (induction "nat count" arbitrary: count w rule: less_induct)
  case less
  show ?case
  proof (cases "0 < count")
    case True
    show ?thesis
    proof (cases rule: fd_copy_step [OF True, of d w, case_names stop cut go])
      case (go s w2)
      then have "nat (count - int (length s)) < nat count" using True by (cases s) auto
      from less [OF this, of w2] go show ?thesis by simp
    qed auto
  qed (simp add: fd_copy_loop.simps)
qed

lemma fd_copy_loop_prefix:
  "\<exists>n\<le>nat count. sent (fd_copy_loop d Client count w) = sent w @ take n (fd_rest d w)"
proof (induction "nat count" arbitrary: count w rule: less_induct)
  case less
  show ?case
  proof (cases "0 < count")
    case True
    show ?thesis
    proof (cases rule: fd_copy_step [OF True, of d w, case_names stop cut go])
      case (go s w2)
      then have "nat (count - int (length s)) < nat count" using True by (cases s) auto
      from less [OF this, of w2] obtain m where m: "m \<le> nat (count - int (length s))"
        and "sent (fd_copy_loop d Client (count - int (length s)) w2) = sent w2 @ take m (fd_rest d w2)"
        by blast
      moreover have "s @ take m (drop (length s) (fd_rest d w)) = take (length s + m) (fd_rest d w)"
        using go(1) by (metis take_add)
      ultimately have "sent (fd_copy_loop d Client count w) = sent w @ take (length s + m) (fd_rest d w)"
        using go by simp
      then show ?thesis using m go(3) by (intro exI [of _ "length s + m"]) auto
    next
      case (cut s n w2)
      then show ?thesis by auto
    qed auto
  qed (simp add: fd_copy_loop.simps)
qed

lemma fd_copy_loop_healthy:
  "healthy w \<Longrightarrow> sent (fd_copy_loop d Client count w) = sent w @ take (nat count) (fd_rest d w)"
proof (induction "nat count" arbitrary: count w rule: less_induct)
  case less
  show ?case
  proof (cases "0 < count")
    case True
    show ?thesis
    proof (cases rule: fd_copy_step [OF True, of d w, case_names stop cut go])
      case (go s w2)
      then have lt: "nat (count - int (length s)) < nat count" using True by (cases s) auto
      have "s @ take (nat (count - int (length s))) (drop (length s) (fd_rest d w)) =
          take (length s + nat (count - int (length s))) (fd_rest d w)"
        using go(1) by (metis take_add)
      moreover have "length s + nat (count - int (length s)) = nat count" using go(3) True by simp
      ultimately show ?thesis using less(1) [OF lt, of w2] go less(2) by simp
    qed (use less(2) in auto)
  qed (simp add: fd_copy_loop.simps)
qed

subsection \<open>Lemmas: removing a tree\<close>

lemma sys_unlink_ok:
  assumes "healthy w" and "resolve (fs w) (cwd w) s = Inr p"
  shows "sys_unlink s w = with_fs (fs_unlink p (fs w)) w"
  using assms by (simp add: sys_unlink_def on_path_def healthy_simps)

lemma sys_opendir_ok:
  assumes "healthy w" and "resolve (fs w) (cwd w) s = Inr p" and "dir_at (fs w) p"
  shows "sys_opendir s w = (Inr (''.'' # ''..'' # children (fs w) p), w)"
  using assms by (auto simp: sys_opendir_def on_path_def healthy_simps dir_at_def split: option.splits)

lemma sys_rmdir_ok:
  assumes "healthy w" and "resolve (fs w) (cwd w) s = Inr p"
  shows "sys_rmdir s w = with_fs (fs_rmdir p (fs w)) w"
  using assms by (simp add: sys_rmdir_def on_path_def healthy_simps)

text \<open>The part of the tree under a path fits the buffers and the recursion depth.\<close>

definition fits :: "nat \<Rightarrow> string \<Rightarrow> path \<Rightarrow> fsys \<Rightarrow> bool" where
  "fits k dir p tr \<longleftrightarrow> (\<forall>q \<in> fst ` set tr. take (length p) q = p \<longrightarrow>
     length q < length p + k \<and> length dir + path_size (drop (length p) q) < PATH_LEN)"

lemma fits_child:
  assumes "fits (Suc k) dir p tr" and "p @ [e] \<in> fst ` set tr"
  shows "entry_path dir e = dir @ ''/'' @ e" and "fits k (dir @ ''/'' @ e) (p @ [e]) tr"
proof -
  from assms have "length dir + path_size [e] < PATH_LEN" unfolding fits_def by force
  then show "entry_path dir e = dir @ ''/'' @ e" by (simp add: entry_path_def path_size_def)
  show "fits k (dir @ ''/'' @ e) (p @ [e]) tr" unfolding fits_def
  proof (intro ballI impI)
    fix q assume q: "q \<in> fst ` set tr" "take (length (p @ [e])) q = p @ [e]"
    then obtain r where r: "q = p @ e # r" by (metis append_Cons append_assoc append_take_drop_id self_append_conv2)
    with assms(1) q(1) have "length q < length p + Suc k \<and> length dir + path_size (e # r) < PATH_LEN"
      unfolding fits_def by force
    with r show "length q < length (p @ [e]) + k \<and>
        length (dir @ ''/'' @ e) + path_size (drop (length (p @ [e])) q) < PATH_LEN"
      by (simp add: path_size_def)
  qed
qed

lemma fits_without: "fits k dir p tr \<Longrightarrow> fits k dir p (without r tr)"
  by (auto simp: fits_def without_keys)

lemma dir_remove_entries_ok:
  assumes IH: "\<And>dir p w. \<lbrakk>healthy w; fs_ok (fs w); names_path dir p; p \<noteq> []; p \<in> fst ` set (fs w);
      last dir = CHR ''/'' \<Longrightarrow> dir_at (fs w) p; fits k dir p (fs w)\<rbrakk> \<Longrightarrow>
      dir_remove k dir w = Some (0, w\<lparr>fs := without p (fs w)\<rparr>)"
    and "healthy w" and "fs_ok (fs w)" and "names_path dir p" and "p \<noteq> []" and "dir_at (fs w) p"
    and "fits (Suc k) dir p (fs w)" and "distinct es" and "set es \<subseteq> set (children (fs w) p)"
  shows "dir_remove_entries k dir es w =
    Some (w\<lparr>fs := fold (\<lambda>e. without (p @ [e])) es (fs w)\<rparr>)"
  using assms(2-)
proof (induction es arbitrary: w)
  case (Cons e es)
  have key: "p @ [e] \<in> fst ` set (fs w)" using Cons.prems(8) by (auto simp: set_children)
  then have pr: "proper e" using fs_ok_proper [OF Cons.prems(2), of p "[e]"] by simp
  note child = fits_child [OF Cons.prems(6) key]
  have "last (dir @ ''/'' @ e) \<noteq> CHR ''/''" using pr by (metis append_is_Nil_conv last_appendR last_in_set proper_def)
  then have "dir_remove k (dir @ ''/'' @ e) w = Some (0, w\<lparr>fs := without (p @ [e]) (fs w)\<rparr>)"
    using Cons.prems child key pr by (intro IH names_path_child) auto
  moreover have "\<forall>x \<in> set es. p @ [x] \<in> fst ` set (fs w)"
    using Cons.prems(8) set_children [of _ "fs w" p] by (meson list.set_intros(2) subsetD)
  then have "dir_remove_entries k dir es (w\<lparr>fs := without (p @ [e]) (fs w)\<rparr>) =
      Some (w\<lparr>fs := without (p @ [e]) (fs w)\<rparr>\<lparr>fs := fold (\<lambda>e. without (p @ [e])) es
        (fs (w\<lparr>fs := without (p @ [e]) (fs w)\<rparr>))\<rparr>)"
    using Cons.prems by (intro Cons.IH)
      (auto simp: fits_without dir_at_without set_children without_keys intro!: fs_ok_without)
  moreover have nd: "\<not> dot_name e" using pr by (auto simp: dot_name_def proper_def)
  ultimately show ?case using child(1) by simp
qed simp

lemma dir_remove_ok:
  assumes "healthy w" and "fs_ok (fs w)" and "names_path dir p" and "p \<noteq> []"
    and "p \<in> fst ` set (fs w)" and "last dir = CHR ''/'' \<Longrightarrow> dir_at (fs w) p" and "fits k dir p (fs w)"
  shows "dir_remove k dir w = Some (0, w\<lparr>fs := without p (fs w)\<rparr>)"
  using assms
proof (induction k arbitrary: dir p w)
  case 0
  then show ?case by (force simp: fits_def)
next
  case (Suc k)
  let ?tr = "fs w"
  have res: "resolve ?tr (cwd w) dir = Inr p" using Suc.prems by (intro resolve_names) auto
  note ul = sys_unlink_ok [OF Suc.prems(1) res]
  show ?case
  proof (cases "dir_at ?tr p")
    case False
    then obtain i where "lookup ?tr p = Some i" and "\<not> is_dir i"
      using Suc.prems(5) lookup_iff [of ?tr p] by (cases "lookup ?tr p") (auto simp: dir_at_def)
    then show ?thesis
      using ul delete_file_without [OF Suc.prems(2) False] by (simp add: fs_unlink_def with_fs_def)
  next
    case True
    then obtain i where i: "lookup ?tr p = Some i" "is_dir i"
      by (auto simp: dir_at_def split: option.splits)
    let ?w = "w\<lparr>fs := fold (\<lambda>e. without (p @ [e])) (children ?tr p) ?tr\<rparr>"
    have ents: "dir_remove_entries k dir (children ?tr p) w = Some ?w"
      using Suc True distinct_children by (intro dir_remove_entries_ok) (auto simp: fs_ok_def)
    have ok: "fs_ok (fold (\<lambda>e. without (p @ [e])) es ?tr) \<and>
        lookup (fold (\<lambda>e. without (p @ [e])) es ?tr) p = Some i" for es
      by (induction es rule: rev_induct) (auto simp: lookup_without i Suc.prems(2) intro!: fs_ok_without)
    have "children (fs ?w) p = []"
    proof -
      have "e \<notin> set (children (fs ?w) p)" for e
      proof
        assume "e \<in> set (children (fs ?w) p)"
        then have "p @ [e] \<in> fst ` set (fold (\<lambda>e. without (p @ [e])) (children ?tr p) ?tr)"
          by (simp add: set_children)
        then have "p @ [e] \<in> fst ` set ?tr" and "\<forall>d \<in> set (children ?tr p). p @ [e] \<noteq> p @ [d]"
          unfolding fold_without by force+
        then show False using set_children [of e ?tr p] by blast
      qed
      then show ?thesis by (metis list.set_intros(1) neq_Nil_conv)
    qed
    moreover have "resolve (fs ?w) (cwd ?w) dir = Inr p"
      using Suc.prems ok [of "children ?tr p"] i
      by (intro resolve_names) (auto simp: dir_at_def intro: dir_atD)
    ultimately have "sys_rmdir dir ?w = (Inr (), w\<lparr>fs := without p ?tr\<rparr>)"
      using sys_rmdir_ok [of ?w dir p] Suc.prems(1,4) ok [of "children ?tr p"] i
        delete_emptied_without [OF Suc.prems(2), of p]
      by (simp add: fs_rmdir_def with_fs_def)
    then show ?thesis
      using ul i sys_opendir_ok [OF Suc.prems(1) res True] ents
      by (simp add: fs_unlink_def with_fs_def healthy_simps [OF Suc.prems(1)] dot_name_def)
  qed
qed

subsection \<open>Lemmas: copying a file\<close>

lemma overwrite_append: "overwrite (overwrite old off s) (off + length s) t = overwrite old off (s @ t)"
proof -
  define A where "A = take off old @ replicate (off - length old) NUL"
  have len: "length A = off" by (simp add: A_def)
  have a: "overwrite old off u = A @ u @ drop (off + length u) old" for u
    by (simp add: overwrite_def A_def)
  have d: "overwrite x (off + length s) t = take (off + length s) x @ t @ drop (off + length s + length t) x"
    if "off + length s \<le> length x" for x
    using that by (simp add: overwrite_def)
  have "length (overwrite old off s) \<ge> off + length s" by (simp add: a len)
  from d [OF this] show ?thesis by (simp add: a len ac_simps)
qed

lemma lookup_set_data:
  "lookup (fs_set_data p f tr) q =
     (if q = p then map_option (\<lambda>i. i\<lparr>i_data := f (i_data i)\<rparr>) (lookup tr p) else lookup tr q)"
  by (auto simp: fs_set_data_def lookup_def update_conv split: option.splits)

lemma set_data_twice: "fs_set_data p g (fs_set_data p f tr) = fs_set_data p (\<lambda>s. g (f s)) tr"
  by (auto simp: fs_set_data_def lookup_def update_conv split: option.splits)

lemma overwrite_nil: "n \<le> length old \<Longrightarrow> overwrite old n [] = old"
  by (simp add: overwrite_def)

lemma set_data_id: "(\<And>i. lookup tr p = Some i \<Longrightarrow> f (i_data i) = i_data i) \<Longrightarrow> fs_set_data p f tr = tr"
  by (auto simp: fs_set_data_def lookup_def update_triv split: option.splits)

lemma sys_write_ok:
  assumes "healthy w" and "map_of (fds w) d = Some f"
  shows "sys_write d s w = (int (length s),
    w\<lparr>fs := fs_set_data (o_path f) (\<lambda>old. overwrite old (o_pos f) s) (fs w),
      fds := AList.update d (f\<lparr>o_pos := o_pos f + length s\<rparr>) (fds w)\<rparr>)"
  using assms by (simp add: sys_write_def healthy_simps sys_lseek_def)

lemma file_copy_loop_ok:
  assumes "healthy w" and "map_of (fds w) a = Some fa" and "map_of (fds w) b = Some fb" and "a \<noteq> b"
    and "lookup (fs w) (o_path fa) = Some i" and "\<not> is_dir i" and "o_path fa \<noteq> o_path fb"
    and "lookup (fs w) (o_path fb) = Some j" and "o_pos fb \<le> length (i_data j)"
  shows "\<exists>X. file_copy_loop a b w =
      Some (0, w\<lparr>fs := fs_set_data (o_path fb) (\<lambda>old. overwrite old (o_pos fb) (drop (o_pos fa) (i_data i))) (fs w),
        fds := X\<rparr>) \<and>
    AList.delete b (AList.delete a X) = AList.delete b (AList.delete a (fds w))"
  using assms
proof (induction "length (i_data i) - o_pos fa" arbitrary: w fa fb j rule: less_induct)
  case less
  let ?s = "take FILEBUF (drop (o_pos fa) (i_data i))"
  let ?w1 = "w\<lparr>fds := AList.update a (fa\<lparr>o_pos := o_pos fa + length ?s\<rparr>) (fds w)\<rparr>"
  have rd: "sys_read a FILEBUF w = (Some ?s, ?w1)"
    using less.prems by (simp add: sys_read_def healthy_simps fd_inode_def Let_def sys_lseek_def)
  show ?case
  proof (cases "?s = []")
    case True
    then have "drop (o_pos fa) (i_data i) = []" by (simp add: FILEBUF_def)
    moreover have "fs_set_data (o_path fb) (\<lambda>old. overwrite old (o_pos fb) []) (fs w) = fs w"
      using less.prems by (intro set_data_id) (simp add: overwrite_nil)
    ultimately show ?thesis using rd True
      by (subst file_copy_loop.simps) (auto simp: delete_update_same intro!: exI [of _ "fds ?w1"])
  next
    case False
    let ?f = "\<lambda>old. overwrite old (o_pos fb) ?s"
    let ?fb = "fb\<lparr>o_pos := o_pos fb + length ?s\<rparr>"
    let ?fa = "fa\<lparr>o_pos := o_pos fa + length ?s\<rparr>"
    let ?w2 = "?w1\<lparr>fs := fs_set_data (o_path fb) ?f (fs w), fds := AList.update b ?fb (fds ?w1)\<rparr>"
    have wr: "sys_write b ?s ?w1 = (int (length ?s), ?w2)"
      using less.prems by (subst sys_write_ok [of _ _ fb]) (simp_all add: update_conv)
    let ?j = "j\<lparr>i_data := ?f (i_data j)\<rparr>"
    have lt: "length (i_data i) - o_pos ?fa < length (i_data i) - o_pos fa"
      using False by (auto simp: FILEBUF_def)
    have "\<exists>X. file_copy_loop a b ?w2 =
        Some (0, ?w2\<lparr>fs := fs_set_data (o_path ?fb)
           (\<lambda>old. overwrite old (o_pos ?fb) (drop (o_pos ?fa) (i_data i))) (fs ?w2), fds := X\<rparr>) \<and>
      AList.delete b (AList.delete a X) = AList.delete b (AList.delete a (fds ?w2))"
      using less.prems
      by (intro less.hyps [OF lt, of _ _ ?j]) (auto simp: update_conv lookup_set_data overwrite_def)
    then obtain X where X: "file_copy_loop a b ?w2 =
        Some (0, ?w2\<lparr>fs := fs_set_data (o_path ?fb)
           (\<lambda>old. overwrite old (o_pos ?fb) (drop (o_pos ?fa) (i_data i))) (fs ?w2), fds := X\<rparr>)"
      "AList.delete b (AList.delete a X) = AList.delete b (AList.delete a (fds ?w2))" by blast
    have dr: "?s @ drop (o_pos ?fa) (i_data i) = drop (o_pos fa) (i_data i)"
      by (simp add: drop_drop add.commute min_def) (metis append_take_drop_id drop_drop add.commute append_Nil2 drop_all)
    have "fs_set_data (o_path ?fb) (\<lambda>old. overwrite old (o_pos ?fb) (drop (o_pos ?fa) (i_data i))) (fs ?w2) =
        fs_set_data (o_path fb) (\<lambda>old. overwrite old (o_pos fb) (drop (o_pos fa) (i_data i))) (fs w)"
      using overwrite_append [of _ "o_pos fb" ?s "drop (o_pos ?fa) (i_data i)"]
      unfolding dr by (simp add: set_data_twice)
    moreover have "AList.delete b (AList.delete a (fds ?w2)) = AList.delete b (AList.delete a (fds w))"
      using less.prems(4) by (simp add: delete_twist [of a b] delete_update_same delete_update)
    ultimately show ?thesis using rd wr False X
      by (subst file_copy_loop.simps) auto
  qed
qed


lemma walk_mono:
  assumes "\<And>r j. lookup tr r = Some j \<Longrightarrow> lookup tr' r = Some j" and "walk tr p ns = Inr q"
  shows "walk tr' p ns = Inr q"
  using assms(2)
proof (induction ns arbitrary: p)
  case (Cons n ns)
  then obtain i where "lookup tr p = Some i" "is_dir i" by (auto split: option.splits if_splits)
  moreover from this have "lookup tr' p = Some i" using assms(1) by blast
  ultimately show ?case using Cons by (auto split: if_splits)
qed simp

lemma resolve_mono:
  assumes "\<And>r j. lookup tr r = Some j \<Longrightarrow> lookup tr' r = Some j" and "resolve tr wd s = Inr q"
  shows "resolve tr' wd s = Inr q"
  using assms walk_mono [of tr tr'] by (auto simp: resolve_def split: if_splits)

lemma new_fd_fresh: "new_fd w \<notin> fst ` set (fds w)"
proof -
  have "(d, x) \<in> set xs \<Longrightarrow> d < foldr (\<lambda>(d, _) m. max (d + 1) m) xs 3"
    for d x and xs :: "(int \<times> open_file) list"
    by (induction xs) (auto simp: less_max_iff_disj)
  then show ?thesis unfolding new_fd_def by fastforce
qed

lemma lookup_update: "lookup (AList.update q i tr) r = (if r = q then Some i else lookup tr r)"
  by (simp add: lookup_def update_conv)

text \<open>The tree after a copy: the new file, or the old one with its first bytes replaced.\<close>

definition copied :: "path \<Rightarrow> string \<Rightarrow> world \<Rightarrow> fsys" where
  "copied q s w =
     fs_set_data q (\<lambda>old. overwrite old 0 s)
       (if lookup (fs w) q = None then AList.update q (new_inode (S_IFREG OR 0x180) q w) (fs w)
        else fs w)"

lemma lookup_copied:
  "lookup (copied q s w) r =
     (if r = q then
        (case lookup (fs w) q of
           None \<Rightarrow> Some ((new_inode (S_IFREG OR 0x180) q w)\<lparr>i_data := s\<rparr>)
         | Some j \<Rightarrow> Some (j\<lparr>i_data := s @ drop (length s) (i_data j)\<rparr>))
      else lookup (fs w) r)"
  by (auto simp: copied_def lookup_set_data overwrite_def new_inode_def lookup_update split: option.splits)

lemma S_ISDIR_new_file: "\<not> S_ISDIR (S_IFREG OR 0x180)"
  by (simp add: S_ISDIR_def file_types)

lemma is_dir_new_file [simp]: "\<not> is_dir (new_inode (S_IFREG OR 0x180) q w)"
  by (simp add: is_dir_def new_inode_def S_ISDIR_new_file)

lemma file_copy_ok:
  assumes w: "healthy w" and src: "resolve (fs w) (cwd w) source = Inr p" "lookup (fs w) p = Some i" "\<not> is_dir i"
    and dst: "resolve (fs w) (cwd w) dest = Inr q" "p \<noteq> q" "\<not> dir_at (fs w) q"
  shows "\<exists>n. file_copy source dest w = Some (0, w\<lparr>fs := copied q (i_data i) w, next_ino := n\<rparr>)"
proof -
  let ?tr = "if lookup (fs w) q = None then AList.update q (new_inode (S_IFREG OR 0x180) q w) (fs w) else fs w"
  let ?n = "if lookup (fs w) q = None then next_ino w + 1 else next_ino w"
  let ?b = "new_fd w"
  let ?w1 = "w\<lparr>fs := ?tr, next_ino := ?n, fds := (?b, \<lparr>o_path = q, o_pos = 0\<rparr>) # fds w\<rparr>"
  have op: "sys_open_creat dest w = (Inr ?b, ?w1)"
    using w dst by (auto simp: sys_open_creat_def on_path_def healthy_simps add_fd_def new_fd_def dir_at_def
        split: option.splits)
  have mono: "\<And>r j. lookup (fs w) r = Some j \<Longrightarrow> lookup ?tr r = Some j"
    by (auto simp: lookup_def update_conv)
  have src1: "resolve ?tr (cwd w) source = Inr p" by (rule resolve_mono [OF mono src(1)])
  obtain j where j: "lookup ?tr q = Some j"
    by (cases "lookup (fs w) q") (auto simp: lookup_def update_conv)
  let ?a = "new_fd ?w1"
  let ?w2 = "?w1\<lparr>fds := (?a, \<lparr>o_path = p, o_pos = 0\<rparr>) # fds ?w1\<rparr>"
  have or: "sys_open_read source ?w1 = (Inr ?a, ?w2)"
    using w src1 mono [OF src(2)] by (simp add: sys_open_read_def on_path_def healthy_simps add_fd_def)
  have "?a \<notin> fst ` set (fds ?w1)" by (rule new_fd_fresh)
  then have ab: "?a \<noteq> ?b" and fa: "?a \<notin> fst ` set (fds w)" by simp_all
  have fb: "?b \<notin> fst ` set (fds w)" by (rule new_fd_fresh)
  have "\<exists>X. file_copy_loop ?a ?b ?w2 =
      Some (0, ?w2\<lparr>fs := fs_set_data q (\<lambda>old. overwrite old 0 (drop 0 (i_data i))) (fs ?w2), fds := X\<rparr>) \<and>
    AList.delete ?b (AList.delete ?a X) = AList.delete ?b (AList.delete ?a (fds ?w2))"
    using file_copy_loop_ok [of ?w2 ?a "\<lparr>o_path = p, o_pos = 0\<rparr>" ?b "\<lparr>o_path = q, o_pos = 0\<rparr>" i j]
      w ab src(3) mono [OF src(2)] dst(2) j by simp
  then obtain X where X: "file_copy_loop ?a ?b ?w2 =
      Some (0, ?w2\<lparr>fs := copied q (i_data i) w, fds := X\<rparr>)"
    "AList.delete ?b (AList.delete ?a X) = AList.delete ?b (AList.delete ?a (fds ?w2))"
    by (auto simp: copied_def)
  have "AList.delete ?b (AList.delete ?a X) = fds w" using X(2) fa fb ab by simp
  moreover have "healthy ?w2" using w by simp
  ultimately have "file_copy source dest w = Some (0, ?w2\<lparr>fs := copied q (i_data i) w, fds := fds w\<rparr>)"
    using op or X(1) by (simp add: file_copy_def healthy_simps sys_close_def)
  then show ?thesis by (intro exI [of _ ?n]) (cases w, simp)
qed

subsection \<open>Properties\<close>

text \<open>
  Claim C17. Whatever fails while a file is sent, the client receives an initial part of what
  was asked for and nothing else: \<open>fd_copy\<close> never sends bytes out of order, repeated or
  beyond the count.
\<close>

theorem fd_copy_never_corrupts:
  assumes "fd_copy d Client count w = (r, w')"
  shows "\<exists>n \<le> nat count. sent w' = sent w @ take n (fd_rest d w)"
proof -
  obtain ok w1 where m: "malloc w = (ok, w1)" by fastforce
  then obtain x where "w1 = w\<lparr>faults := x\<rparr>"
    using next_fault_frame by (fastforce simp: malloc_def split: prod.splits)
  then have eq: "sent w1 = sent w" "fd_rest d w1 = fd_rest d w" by simp_all
  show ?thesis
  proof (cases ok)
    case True
    with assms m have "w' = fd_copy_loop d Client count w1" by (simp add: fd_copy_def)
    then show ?thesis using fd_copy_loop_prefix [of count d w1] eq by auto
  next
    case False
    with assms m eq show ?thesis by (intro exI [of _ 0]) (simp add: fd_copy_def)
  qed
qed

theorem fd_copy_never_corrupts_witness:
  "\<exists>n \<le> nat 6. sent (snd (fd_copy 3 Client 6 (small_world\<lparr>wr_results := [4]\<rparr>))) =
     sent (small_world\<lparr>wr_results := [4]\<rparr>) @ take n (fd_rest 3 (small_world\<lparr>wr_results := [4]\<rparr>))"
  by (rule fd_copy_never_corrupts [where r = "fst (fd_copy 3 Client 6 (small_world\<lparr>wr_results := [4]\<rparr>))"]) simp

text \<open>
  Claim C13. \<open>dir_remove\<close> on a directory of a well-formed tree returns 0 and removes that
  directory with everything under it and nothing else, provided that every path under it
  fits the buffer of \<open>PATH_LEN\<close> bytes; the depth of the tree bounds the recursion.
\<close>

theorem dir_remove_removes:
  assumes "healthy w" and "fs_ok (fs w)" and "names_path dir p" and "p \<noteq> []" and "dir_at (fs w) p"
    and "fits k dir p (fs w)"
  shows "dir_remove k dir w = Some (0, w\<lparr>fs := without p (fs w)\<rparr>)"
  using assms dir_atD by (intro dir_remove_ok) auto

theorem dir_remove_removes_witness:
  "dir_remove 2 ''/srv/d/'' small_world = Some (0, small_world\<lparr>fs := without [''srv'', ''d''] (fs small_world)\<rparr>)"
proof (rule dir_remove_removes)
  show "fs_ok (fs small_world)" by code_simp
  show "names_path ''/srv/d/'' [''srv'', ''d'']" by code_simp
  show "dir_at (fs small_world) [''srv'', ''d'']" by code_simp
  show "fits 2 ''/srv/d/'' [''srv'', ''d''] (fs small_world)" by code_simp
qed simp_all

text \<open>
  Claim C18. \<open>file_copy\<close> returns 0 and leaves every other file as it was; the destination
  holds the bytes of the source, followed by what an existing longer destination held beyond
  them, because it is opened without truncation.
\<close>

theorem file_copy_copies:
  assumes "healthy w" and "resolve (fs w) (cwd w) source = Inr p" and "lookup (fs w) p = Some i"
    and "\<not> is_dir i" and "resolve (fs w) (cwd w) dest = Inr q" and "p \<noteq> q" and "\<not> dir_at (fs w) q"
  shows "\<exists>w' j. file_copy source dest w = Some (0, w') \<and> lookup (fs w') q = Some j \<and>
    i_data j = i_data i @
      (case lookup (fs w) q of None \<Rightarrow> [] | Some old \<Rightarrow> drop (length (i_data i)) (i_data old)) \<and>
    (\<forall>r. r \<noteq> q \<longrightarrow> lookup (fs w') r = lookup (fs w) r) \<and> fds w' = fds w"
proof -
  obtain n where "file_copy source dest w = Some (0, w\<lparr>fs := copied q (i_data i) w, next_ino := n\<rparr>)"
    using file_copy_ok [OF assms] by blast
  then show ?thesis by (cases "lookup (fs w) q") (auto simp: lookup_copied)
qed

theorem file_copy_copies_witness:
  "\<exists>w' j. file_copy ''/srv/d/b'' ''/srv/a.txt'' small_world = Some (0, w') \<and>
    lookup (fs w') [''srv'', ''a.txt''] = Some j \<and>
    i_data j = i_data (a_file ''bee'') @
      (case lookup (fs small_world) [''srv'', ''a.txt''] of None \<Rightarrow> []
       | Some old \<Rightarrow> drop (length (i_data (a_file ''bee''))) (i_data old)) \<and>
    (\<forall>r. r \<noteq> [''srv'', ''a.txt''] \<longrightarrow> lookup (fs w') r = lookup (fs small_world) r) \<and>
    fds w' = fds small_world"
proof (rule file_copy_copies [where p = "[''srv'', ''d'', ''b'']"])
  show "resolve (fs small_world) (cwd small_world) ''/srv/d/b'' = Inr [''srv'', ''d'', ''b'']" by code_simp
  show "lookup (fs small_world) [''srv'', ''d'', ''b''] = Some (a_file ''bee'')" by code_simp
  show "\<not> is_dir (a_file ''bee'')" by code_simp
  show "resolve (fs small_world) (cwd small_world) ''/srv/a.txt'' = Inr [''srv'', ''a.txt'']" by code_simp
  show "\<not> dir_at (fs small_world) [''srv'', ''a.txt'']" by code_simp
qed simp_all

text \<open>
  A non-empty directory whose path string has \<open>PATH_LEN - 1\<close> bytes: the path printed for an
  entry is the path of the directory again, and the recursion does not end at any depth.
\<close>

lemma dir_remove_never_returns:
  assumes "healthy w" and "resolve (fs w) (cwd w) dir = Inr p" and "dir_at (fs w) p" and "fs_ok (fs w)"
    and "children (fs w) p = e # es" and "length dir = PATH_LEN - 1"
  shows "dir_remove k dir w = None"
proof (induction k)
  case (Suc k)
  have "p @ [e] \<in> fst ` set (fs w)" using assms(5) set_children [of e "fs w" p] by simp
  then have "proper e" using fs_ok_proper [OF assms(4), of p "[e]"] by simp
  then have "\<not> dot_name e" by (auto simp: dot_name_def proper_def)
  moreover have "entry_path dir e = dir" using assms(6) by (simp add: entry_path_def)
  moreover obtain i where "lookup (fs w) p = Some i" "is_dir i"
    using assms(3) by (auto simp: dir_at_def split: option.splits)
  ultimately show ?case
    using Suc sys_unlink_ok [OF assms(1,2)] sys_opendir_ok [OF assms(1,2,3)] assms(5)
    by (simp add: fs_unlink_def with_fs_def healthy_simps [OF assms(1)] dot_name_def)
qed simp

end
