(* ===== verification/Mime.thy ===== *)
theory Mime
  imports World
begin

section \<open>File types: mime.c\<close>

text \<open>
  \<open>mime_init\<close> and \<open>mime_get_fd\<close>. The library that guesses a type from the first bytes of a
  file is a parameter: \<open>magic\<close> maps the bytes to the name it returns, \<open>magic_load\<close> and
  \<open>magic_open\<close> are the results of the two calls that set it up. The lemmas show that asking
  for a type does not move the position of the descriptor, and which test on the mode
  decides the answer.
\<close>

definition mime_init :: "'t option \<Rightarrow> ('t \<Rightarrow> int) \<Rightarrow> int \<times> 't option" where
  "mime_init magic_open magic_load =
     (case magic_open of None \<Rightarrow> (1, None) | Some t \<Rightarrow> (magic_load t, Some t))"

definition fd_pos :: "int \<Rightarrow> world \<Rightarrow> nat option" where
  "fd_pos d w = map_option o_pos (map_of (fds w) d)"

text \<open>
  \<open>None\<close>: the descriptor is not open, or the read fails and the length \<open>-1\<close> is passed to the
  library, which would read out of bounds.
\<close>

definition mime_get_fd :: "(string \<Rightarrow> string) \<Rightarrow> int \<Rightarrow> stat \<Rightarrow> world \<Rightarrow> (string \<times> world) option" where
  "mime_get_fd magic d sb w =
     (let m = st_mode sb in
      if m AND S_IFREG \<noteq> 0 then do {
        prev_pos \<leftarrow> fd_pos d w;
        let w1 = sys_lseek d 0 w;
        let (r, w2) = sys_read d 64 w1;
        let w3 = sys_lseek d prev_pos w2;
        s \<leftarrow> r;
        Some (magic s, w3)
      }
      else if m AND S_IFDIR \<noteq> 0 then Some (''application/x-directory'', w)
      else if m AND S_IFSOCK \<noteq> 0 then Some (''application/x-socket'', w)
      else if m AND S_IFLNK \<noteq> 0 then Some (''application/x-symlink'', w)
      else if m AND S_IFBLK \<noteq> 0 then Some (''application/x-block-device'', w)
      else if m AND S_IFCHR \<noteq> 0 then Some (''application/x-character-device'', w)
      else Some (''application/x-fifo'', w))"

subsection \<open>Lemmas\<close>

lemma sys_lseek_twice: "sys_lseek d p (sys_lseek d q w) = sys_lseek d p w"
  by (auto simp: sys_lseek_def update_conv split: option.splits)

lemma sys_lseek_same: "fd_pos d w = Some p \<Longrightarrow> sys_lseek d p w = w"
  by (auto simp: sys_lseek_def fd_pos_def update_triv split: option.splits)

lemma sys_read_as_lseek:
  assumes "healthy w" and "map_of (fds w) d = Some f" and "lookup (fs w) (o_path f) = Some i" and "\<not> is_dir i"
  shows "sys_read d n w = (Some (take n (drop (o_pos f) (i_data i))),
    sys_lseek d (o_pos f + length (take n (drop (o_pos f) (i_data i)))) w)"
  using assms by (simp add: sys_read_def healthy_simps fd_inode_def Let_def)

text \<open>On a regular file the answer is that of the library for the first 64 bytes, and nothing changes.\<close>

lemma mime_get_fd_regular:
  assumes "healthy w" and "map_of (fds w) d = Some f" and "lookup (fs w) (o_path f) = Some i"
    and "\<not> is_dir i" and "st_mode sb AND S_IFREG \<noteq> 0"
  shows "mime_get_fd magic d sb w = Some (magic (take 64 (i_data i)), w)"
proof -
  let ?f = "f\<lparr>o_pos := 0\<rparr>"
  let ?w = "sys_lseek d 0 w"
  have "healthy ?w" "map_of (fds ?w) d = Some ?f" "lookup (fs ?w) (o_path ?f) = Some i"
    using assms by (simp_all add: sys_lseek_def update_conv)
  from sys_read_as_lseek [OF this assms(4), of 64]
  have "sys_read d 64 ?w = (Some (take 64 (i_data i)), sys_lseek d (length (take 64 (i_data i))) ?w)" by simp
  moreover have "fd_pos d w = Some (o_pos f)" using assms(2) by (simp add: fd_pos_def)
  moreover from this have "sys_lseek d (o_pos f) w = w" by (rule sys_lseek_same)
  ultimately show ?thesis using assms(5) by (simp add: mime_get_fd_def Let_def sys_lseek_twice)
qed

text \<open>
  The tests of the source are on single bits of the mode: a socket and a symbolic link have
  the bit of a regular file, a block device has the bit of a directory.
\<close>

lemma mode_bits_overlap:
  "S_IFSOCK AND S_IFREG \<noteq> 0" "S_IFLNK AND S_IFREG \<noteq> 0" "S_IFBLK AND S_IFREG = 0" "S_IFBLK AND S_IFDIR \<noteq> 0"
  by (simp_all add: file_types)

end
