(* ===== verification/SendFile.thy ===== *)
theory SendFile
  imports Http Files Mime
begin

section \<open>Sending a file: instance.c, ranges and content\<close>

text \<open>
  \<open>bytes_to_send\<close> and \<open>write_file\<close>. The range arithmetic of the source is unsigned with 64
  bits, so \<open>from\<close>, \<open>to\<close> and \<open>count\<close> are words and wrap around. The buffer \<open>a\<close> holds the value
  of the Range field first and the extra response headers afterwards. The lemmas give the
  response of the server for a whole file and for a range as the client parses it.
\<close>

subsection \<open>Definitions\<close>

definition RANGE_BUF :: nat where
  "RANGE_BUF = RBUFFER + MIMETYPELEN + 16"

text \<open>
  The two numbers of a Range value: \<open>Inl\<close> when a separator is missing. An empty second
  number means the end of the file.
\<close>

definition parse_range :: "string \<Rightarrow> int \<Rightarrow> int + (64 word \<times> 64 word)" where
  "parse_range a fsize =
     (case find_sub ''='' a of
        None \<Rightarrow> Inl ERR_NOTHTTP
      | Some eq \<Rightarrow>
          (case find_sub ''-'' (drop eq a) of
             None \<Rightarrow> Inl ERR_NOTHTTP
           | Some sep \<Rightarrow>
               (let from = word_of_int (c_strtol 0 (take (sep - 1) (drop (eq + 1) a)));
                    to_text = drop (eq + sep + 1) a;
                    to = word_of_int (c_strtol 0 to_text)
                in Inr (from, if to = 0 \<and> to_text = '''' then word_of_int (fsize - 1) else to))))"

text \<open>The extra header lines that are in the buffer when it is read as a C string.\<close>

definition buffer_text :: "string \<Rightarrow> string" where
  "buffer_text s = takeWhile (\<lambda>c. c \<noteq> NUL) s"

definition send_mime :: "(string \<Rightarrow> string) \<Rightarrow> weborf_configuration_t \<Rightarrow> connection_t \<Rightarrow> string \<times> int \<Rightarrow>
    world \<Rightarrow> (string \<times> world) option" where
  "send_mime magic conf c hb w =
     (if send_content_type conf then do {
        (mime, w1) \<leftarrow> mime_get_fd magic (strfile_fd c) (strfile_stat c) w;
        (out, _) \<leftarrow> put_text hb (''Content-Type: '' @ mime @ CRLF);
        Some (buffer_text out, w1)
      }
      else Some (buffer_text (fst hb), w))"

definition bytes_to_send :: "(string \<Rightarrow> string) \<Rightarrow> weborf_configuration_t \<Rightarrow> connection_t \<Rightarrow> world \<Rightarrow>
    (64 word \<times> int \<times> connection_t \<times> world) option" where
  "bytes_to_send magic conf c w = do {
     range_header \<leftarrow> get_param_value (buf c) (http_param c) ''Range'' RBUFFER 5;
     let mtime = st_mtime (strfile_stat c);
     let fsize = st_size (strfile_stat c);
     etag \<leftarrow> (case range_header of
         None \<Rightarrow> Some mtime
       | Some _ \<Rightarrow> do {
           if_range \<leftarrow> get_param_value (buf c) (http_param c) ''If-Range'' RBUFFER 8;
           case if_range of
             None \<Rightarrow> Some mtime
           | Some b \<Rightarrow> if b = '''' then None else Some (c_strtol 0 (tl b))
         });
     if range_header \<noteq> None \<and> mtime = etag
     then (case parse_range (the range_header) fsize of
             Inl e \<Rightarrow> Some (0, e, c, w)
           | Inr (from, to) \<Rightarrow> do {
               hb \<leftarrow> put_text ([], int RANGE_BUF)
                 (''Accept-Ranges: bytes'' @ CRLF @ ''Content-Range: bytes '' @ show_nat (unat from) @ ''-'' @
                  show_nat (unat to) @ ''/'' @ show_int fsize @ CRLF);
               let count = to - from + 1;
               if word_of_int fsize \<le> from \<or> word_of_int fsize < from + count
               then Some (0, ERR_RANGE_NOT_SATISFIABLE, c, w)
               else do {
                 let w1 = (if from \<noteq> 0 then sys_lseek (strfile_fd c) (unat from) w else w);
                 (headers, w2) \<leftarrow> send_mime magic conf c hb w1;
                 (_, c1, w3) \<leftarrow> send_http_header 206 (Some count) (Some headers) True mtime c w2;
                 Some (count, 0, c1, w3)
               }
             })
     else do {
       let count = word_of_int fsize;
       (headers, w1) \<leftarrow> send_mime magic conf c ([], int RANGE_BUF) w;
       (_, c1, w2) \<leftarrow> send_http_header 200 (Some count) (Some headers) True mtime c w1;
       Some (count, 0, c1, w2)
     }
   }"

text \<open>\<open>count\<close> is unsigned here and the parameter of \<open>fd_copy\<close> is signed.\<close>

definition write_file :: "(string \<Rightarrow> string) \<Rightarrow> weborf_configuration_t \<Rightarrow> connection_t \<Rightarrow> world \<Rightarrow>
    (int \<times> connection_t \<times> world) option" where
  "write_file magic conf c w = do {
     (r, c1, w1) \<leftarrow> check_etag c w;
     if r = 0 then Some (0, c1, w1)
     else do {
       (count, errcode, c2, w2) \<leftarrow> bytes_to_send magic conf c1 w1;
       if errcode \<noteq> 0 then Some (errcode, c2, w2)
       else (case fd_copy (strfile_fd c2) Client (sint count) w2 of (res, w3) \<Rightarrow> Some (res, c2, w3))
     }
   }"

subsection \<open>Lemmas\<close>

lemma send_mime_ok:
  assumes w: "healthy w" "map_of (fds w) (strfile_fd c) = Some f" "lookup (fs w) (o_path f) = Some i" "\<not> is_dir i"
    and m: "st_mode (strfile_stat c) AND S_IFREG \<noteq> 0" "good_line (magic (take 64 (i_data i)))"
      "NUL \<notin> set (magic (take 64 (i_data i)))" "length (magic (take 64 (i_data i))) \<le> 20"
    and ls: "NUL \<notin> set (header_text ls)" "length (header_text ls) \<le> 110" "list_all good_line ls"
  shows "\<exists>ms. send_mime magic conf c (header_text ls, int RANGE_BUF - int (length (header_text ls))) w =
      Some (header_text ms, w) \<and> list_all good_line ms \<and> length (header_text ms) \<le> 800"
proof (cases "send_content_type conf")
  case False
  have "buffer_text (header_text ls) = header_text ls"
    using ls(1) by (auto simp: buffer_text_def takeWhile_eq_all_conv)
  with False show ?thesis using ls by (intro exI [of _ ls]) (simp add: send_mime_def)
next
  case True
  let ?l = "''Content-Type: '' @ magic (take 64 (i_data i))"
  have t: "''Content-Type: '' @ magic (take 64 (i_data i)) @ CRLF = header_text [?l]" by (simp add: header_text_def)
  have len: "length (header_text ls) + length (header_text [?l]) < RANGE_BUF"
    using ls(2) m(4) by (simp add: header_text_def RANGE_BUF_def buffer_sizes)
  have "NUL \<notin> set (header_text (ls @ [?l]))" using ls(1) m(3) by (auto simp: header_text_def)
  then have "buffer_text (header_text ls @ header_text [?l]) = header_text (ls @ [?l])"
    by (auto simp: buffer_text_def takeWhile_eq_all_conv header_text_append)
  moreover have "put_text (header_text ls, int RANGE_BUF - int (length (header_text ls))) (header_text [?l]) =
      Some (header_text ls @ header_text [?l],
        int RANGE_BUF - int (length (header_text ls)) - int (length (header_text [?l])))"
    using len by (intro put_text_fits) auto
  ultimately have "send_mime magic conf c (header_text ls, int RANGE_BUF - int (length (header_text ls))) w =
      Some (header_text (ls @ [?l]), w)"
    using True mime_get_fd_regular [OF w m(1)] by (simp only: send_mime_def t if_True bind.bind_lunit prod.case)
  moreover have "length (header_text (ls @ [?l])) \<le> 800"
    using len by (simp add: header_text_append RANGE_BUF_def buffer_sizes)
  moreover have "list_all good_line (ls @ [?l])" using ls(3) m(2) by (auto simp: good_line_def)
  ultimately show ?thesis by blast
qed


definition range_line :: "nat \<Rightarrow> nat \<Rightarrow> int \<Rightarrow> string list" where
  "range_line a b n = [''Accept-Ranges: bytes'',
     ''Content-Range: bytes '' @ show_nat a @ ''-'' @ show_nat b @ ''/'' @ show_int n]"

lemma fd_rest_at:
  "map_of (fds w) d = Some f \<Longrightarrow> lookup (fs w) (o_path f) = Some i \<Longrightarrow> \<not> is_dir i \<Longrightarrow>
     fd_rest d w = drop (o_pos f) (i_data i)"
  by (simp add: fd_rest_def fd_inode_def)

lemma fd_copy_file:
  assumes "healthy w" and "map_of (fds w) d = Some f" and "lookup (fs w) (o_path f) = Some i" and "\<not> is_dir i"
  shows "\<exists>w'. fd_copy d Client count w = (0, w') \<and>
    sent w' = sent w @ take (nat count) (drop (o_pos f) (i_data i))"
  using fd_copy_loop_healthy [OF assms(1), of d count] fd_rest_at [OF assms(2-)]
  by (simp add: fd_copy_def healthy_simps [OF assms(1)])

lemma count_conversions:
  assumes "n < 2 ^ 63"
  shows "unat (of_nat n :: 64 word) = n" and "sint (of_nat n :: 64 word) = int n"
proof -
  show "unat (of_nat n :: 64 word) = n" using assms by (simp add: unat_of_nat)
  have "int n < 2 ^ 63" using assms by simp
  then have "signed_take_bit 63 (int n) = int n" by (intro signed_take_bit_int_eq_self) auto
  then show "sint (of_nat n :: 64 word) = int n" by (simp add: signed_of_nat)
qed


text \<open>The descriptor of the connection is open at the start of a regular file with these bytes.\<close>

definition serves :: "(string \<Rightarrow> string) \<Rightarrow> connection_t \<Rightarrow> string \<Rightarrow> world \<Rightarrow> bool" where
  "serves magic c s w \<longleftrightarrow> healthy w \<and> keep_alive c \<and>
     map_option o_pos (map_of (fds w) (strfile_fd c)) = Some 0 \<and>
     map_option i_data (fd_inode (strfile_fd c) w) = Some s \<and>
     map_option is_dir (fd_inode (strfile_fd c) w) = Some False \<and>
     st_size (strfile_stat c) = int (length s) \<and> st_mode (strfile_stat c) AND S_IFREG \<noteq> 0 \<and>
     length s < 2 ^ 63 \<and> good_line (magic (take 64 s)) \<and> NUL \<notin> set (magic (take 64 s)) \<and>
     length (magic (take 64 s)) \<le> 20"

lemma servesE:
  assumes "serves magic c s w"
  obtains f i where "healthy w" and "keep_alive c" and "map_of (fds w) (strfile_fd c) = Some f"
    and "o_pos f = 0" and "lookup (fs w) (o_path f) = Some i" and "\<not> is_dir i" and "i_data i = s"
    and "st_size (strfile_stat c) = int (length s)" and "st_mode (strfile_stat c) AND S_IFREG \<noteq> 0"
    and "length s < 2 ^ 63" and "good_line (magic (take 64 s))" and "NUL \<notin> set (magic (take 64 s))"
    and "length (magic (take 64 s)) \<le> 20"
  using assms by (auto simp: serves_def fd_inode_def bind_Some_iff split: option.splits)

lemma write_file_no_etag:
  assumes "get_param_value (buf c) (http_param c) ''If-None-Match'' RBUFFER 13 = Some None"
    and "bytes_to_send magic conf c w = Some (count, 0, c2, w2)"
    and "fd_copy (strfile_fd c2) Client (sint count) w2 = (r, w3)"
  shows "write_file magic conf c w = Some (r, c2, w3)"
  using assms by (simp add: write_file_def check_etag_def)

lemma write_file_whole_aux:
  assumes sv: "serves magic c s w"
    and et: "get_param_value (buf c) (http_param c) ''If-None-Match'' RBUFFER 13 = Some None"
    and rg: "get_param_value (buf c) (http_param c) ''Range'' RBUFFER 5 = Some None"
  shows "\<exists>h c' w'. write_file magic conf c w = Some (0, c', w') \<and> sent w' = sent w @ h @ s \<and>
    parse_response (h @ s @ rest) = Some (200, s, rest)"
proof -
  from sv obtain f i where h: "healthy w" "keep_alive c" "map_of (fds w) (strfile_fd c) = Some f" "o_pos f = 0"
    "lookup (fs w) (o_path f) = Some i" "\<not> is_dir i" "i_data i = s" "st_size (strfile_stat c) = int (length s)"
    "st_mode (strfile_stat c) AND S_IFREG \<noteq> 0" "length s < 2 ^ 63"
    "good_line (magic (take 64 s))" "NUL \<notin> set (magic (take 64 s))" "length (magic (take 64 s)) \<le> 20"
    by (rule servesE)
  note cv = count_conversions [OF h(10)]
  have "\<exists>ms. send_mime magic conf c (header_text [], int RANGE_BUF - int (length (header_text []))) w =
      Some (header_text ms, w) \<and> list_all good_line ms \<and> length (header_text ms) \<le> 800"
    using h by (intro send_mime_ok) (auto simp: header_text_def)
  then obtain ms where ms: "send_mime magic conf c ([], int RANGE_BUF) w = Some (header_text ms, w)"
    "list_all good_line ms" "length (header_text ms) \<le> 800" by (auto simp: header_text_def)
  obtain hd where hd: "send_http_header 200 (Some (of_nat (length s))) (Some (header_text ms)) True
        (st_mtime (strfile_stat c)) c w =
      Some (0, c\<lparr>status_code := 200\<rparr>, w\<lparr>sent := sent w @ hd\<rparr>)"
    "parse_response (hd @ s @ rest) = Some (200, s, rest)"
    using send_http_header_message [where w = w and code = 200 and ls = ms and c = c and
        n = "of_nat (length s)" and body = s and rest = rest and ts = "st_mtime (strfile_stat c)"] h ms cv
    by auto
  let ?c = "c\<lparr>status_code := 200\<rparr>"
  have "bytes_to_send magic conf c w =
      Some (of_nat (length s), 0, ?c, w\<lparr>sent := sent w @ hd\<rparr>)"
    using rg ms(1) hd(1) h(8) by (simp add: bytes_to_send_def)
  moreover obtain w3 where "fd_copy (strfile_fd ?c) Client (int (length s)) (w\<lparr>sent := sent w @ hd\<rparr>) = (0, w3)"
    "sent w3 = (sent w @ hd) @ s"
    using fd_copy_file [of "w\<lparr>sent := sent w @ hd\<rparr>" "strfile_fd ?c" f i "int (length s)"] h by auto
  ultimately have "write_file magic conf c w = Some (0, ?c, w3)" and "sent w3 = sent w @ hd @ s"
    using write_file_no_etag [OF et] cv(2) by auto
  with hd(2) show ?thesis by blast
qed


lemma is_digit_no_dash: "CHR ''-'' \<notin> set (show_nat n)"
proof
  assume "CHR ''-'' \<in> set (show_nat n)"
  then have "is_digit_in 10 (CHR ''-'')" using show_nat_digits [of n] by (auto simp: list_all_iff)
  then show False using is_digit_10_range [of "CHR ''-''"] by simp
qed

lemma parse_range_ok:
  assumes "a < 2 ^ 63" and "b < 2 ^ 63"
  shows "parse_range (''bytes='' @ show_nat a @ ''-'' @ show_nat b) n = Inr (of_nat a, of_nat b)"
proof -
  let ?v = "''bytes='' @ show_nat a @ ''-'' @ show_nat b"
  have "find_sub ''='' ?v = Some 5" by simp
  moreover have "drop 5 ?v = (CHR ''='' # show_nat a) @ CHR ''-'' # show_nat b" by simp
  moreover have "find_sub ''-'' ((CHR ''='' # show_nat a) @ CHR ''-'' # show_nat b) = Some (Suc (length (show_nat a)))"
    using is_digit_no_dash [of a] by (subst find_sub_single) auto
  moreover have "drop (5 + Suc (length (show_nat a)) + 1) ?v = show_nat b" by (simp add: numeral_eq_Suc)
  moreover have "take (Suc (length (show_nat a)) - 1) (drop (5 + 1) ?v) = show_nat a" by simp
  moreover have "show_nat b \<noteq> []" using show_nat_digits [of b] by simp
  ultimately show ?thesis
    using c_strtol_0_show [OF below_LONG_MAX [OF assms(1)], of "[]"] c_strtol_0_show [OF below_LONG_MAX [OF assms(2)], of "[]"]
    unfolding parse_range_def by (simp only: option.case Let_def simp_thms if_False) simp
qed

lemma show_nat_no_NUL: "NUL \<notin> set (show_nat n)"
proof
  assume "NUL \<in> set (show_nat n)"
  then have "is_digit_in 10 NUL" using show_nat_digits [of n] by (auto simp: list_all_iff)
  then show False using is_digit_10_range [of NUL] by simp
qed

lemma show_nat_63_length: "n < 2 ^ 63 \<Longrightarrow> length (show_nat n) \<le> 19"
  by (intro show_nat_length) auto

lemma range_line_ok:
  assumes "a < 2 ^ 63" and "b < 2 ^ 63" and "n < 2 ^ 63"
  shows "list_all good_line (range_line a b (int n))" and "NUL \<notin> set (header_text (range_line a b (int n)))"
    and "length (header_text (range_line a b (int n))) \<le> 110"
  using assms show_nat_no_CR show_nat_no_NUL show_nat_63_length [of a] show_nat_63_length [of b]
    show_nat_63_length [of n]
  by (auto simp: range_line_def good_line_def header_text_def show_int_def)

lemma bytes_to_send_range:
  assumes sv: "serves magic c s w"
    and rg: "get_param_value (buf c) (http_param c) ''Range'' RBUFFER 5 =
      Some (Some (''bytes='' @ show_nat a @ ''-'' @ show_nat b))"
    and ir: "get_param_value (buf c) (http_param c) ''If-Range'' RBUFFER 8 = Some None"
    and ab: "a < length s" "b < length s"
  defines "count \<equiv> of_nat b - of_nat a + 1 :: 64 word"
  shows "\<exists>ms w1. bytes_to_send magic conf c w = Some (count, 0, c\<lparr>status_code := 206\<rparr>,
      w1\<lparr>sent := sent w @ http_head (head_lines 206 (Some count) ms True (st_mtime (strfile_stat c)) c)\<rparr>) \<and>
    list_all good_line ms \<and> healthy w1 \<and> fd_rest (strfile_fd c) w1 = drop a s"
proof -
  from sv obtain f i where h: "healthy w" "keep_alive c" "map_of (fds w) (strfile_fd c) = Some f" "o_pos f = 0"
    "lookup (fs w) (o_path f) = Some i" "\<not> is_dir i" "i_data i = s" "st_size (strfile_stat c) = int (length s)"
    "st_mode (strfile_stat c) AND S_IFREG \<noteq> 0" "length s < 2 ^ 63"
    "good_line (magic (take 64 s))" "NUL \<notin> set (magic (take 64 s))" "length (magic (take 64 s)) \<le> 20"
    by (rule servesE)
  let ?fd = "strfile_fd c" and ?mt = "st_mtime (strfile_stat c)"
  have lt: "a < 2 ^ 63" "b < 2 ^ 63" using ab h(10) by auto
  note cva = count_conversions [OF lt(1)] and cvb = count_conversions [OF lt(2)]
    and cvs = count_conversions [OF h(10)]
  let ?from = "of_nat a :: 64 word" and ?to = "of_nat b :: 64 word"
  have fc: "?from + count = of_nat (Suc b)" by (simp add: count_def)
  have "Suc b < 2 ^ 64" using lt(2) by simp
  then have "unat (of_nat (Suc b) :: 64 word) = Suc b" by (simp only: unat_of_nat) simp
  then have sat: "\<not> (word_of_int (int (length s)) \<le> ?from \<or> word_of_int (int (length s)) < ?from + count)"
    using cva cvs ab unfolding fc by (simp add: word_le_nat_alt word_less_nat_alt del: of_nat_Suc)
  define w1 where "w1 = (if ?from \<noteq> 0 then sys_lseek ?fd (unat ?from) w else w)"
  have zero: "?from = 0 \<longleftrightarrow> a = 0" using arg_cong [of ?from 0 unat] cva(1) by (auto simp del: unat_eq_zero)
  have w1: "\<exists>f1. map_of (fds w1) ?fd = Some f1 \<and> o_pos f1 = a \<and> o_path f1 = o_path f"
    and w1': "healthy w1" "fs w1 = fs w" "sent w1 = sent w"
    using h(1,3,4) cva(1) zero by (auto simp: w1_def sys_lseek_def update_conv)
  from w1 obtain f1 where f1: "map_of (fds w1) ?fd = Some f1" "o_pos f1 = a" "o_path f1 = o_path f" by blast
  let ?ls = "range_line a b (int (length s))"
  note rl = range_line_ok [OF lt(1,2) h(10)]
  have hb: "put_text ([], int RANGE_BUF)
      (''Accept-Ranges: bytes'' @ CRLF @ ''Content-Range: bytes '' @ show_nat (unat ?from) @ ''-'' @
       show_nat (unat ?to) @ ''/'' @ show_int (int (length s)) @ CRLF) =
      Some (header_text ?ls, int RANGE_BUF - int (length (header_text ?ls)))"
    using put_text_fits [of "header_text ?ls" "int RANGE_BUF" "[]"] rl(3) cva(1) cvb(1)
    by (simp add: range_line_def header_text_def RANGE_BUF_def buffer_sizes)
  obtain ms where ms: "send_mime magic conf c (header_text ?ls, int RANGE_BUF - int (length (header_text ?ls))) w1 =
      Some (header_text ms, w1)" "list_all good_line ms" "length (header_text ms) \<le> 800"
    using send_mime_ok [OF w1'(1) f1(1), of i magic ?ls conf] h w1' f1 rl by auto
  have "send_http_header 206 (Some count) (Some (header_text ms)) True ?mt c w1 =
      Some (0, c\<lparr>status_code := 206\<rparr>, w1\<lparr>sent := sent w1 @ http_head (head_lines 206 (Some count) ms True ?mt c)\<rparr>)"
    using w1'(1) ms(3) by (intro send_http_header_ok head_lines_short) simp_all
  then have "bytes_to_send magic conf c w = Some (count, 0, c\<lparr>status_code := 206\<rparr>,
      w1\<lparr>sent := sent w @ http_head (head_lines 206 (Some count) ms True ?mt c)\<rparr>)"
    unfolding bytes_to_send_def rg ir h(8) bind.bind_lunit Let_def option.case option.sel
      parse_range_ok [OF lt(1,2)] sum.case prod.case hb count_def [symmetric] w1_def [symmetric]
    using sat ms(1) w1'(3) by simp
  moreover have "fd_rest ?fd w1 = drop a s" using fd_rest_at [OF f1(1)] f1(2,3) h w1'(2) by simp
  ultimately show ?thesis using ms(2) w1'(1) by blast
qed

lemma write_file_range_aux:
  assumes sv: "serves magic c s w"
    and et: "get_param_value (buf c) (http_param c) ''If-None-Match'' RBUFFER 13 = Some None"
    and rg: "get_param_value (buf c) (http_param c) ''Range'' RBUFFER 5 =
      Some (Some (''bytes='' @ show_nat a @ ''-'' @ show_nat b))"
    and ir: "get_param_value (buf c) (http_param c) ''If-Range'' RBUFFER 8 = Some None"
    and ab: "a \<le> b" "b < length s"
  defines "body \<equiv> take (b - a + 1) (drop a s)"
  shows "\<exists>h c' w'. write_file magic conf c w = Some (0, c', w') \<and> sent w' = sent w @ h @ body \<and>
    parse_response (h @ body @ rest) = Some (206, body, rest)"
proof -
  define n where "n = b - a + 1"
  have "length s < 2 ^ 63" and ka: "keep_alive c" using sv by (simp_all add: serves_def)
  then have n: "n < 2 ^ 63" using ab by (auto simp: n_def)
  note cv = count_conversions [OF n]
  have count: "of_nat b - of_nat a + 1 = (of_nat n :: 64 word)" using ab by (simp add: of_nat_diff n_def)
  let ?mt = "st_mtime (strfile_stat c)" and ?c = "c\<lparr>status_code := 206\<rparr>"
  obtain ms w1 where bs: "bytes_to_send magic conf c w = Some (of_nat n, 0, ?c,
      w1\<lparr>sent := sent w @ http_head (head_lines 206 (Some (of_nat n)) ms True ?mt c)\<rparr>)"
    and ms: "list_all good_line ms" and w1: "healthy w1" "fd_rest (strfile_fd c) w1 = drop a s"
    using bytes_to_send_range [OF sv rg ir _ ab(2), of conf] ab count by auto
  let ?hl = "head_lines 206 (Some (of_nat n)) ms True ?mt c"
  let ?w = "w1\<lparr>sent := sent w @ http_head ?hl\<rparr>"
  have bd: "body = take n (drop a s)" and bl: "length body = n" using ab by (simp_all add: body_def n_def)
  have "fd_copy (strfile_fd ?c) Client (int n) ?w = (0, fd_copy_loop (strfile_fd c) Client (int n) ?w)"
    using w1(1) by (simp add: fd_copy_def healthy_simps)
  then have "write_file magic conf c w = Some (0, ?c, fd_copy_loop (strfile_fd c) Client (int n) ?w)"
    using write_file_no_etag [OF et bs] cv(2) by simp
  moreover have "sent (fd_copy_loop (strfile_fd c) Client (int n) ?w) = sent w @ http_head ?hl @ body"
    using fd_copy_loop_healthy [of ?w] w1 by (simp add: bd)
  moreover have "parse_response (http_head ?hl @ body @ rest) = Some (206, body, rest)"
    using ms ka cv n bl
    by (simp add: parse_response_def read_head_http_head head_lines_good status_of_head_lines
        content_length_head_lines)
  ultimately show ?thesis by blast
qed

lemma quote_not_digit: "\<not> is_digit_in 36 (CHR 0x22)"
  by code_simp

lemma etag_value:
  assumes "0 \<le> t" and "t < 2 ^ 31"
  shows "c_strtol 0 (tl (QUOTE @ show_int (to_int32 t) @ QUOTE)) = t"
proof -
  have "to_int32 t = t" using assms by (simp add: to_int32_def)
  then show ?thesis using assms c_strtol_0_show [of "nat t" QUOTE] quote_not_digit
    by (simp add: QUOTE_def show_int_def LONG_MAX_def)
qed

lemmas small_setup =
  small_world_def small_connection_def small_conf_def asking_def a_file_def a_dir_def stat_of_def is_dir_def
  S_ISDIR_def file_types healthy_def fd_inode_def lookup_def good_line_def

subsection \<open>Properties\<close>







text \<open>
  A range whose end is before its start passes the checks: the difference wraps around, and the
  length that is announced is almost two to the 64.
\<close>

lemma inverted_range_is_accepted:
  assumes "serves magic c s w"
    and "get_param_value (buf c) (http_param c) ''Range'' RBUFFER 5 =
      Some (Some (''bytes='' @ show_nat a @ ''-'' @ show_nat b))"
    and "get_param_value (buf c) (http_param c) ''If-Range'' RBUFFER 8 = Some None"
    and "b + 1 < a" and "a < length s"
  shows "\<exists>count c' w'. bytes_to_send magic conf c w = Some (count, 0, c', w') \<and>
    count + of_nat (a - b - 1) = 0"
proof -
  have "(of_nat b - of_nat a + 1 :: 64 word) + of_nat (a - b - 1) = 0"
    using assms(4) by (simp add: of_nat_diff)
  then show ?thesis using bytes_to_send_range [OF assms(1-3,5), of conf] assms(4,5) by auto
qed

end
