(* ===== verification/Request.thy ===== *)
theory Request
  imports World Utils
begin

section \<open>Requests: instance.c, the part that reads and parses them\<close>

text \<open>
  The reading loop of \<open>handle_requests\<close> with its search optimisation, the detection of the
  method, the two calls of \<open>strtok_r\<close>, \<open>modURL\<close>, \<open>get_basedir\<close>, \<open>set_connection_props\<close> and
  \<open>read_post_data\<close>. All the strings of a request live in one buffer of \<open>INBUFFER + 1\<close> bytes.
  The lemmas show that the optimised search finds the end of the header where a search of the
  whole stream finds it, that exactly the header is consumed, and that the page that reaches
  the file system contains no parent step.
\<close>

subsection \<open>Reading the header\<close>

abbreviation END_MARK :: string where "END_MARK \<equiv> [CR, LF, CR]"

datatype header_result = Closed | Full | Header nat nat

text \<open>\<open>Header e from\<close>: the mark begins at \<open>e\<close> and the last search began at \<open>from\<close>.\<close>

lemma client_read_fst: "fst (client_read n w) = fst (buffer_read (reader w, input w) n)"
  by (simp add: client_read_def split: prod.split)

function read_header :: "cmem \<Rightarrow> nat \<Rightarrow> nat \<Rightarrow> world \<Rightarrow> (header_result \<times> cmem \<times> nat \<times> world) option" where
  "read_header m bufFull from w = do {
     r \<leftarrow> c_strstr m from END_MARK;
     case r of
       Some e \<Rightarrow> Some (Header e from, m, bufFull, w)
     | None \<Rightarrow>
         (case client_read 2 w of
            (s, w1) \<Rightarrow>
              if s = [] then Some (Closed, m, bufFull, w1)
              else do {
                m1 \<leftarrow> c_write m bufFull s;
                c \<leftarrow> c_peek m1 bufFull;
                let from1 = (if c = LF \<or> c = CR then from else bufFull);
                let full1 = bufFull + length s;
                if INBUFFER \<le> full1 then Some (Full, m1, full1, w1)
                else read_header m1 full1 from1 w1
              })
   }"
  by pat_completeness auto
termination
  by (relation "measure (\<lambda>(_, full, _, _). INBUFFER - full)") (auto simp: neq_Nil_conv)

declare read_header.simps [simp del]

text \<open>The last byte of the mark is read if it is still missing, and the header is terminated.\<close>

definition finish_header :: "nat \<Rightarrow> nat \<Rightarrow> cmem \<Rightarrow> nat \<Rightarrow> world \<Rightarrow> (cmem \<times> nat \<times> world) option" where
  "finish_header e from m bufFull w = do {
     r \<leftarrow> c_strstr m from (CRLF @ CRLF);
     (m1, full1, w1) \<leftarrow> (case r of
         Some _ \<Rightarrow> Some (m, bufFull, w)
       | None \<Rightarrow>
           (case client_read 1 w of
              (s, w1) \<Rightarrow> do { m1 \<leftarrow> c_write m bufFull s; Some (m1, bufFull + length s, w1) }));
     m2 \<leftarrow> c_poke m1 (e + 2) NUL;
     Some (m2, full1, w1)
   }"

text \<open>Clearing the part of the buffer that the previous request used.\<close>

definition clear_request :: "cmem \<Rightarrow> nat \<Rightarrow> cmem" where
  "clear_request m n = replicate n NUL @ drop n m"

subsection \<open>The request line\<close>

definition method_of :: "string \<Rightarrow> int option" where
  "method_of s =
     (if strn_eq 3 s ''GET'' then Some GET
      else if strn_eq 4 s ''POST'' then Some POST
      else if strn_eq 3 s ''PUT'' then Some PUT
      else if strn_eq 6 s ''DELETE'' then Some DELETE
      else if strn_eq 7 s ''OPTIONS'' then Some OPTIONS
      else if strn_eq 8 s ''PROPFIND'' then Some PROPFIND
      else if strn_eq 5 s ''MKCOL'' then Some MKCOL
      else if strn_eq 4 s ''COPY'' then Some COPY
      else if strn_eq 4 s ''MOVE'' then Some MOVE
      else None)"

text \<open>The inner option is a request that is answered as bad.\<close>

definition parse_request :: "cmem \<Rightarrow> connection_t \<Rightarrow> connection_t option option" where
  "parse_request m c = do {
     s \<leftarrow> cstr m 0;
     case method_of s of
       None \<Rightarrow> Some None
     | Some mid \<Rightarrow> do {
         (m1, tok, lasts) \<leftarrow> c_strtok_r m 0 '' '';
         (m2, pg, lasts2) \<leftarrow> c_strtok_r m1 lasts '' '';
         case (tok, pg) of
           (Some t, Some p) \<Rightarrow>
             Some (Some (c\<lparr>buf := m2, method_id := mid, req_method := t, page := p,
                           http_param := lasts2\<rparr>))
         | _ \<Rightarrow> Some None
       }
   }"

subsection \<open>Properties of the connection\<close>

definition modURL :: "cmem \<Rightarrow> nat option \<Rightarrow> bool \<Rightarrow> cmem option" where
  "modURL m url params =
     (case url of
        None \<Rightarrow> Some m
      | Some p \<Rightarrow> do {
          m1 \<leftarrow> replaceEscape m p;
          if \<not> params then strReplace m1 p ''../'' NUL else Some m1
        })"

text \<open>
  \<open>get_basedir\<close>: the host name is terminated, looked up in the environment, and the carriage
  return is put back, so the buffer is unchanged at the end.
\<close>

definition get_basedir :: "weborf_configuration_t \<Rightarrow> (string \<times> string) list \<Rightarrow> cmem \<Rightarrow> nat \<Rightarrow> string option" where
  "get_basedir conf ev m hp =
     (if \<not> virtual_host conf then Some (conf_basedir conf)
      else do {
        h \<leftarrow> c_strstr m hp (CRLF @ ''Host: '');
        case h of
          None \<Rightarrow> Some (conf_basedir conf)
        | Some q \<Rightarrow> do {
            e \<leftarrow> c_strstr m (q + 8) [CR];
            case e of
              None \<Rightarrow> Some (conf_basedir conf)
            | Some en \<Rightarrow>
                Some (case map_of ev (take (en - (q + 8)) (drop (q + 8) m)) of
                        None \<Rightarrow> conf_basedir conf
                      | Some d \<Rightarrow> d)
          }
      })"

definition set_connection_props :: "weborf_configuration_t \<Rightarrow> (string \<times> string) list \<Rightarrow> connection_t \<Rightarrow>
    connection_t option" where
  "set_connection_props conf ev c = do {
     a \<leftarrow> get_param_value (buf c) (http_param c) ''Connection'' 12 10;
     v7 \<leftarrow> c_peek (buf c) (http_param c + 7);
     v5 \<leftarrow> (if v7 = CHR ''1'' then c_peek (buf c) (http_param c + 5) else Some NUL);
     let c1 = (if v7 = CHR ''1'' \<and> v5 = CHR ''1''
               then c\<lparr>protocol_version := HTTP_1_1,
                      keep_alive := \<not> (case a of None \<Rightarrow> False | Some s \<Rightarrow> strn_eq 5 s ''close'')\<rparr>
               else c\<lparr>protocol_version := schar v7,
                      keep_alive := (case a of None \<Rightarrow> False | Some s \<Rightarrow> strn_eq 4 s ''Keep'')\<rparr>);
     c2 \<leftarrow> split_get_params c1;
     m1 \<leftarrow> modURL (buf c2) (Some (page c2)) False;
     m2 \<leftarrow> modURL m1 (get_params c2) True;
     bd \<leftarrow> get_basedir conf ev m2 (http_param c2);
     Some (c2\<lparr>buf := m2, basedir := bd\<rparr>)
   }"

subsection \<open>Request bodies\<close>

text \<open>A negative length is a huge unsigned argument of \<open>malloc\<close>, which then fails.\<close>

definition read_post_data :: "connection_t \<Rightarrow> world \<Rightarrow> (string_t \<times> world) option" where
  "read_post_data c w = do {
     r \<leftarrow> get_param_value (buf c) (http_param c) ''Content-Length'' NBUFFER 14;
     case r of
       None \<Rightarrow> Some (\<lparr>len = 0, data = None\<rparr>, w)
     | Some a \<Rightarrow>
         (let l = c_strtol 0 a in
          if l \<le> POST_MAX_SIZE
          then (case malloc w of
                  (ok, w1) \<Rightarrow>
                    if ok \<and> 0 \<le> l
                    then (case client_read (nat l) w1 of
                            (s, w2) \<Rightarrow> Some (\<lparr>len = length s, data = Some s\<rparr>, w2))
                    else Some (\<lparr>len = 0, data = None\<rparr>, w1))
          else Some (\<lparr>len = 0, data = None\<rparr>, w))
   }"

subsection \<open>Lemmas: the header\<close>

text \<open>The bytes that the client has sent and the server has not read.\<close>

definition incoming :: "world \<Rightarrow> string" where
  "incoming w = stream (reader w, input w)"

definition reader_ok :: "world \<Rightarrow> bool" where
  "reader_ok w \<longleftrightarrow> reader_inv (reader w, input w)"

lemma client_read_ok:
  assumes "reader_ok w" and "n \<le> length (incoming w)"
  obtains w' where "client_read n w = (take n (incoming w), w')" and "incoming w' = drop n (incoming w)"
    and "reader_ok w'" and "\<exists>b evs. w' = w\<lparr>reader := b, input := evs\<rparr>"
proof -
  obtain s b evs where r: "buffer_read (reader w, input w) n = (s, b, evs)" by (metis prod_cases3)
  have inv: "reader_inv (reader w, input w)" using assms(1) by (simp add: reader_ok_def)
  note law = reader.rd_bytes [OF inv, of n] reader.rd_rest [OF inv, of n] reader.rd_ok [OF inv, of n]
  have "client_read n w = (s, w\<lparr>reader := b, input := evs\<rparr>)" using r by (simp add: client_read_def)
  then show thesis
    using law r assms(2) by (intro that [of "w\<lparr>reader := b, input := evs\<rparr>"])
      (auto simp: incoming_def reader_ok_def)
qed

lemma find_sub_part:
  assumes "find_sub pat S = Some e" and "start \<le> e" and "pat \<noteq> []"
  shows "find_sub pat (drop start (take full S)) =
    (if e + length pat \<le> full then Some (e - start) else None)"
proof (cases "e + length pat \<le> full")
  case True
  have e: "prefix pat (drop e S)" and least: "\<And>j. j < e \<Longrightarrow> \<not> prefix pat (drop j S)" and le: "e \<le> length S"
    using assms(1) by (auto simp: find_sub_Some_iff)
  have "prefix pat (take (full - e) (drop e S))"
    using e True by (auto simp: prefix_def)
  then have "prefix pat (drop (e - start) (drop start (take full S)))"
    using assms(2) by (simp add: drop_take)
  moreover have "\<not> prefix pat (drop j (drop start (take full S)))" if "j < e - start" for j
  proof
    assume "prefix pat (drop j (drop start (take full S)))"
    then have "prefix pat (take (full - (j + start)) (drop (j + start) S))" by (simp add: drop_take ac_simps)
    then have "prefix pat (drop (j + start) S)" using take_is_prefix prefix_order.trans by blast
    moreover have "j + start < e" using that by linarith
    ultimately show False using least by blast
  qed
  moreover have "e - start \<le> length (drop start (take full S))" using le True by auto
  ultimately show ?thesis using True by (simp add: find_sub_Some_iff)
next
  case False
  have "\<not> sublist pat (drop start (take full S))"
  proof
    assume "sublist pat (drop start (take full S))"
    then obtain a b where ab: "drop start (take full S) = a @ pat @ b" by (auto simp: sublist_def)
    have "drop (start + length a) (take full S) = drop (length a) (drop start (take full S))"
      by (simp add: add.commute)
    also have "\<dots> = pat @ b" by (simp add: ab)
    finally have d: "take (full - (start + length a)) (drop (start + length a) S) = pat @ b" by (simp add: drop_take)
    then have "prefix pat (drop (start + length a) S)"
      by (metis append_take_drop_id append_assoc prefixI)
    then have "e \<le> start + length a" using find_sub_least [OF assms(1)] not_less by blast
    moreover have "length pat \<le> full - (start + length a)"
      using arg_cong [OF d, of length] by simp
    moreover have "0 < length pat" using assms(3) by simp
    ultimately show False using False by linarith
  qed
  with False show ?thesis by (simp add: find_sub_None_iff)
qed

lemma zero_buffer_cstr:
  assumes "NUL \<notin> set (take full S)" and "start \<le> full" and "full \<le> length S" and "full < n"
  shows "cstr (take full S @ replicate (n - full) NUL) start = Some (drop start (take full S))"
proof -
  have "replicate (n - full) NUL = NUL # replicate (n - full - 1) NUL" using assms(4) by (cases "n - full") auto
  then have "take full S @ replicate (n - full) NUL =
      take start S @ drop start (take full S) @ NUL # replicate (n - full - 1) NUL"
    using assms(2) by (metis append.assoc append_take_drop_id take_take min.absorb1)
  moreover have "length (take start S) = start" using assms by simp
  moreover have "NUL \<notin> set (drop start (take full S))" using assms(1) by (meson in_set_dropD)
  ultimately show ?thesis by (metis cstr_append)
qed

lemma zero_buffer_write:
  assumes "full + k \<le> length S" and "full + k \<le> n"
  shows "c_write (take full S @ replicate (n - full) NUL) full (take k (drop full S)) =
    Some (take (full + k) S @ replicate (n - (full + k)) NUL)"
proof -
  have "take full S @ replicate (n - full) NUL = take full S @ replicate k NUL @ replicate (n - (full + k)) NUL"
    using assms(2) by (simp flip: replicate_add)
  moreover have "length (take full S) = full" and "length (replicate k NUL) = length (take k (drop full S))"
    using assms by auto
  moreover have "take (full + k) S = take full S @ take k (drop full S)" by (simp add: take_add)
  ultimately show ?thesis using c_write_append [of "replicate k NUL" "take k (drop full S)" "take full S"] by simp
qed

lemma read_header_finds:
  assumes S: "NUL \<notin> set (take (e + 4) S)" "find_sub END_MARK S = Some e" "e + 4 \<le> length S" "e + 4 < INBUFFER"
    and st: "reader_ok w" "incoming w = drop full S" "full \<le> e + 4" "start \<le> full" "start \<le> e"
  shows "\<exists>full' start' w'. read_header (take full S @ replicate (INBUFFER + 1 - full) NUL) full start w =
      Some (Header e start', take full' S @ replicate (INBUFFER + 1 - full') NUL, full', w') \<and>
    e + 3 \<le> full' \<and> full' \<le> e + 4 \<and> start' \<le> e \<and> reader_ok w' \<and> incoming w' = drop full' S \<and>
    (\<exists>b evs. w' = w\<lparr>reader := b, input := evs\<rparr>)"
  using st
proof (induction "e + 4 - full" arbitrary: full start w rule: less_induct)
  case less
  let ?m = "take full S @ replicate (INBUFFER + 1 - full) NUL"
  have "cstr ?m start = Some (drop start (take full S))"
    using less.prems S set_take_subset_set_take [of full "e + 4" S] by (intro zero_buffer_cstr) auto
  then have srch: "c_strstr ?m start END_MARK = Some (if e + 3 \<le> full then Some e else None)"
    using find_sub_part [OF S(2) less.prems(5), of full] less.prems(5) by (simp add: c_strstr_Some)
  show ?case
  proof (cases "e + 3 \<le> full")
    case True
    then have "read_header ?m full start w = Some (Header e start, ?m, full, w)"
      using srch by (subst read_header.simps) simp
    moreover have "w = w\<lparr>reader := reader w, input := input w\<rparr>" by simp
    ultimately show ?thesis using True less.prems by blast
  next
    case False
    then have lt: "full + 2 \<le> e + 4" by simp
    have two: "2 \<le> length (incoming w)" using less.prems(2) lt S(3) by simp
    obtain w1 where rd: "client_read 2 w = (take 2 (drop full S), w1)" and inc: "incoming w1 = drop (full + 2) S"
      and ok: "reader_ok w1" and fr: "\<exists>b evs. w1 = w\<lparr>reader := b, input := evs\<rparr>"
      using client_read_ok [OF less.prems(1) two] less.prems(2) by (metis drop_drop add.commute)
    let ?m1 = "take (full + 2) S @ replicate (INBUFFER + 1 - (full + 2)) NUL"
    have wr: "c_write ?m full (take 2 (drop full S)) = Some ?m1"
      using lt S by (intro zero_buffer_write) auto
    have pk: "c_peek ?m1 full = Some (S ! full)"
      using lt S(3) by (simp add: c_peek_def nth_append)
    have e3: "take 3 (drop e S) = END_MARK"
      using S(2) by (auto simp: find_sub_Some_iff prefix_def)
    have "S ! e = CR \<and> S ! (e + 1) = LF \<and> S ! (e + 2) = CR"
      using arg_cong [OF e3, of "\<lambda>x. x ! 0"] arg_cong [OF e3, of "\<lambda>x. x ! 1"] arg_cong [OF e3, of "\<lambda>x. x ! 2"] S(3)
      by simp
    then have from1: "full \<le> e" if "S ! full \<noteq> LF" "S ! full \<noteq> CR"
      using that False
      by (metis One_nat_def Suc_eq_plus1 add_2_eq_Suc' le_Suc_eq nat_le_linear not_less_eq_eq numeral_3_eq_3 add_Suc_right)
    let ?f = "if S ! full = LF \<or> S ! full = CR then start else full"
    have len: "length (take 2 (drop full S)) = 2" using lt S(3) by simp
    then have ne: "take 2 (drop full S) \<noteq> []" by force
    have "read_header ?m full start w = read_header ?m1 (full + 2) ?f w1"
      using srch False rd ne wr pk lt S(4) len by (subst read_header.simps) (simp add: Let_def)
    moreover have "\<exists>full' start' w'. read_header ?m1 (full + 2) ?f w1 =
        Some (Header e start', take full' S @ replicate (INBUFFER + 1 - full') NUL, full', w') \<and>
      e + 3 \<le> full' \<and> full' \<le> e + 4 \<and> start' \<le> e \<and> reader_ok w' \<and> incoming w' = drop full' S \<and>
      (\<exists>b evs. w' = w1\<lparr>reader := b, input := evs\<rparr>)"
      using less.hyps [of "full + 2" w1 ?f] lt ok inc less.prems(4,5) from1 by auto
    ultimately show ?thesis using fr by force
  qed
qed


lemma find_sub_append: "find_sub pat s = Some i \<Longrightarrow> find_sub pat (s @ t) = Some i"
proof (induction s arbitrary: i)
  case Nil
  then show ?case by (auto split: if_splits simp: find_sub_prefix)
next
  case (Cons x xs)
  show ?case
  proof (cases "prefix pat (x # xs)")
    case True
    then have "prefix pat ((x # xs) @ t)" by (rule prefix_prefix)
    with True Cons.prems show ?thesis by simp
  next
    case False
    with Cons.prems obtain j where j: "find_sub pat xs = Some j" "i = Suc j" by auto
    have "\<not> prefix pat ((x # xs) @ t)"
    proof
      assume "prefix pat ((x # xs) @ t)"
      moreover have "length pat \<le> length (x # xs)" using find_sub_bound [OF j(1)] by simp
      ultimately show False using False by (metis prefix_length_prefix prefixI)
    qed
    with False j Cons.IH [OF j(1)] show ?thesis by simp
  qed
qed

lemma finish_header_ok:
  assumes S: "NUL \<notin> set (take (e + 4) S)" "find_sub END_MARK S = Some e" "e + 4 < INBUFFER"
      "take 4 (drop e S) = CRLF @ CRLF"
    and st: "reader_ok w" "incoming w = drop full S" "e + 3 \<le> full" "full \<le> e + 4" "start \<le> e"
  shows "\<exists>m w'. finish_header e start (take full S @ replicate (INBUFFER + 1 - full) NUL) full w =
      Some (m, e + 4, w') \<and> length m = INBUFFER + 1 \<and> cstr m 0 = Some (take (e + 2) S) \<and>
    reader_ok w' \<and> incoming w' = drop (e + 4) S \<and> (\<exists>b evs. w' = w\<lparr>reader := b, input := evs\<rparr>)"
proof -
  have len: "e + 4 \<le> length S" using arg_cong [OF S(4), of length] by simp
  let ?m = "take full S @ replicate (INBUFFER + 1 - full) NUL"
  let ?m1 = "take (e + 4) S @ replicate (INBUFFER + 1 - (e + 4)) NUL"
  have cs: "cstr ?m start = Some (drop start (take full S))"
    using st S len set_take_subset_set_take [of full "e + 4" S] by (intro zero_buffer_cstr) auto
  have "\<exists>w1. (case find_sub (CRLF @ CRLF) (drop start (take full S)) of
         Some _ \<Rightarrow> Some (?m, full, w)
       | None \<Rightarrow> (case client_read 1 w of
              (s, w1) \<Rightarrow> do { m1 \<leftarrow> c_write ?m full s; Some (m1, full + length s, w1) })) = Some (?m1, e + 4, w1) \<and>
      reader_ok w1 \<and> incoming w1 = drop (e + 4) S \<and> (\<exists>b evs. w1 = w\<lparr>reader := b, input := evs\<rparr>)"
  proof (cases "full = e + 4")
    case True
    have "drop start (take full S) = drop start (take e S) @ (CRLF @ CRLF) @ []"
      using S(4) True st(5) len by (simp add: take_add)
    then have "sublist (CRLF @ CRLF) (drop start (take full S))" unfolding sublist_def by blast
    then obtain i where "find_sub (CRLF @ CRLF) (drop start (take full S)) = Some i"
      using find_sub_None_iff [of "CRLF @ CRLF"] by (cases "find_sub (CRLF @ CRLF) (drop start (take full S))") auto
    moreover have "\<exists>b evs. w = w\<lparr>reader := b, input := evs\<rparr>"
      by (intro exI [of _ "reader w"] exI [of _ "input w"]) simp
    ultimately show ?thesis using True st by simp
  next
    case False
    then have f: "full = e + 3" using st by simp
    have "find_sub END_MARK (take (e + 2) S) = None"
      using find_sub_part [OF S(2), of 0 "e + 2"] by simp
    then have no: "\<not> sublist END_MARK (take (e + 2) S)" by (simp add: find_sub_None_iff)
    have "\<not> sublist (CRLF @ CRLF) (drop start (take full S))"
    proof
      assume "sublist (CRLF @ CRLF) (drop start (take full S))"
      then have "sublist (CRLF @ CRLF) (take full S)" using sublist_order.order.trans [OF _ sublist_drop] by blast
      then obtain a b where t: "take full S = a @ END_MARK @ LF # b" by (auto simp: sublist_def)
      then have "length (take full S) = length a + 4 + length b" unfolding t by simp
      then have "length a + 1 \<le> e" using f len by simp
      then obtain k where k: "e = length a + 1 + k" by (metis le_iff_add)
      have "take (e + 2) S = take (e + 2) (take full S)" using f by simp
      then have "take (e + 2) S = a @ END_MARK @ take k (LF # b)" unfolding t k by (simp add: eval_nat_numeral)
      then show False using no unfolding sublist_def by blast
    qed
    then have none: "find_sub (CRLF @ CRLF) (drop start (take full S)) = None" by (simp add: find_sub_None_iff)
    have one: "1 \<le> length (incoming w)" using st(2) f len by simp
    obtain w1 where "client_read 1 w = (take 1 (drop full S), w1)" "incoming w1 = drop (full + 1) S" "reader_ok w1"
      "\<exists>b evs. w1 = w\<lparr>reader := b, input := evs\<rparr>"
      using client_read_ok [OF st(1) one] st(2) by (metis drop_drop add.commute)
    moreover have "c_write ?m full (take 1 (drop full S)) = Some ?m1"
      using zero_buffer_write [of full 1 S "INBUFFER + 1"] f len S(3) by (simp add: add.commute)
    moreover have "length (take 1 (drop full S)) = 1" using f len by simp
    ultimately show ?thesis using none f by (simp add: add.commute)
  qed
  then obtain w1 where w1: "(case find_sub (CRLF @ CRLF) (drop start (take full S)) of
         Some _ \<Rightarrow> Some (?m, full, w)
       | None \<Rightarrow> (case client_read 1 w of
              (s, w1) \<Rightarrow> do { m1 \<leftarrow> c_write ?m full s; Some (m1, full + length s, w1) })) = Some (?m1, e + 4, w1)"
    "reader_ok w1" "incoming w1 = drop (e + 4) S" "\<exists>b evs. w1 = w\<lparr>reader := b, input := evs\<rparr>" by blast
  have "c_poke ?m1 (e + 2) NUL = Some (?m1[e + 2 := NUL])" using S(3) len by (simp add: c_poke_def)
  then have "finish_header e start ?m full w = Some (?m1[e + 2 := NUL], e + 4, w1)"
    using w1(1) unfolding finish_header_def c_strstr_Some [OF cs]
    by (cases "find_sub (CRLF @ CRLF) (drop start (take full S))") (simp_all only: option.map option.case bind.bind_lunit prod.case)
  moreover have "cstr (?m1[e + 2 := NUL]) 0 = Some (take (e + 2) S)"
  proof -
    have "cstr ?m1 0 = Some (drop 0 (take (e + 4) S))" using S len by (intro zero_buffer_cstr) auto
    from cstr_take_update [OF this, of "e + 2"] len show ?thesis by simp
  qed
  moreover have "length (?m1[e + 2 := NUL]) = INBUFFER + 1" using S(3) len by simp
  ultimately show ?thesis using w1(2-4) by blast
qed


lemma modURL_confined:
  assumes "cstr m p = Some s" and "p + length s + 1 < length m"
  shows "\<exists>m' t. modURL m (Some p) params = Some m' \<and> cstr m' p = Some t \<and> length t \<le> length s \<and>
    (\<not> params \<longrightarrow> \<not> sublist ''../'' t) \<and> length m' = length m \<and>
    (\<forall>i. i < p \<or> p + length s \<le> i \<longrightarrow> m' ! i = m ! i)"
proof -
  obtain m1 where m1: "replaceEscape m p = Some m1" "length m1 = length m"
    "\<forall>i. i < p \<or> p + length s \<le> i \<longrightarrow> m1 ! i = m ! i"
    using replaceEscape_safe [of "p + length s" m p] assms cstr_end [OF assms(1)] by auto
  have "m1 ! (p + length s) = NUL" using m1(3) cstr_end [OF assms(1)] by simp
  then obtain s1 where s1: "cstr m1 p = Some s1" "p + length s1 \<le> p + length s"
    using cstr_at [of "p + length s" m1 p] assms(2) m1(2) by auto
  show ?thesis
  proof (cases params)
    case True
    then show ?thesis using m1 s1 by (auto simp: modURL_def)
  next
    case False
    let ?t = "case find_sub ''../'' s1 of None \<Rightarrow> s1 | Some i \<Rightarrow> take i s1"
    obtain m2 where m2: "strReplace m1 p ''../'' NUL = Some m2" "length m2 = length m1" "cstr m2 p = Some ?t"
      "\<forall>j. j < p \<or> p + length s1 \<le> j \<longrightarrow> m2 ! j = m1 ! j"
      using strReplace_truncates [OF s1(1), of "''../''"] by auto
    have "\<not> sublist ''../'' ?t"
      using find_sub_None_iff [of "''../''" s1] find_sub_before [of "''../''" s1] by (cases "find_sub ''../'' s1") auto
    moreover have "length ?t \<le> length s" using s1(2) by (cases "find_sub ''../'' s1") auto
    moreover have "modURL m (Some p) params = Some m2" using False m1(1) m2(1) by (simp add: modURL_def)
    moreover have "\<forall>i. i < p \<or> p + length s \<le> i \<longrightarrow> m2 ! i = m ! i" using m1(3) m2(4) s1(2) by auto
    ultimately show ?thesis using m1(2) m2(2,3) by metis
  qed
qed

lemma get_basedir_defined:
  assumes "cstr m hp = Some s"
  shows "\<exists>d. get_basedir conf ev m hp = Some d"
proof (cases "find_sub (CRLF @ ''Host: '') s")
  case None
  then show ?thesis by (simp add: get_basedir_def c_strstr_Some [OF assms])
next
  case (Some i)
  then have "i + 8 \<le> length s" using find_sub_bound by fastforce
  then have "cstr m (hp + i + 8) = Some (drop (i + 8) s)"
    using cstr_suffix [OF assms, of "i + 8"] by (simp add: add.assoc)
  then show ?thesis using Some
    by (auto simp: get_basedir_def c_strstr_Some [OF assms] c_strstr_Some split: option.splits)
qed

lemma split_get_params_ok:
  assumes "cstr (buf c) (page c) = Some pg"
  shows "\<exists>c' m. split_get_params c = Some c' \<and> buf c' = m \<and> length m = length (buf c) \<and>
    page c' = page c \<and> http_param c' = http_param c \<and> method_id c' = method_id c \<and>
    cstr m (page c) = Some (takeWhile (\<lambda>x. x \<noteq> CHR ''?'') pg) \<and>
    (\<forall>q. get_params c' = Some q \<longrightarrow> page c + length (takeWhile (\<lambda>x. x \<noteq> CHR ''?'') pg) < q \<and>
       (\<exists>g. cstr m q = Some g \<and> q + length g = page c + length pg)) \<and>
    (\<forall>i. i < page c \<or> page c + length pg \<le> i \<longrightarrow> m ! i = buf c ! i)"
proof (cases "find_sub ''?'' pg")
  case None
  then have "CHR ''?'' \<notin> set pg" by (auto simp: find_sub_None_iff sublist_def in_set_conv_decomp)
  then have "takeWhile (\<lambda>x. x \<noteq> CHR ''?'') pg = pg" by (auto simp: takeWhile_eq_all_conv)
  note tw = this
  show ?thesis unfolding tw using None assms
    by (intro exI [of _ "c\<lparr>get_params := None, page_len := length pg\<rparr>"] exI [of _ "buf c"])
      (simp add: split_get_params_def c_strstr_Some c_strlen_Some)
next
  case (Some i)
  then obtain a b where ab: "pg = a @ CHR ''?'' # b" "length a = i" by (auto dest: find_sub_SomeD)
  have "CHR ''?'' \<notin> set a"
    using find_sub_before [OF Some] ab by (auto simp: sublist_def in_set_conv_decomp)
  then have tw: "takeWhile (\<lambda>x. x \<noteq> CHR ''?'') pg = a" using ab by simp
  let ?sep = "page c + i"
  let ?m = "(buf c)[?sep := NUL]"
  have lt: "page c + length pg < length (buf c)" by (rule cstr_length [OF assms])
  have "c_poke (buf c) ?sep NUL = Some ?m" using lt ab by (simp add: c_poke_def)
  then have "split_get_params c = Some (c\<lparr>buf := ?m, get_params := Some (?sep + 1), page_len := i\<rparr>)"
    using Some assms by (simp add: split_get_params_def c_strstr_Some)
  moreover have "cstr ?m (page c) = Some a" using cstr_take_update [OF assms, of i] ab by simp
  moreover have "cstr ?m (?sep + 1) = Some b"
  proof -
    have "cstr (buf c) (?sep + 1) = Some b" using cstr_suffix [OF assms, of "i + 1"] ab by (simp add: add.assoc)
    then show ?thesis by (rule cstr_cong) auto
  qed
  ultimately show ?thesis using tw ab lt by auto
qed

lemma set_connection_props_ok:
  assumes hp: "cstr (buf c) (http_param c) = Some s" "suffix CRLF s" "http_param c + 7 < length (buf c)"
    and pg: "cstr (buf c) (page c) = Some pg" "page c + length pg < http_param c"
  shows "\<exists>c' t. set_connection_props conf ev c = Some c' \<and> page c' = page c \<and>
    http_param c' = http_param c \<and> length (buf c') = length (buf c) \<and> method_id c' = method_id c \<and>
    cstr (buf c') (page c') = Some t \<and> \<not> sublist ''../'' t \<and> length t \<le> length pg \<and>
    cstr (buf c') (http_param c') = Some s"
proof -
  let ?hp = "http_param c" and ?p = "page c"
  obtain a where a: "get_param_value (buf c) ?hp ''Connection'' 12 10 = Some a"
    using get_param_value_safe [OF hp(1,2), of "''Connection''" 12] by (auto simp: eval_nat_numeral)
  have v7: "c_peek (buf c) (?hp + 7) = Some (buf c ! (?hp + 7))" and v5: "c_peek (buf c) (?hp + 5) = Some (buf c ! (?hp + 5))"
    using hp(3) by (simp_all add: c_peek_def)
  define c1 where "c1 = (if buf c ! (?hp + 7) = CHR ''1'' \<and>
      (if buf c ! (?hp + 7) = CHR ''1'' then buf c ! (?hp + 5) else NUL) = CHR ''1''
     then c\<lparr>protocol_version := HTTP_1_1,
        keep_alive := \<not> (case a of None \<Rightarrow> False | Some s \<Rightarrow> strn_eq 5 s ''close'')\<rparr>
     else c\<lparr>protocol_version := schar (buf c ! (?hp + 7)),
        keep_alive := (case a of None \<Rightarrow> False | Some s \<Rightarrow> strn_eq 4 s ''Keep'')\<rparr>)"
  have c1: "buf c1 = buf c" "page c1 = ?p" "http_param c1 = ?hp" "method_id c1 = method_id c" by (simp_all add: c1_def)
  obtain c2 where c2: "split_get_params c1 = Some c2" "length (buf c2) = length (buf c)" "page c2 = ?p"
      "http_param c2 = ?hp" "method_id c2 = method_id c" "cstr (buf c2) ?p = Some (takeWhile (\<lambda>x. x \<noteq> CHR ''?'') pg)"
      "\<forall>q. get_params c2 = Some q \<longrightarrow> ?p + length (takeWhile (\<lambda>x. x \<noteq> CHR ''?'') pg) < q \<and>
         (\<exists>g. cstr (buf c2) q = Some g \<and> q + length g = ?p + length pg)"
      "\<forall>i. i < ?p \<or> ?p + length pg \<le> i \<longrightarrow> buf c2 ! i = buf c ! i"
    using split_get_params_ok [of c1 pg] pg(1) c1 by auto
  let ?tw = "takeWhile (\<lambda>x. x \<noteq> CHR ''?'') pg"
  have twl: "length ?tw \<le> length pg" by (rule length_takeWhile_le)
  have "?p + length ?tw + 1 < length (buf c2)" using twl pg(2) hp(3) c2(2) by simp
  from modURL_confined [OF c2(6) this, of False] obtain m1 t where m1: "modURL (buf c2) (Some ?p) False = Some m1"
    "cstr m1 ?p = Some t" "length t \<le> length ?tw" "\<not> sublist ''../'' t" "length m1 = length (buf c2)"
    "\<forall>i. i < ?p \<or> ?p + length ?tw \<le> i \<longrightarrow> m1 ! i = buf c2 ! i" by auto
  have "\<exists>m2. modURL m1 (get_params c2) True = Some m2 \<and> length m2 = length m1 \<and>
      (\<forall>i. i \<le> ?p + length ?tw \<or> ?p + length pg \<le> i \<longrightarrow> m2 ! i = m1 ! i)"
  proof (cases "get_params c2")
    case None
    then show ?thesis by (simp add: modURL_def)
  next
    case (Some q)
    then obtain g where q: "?p + length ?tw < q" and g: "cstr (buf c2) q = Some g" "q + length g = ?p + length pg"
      using c2(7) by blast
    have "cstr m1 q = Some g" using g(1) m1(5,6) q by (intro cstr_cong [OF g(1)]) auto
    moreover have "q + length g + 1 < length m1" using g(2) pg(2) hp(3) m1(5) c2(2) by simp
    ultimately obtain m2 where "modURL m1 (Some q) True = Some m2" "length m2 = length m1"
      "\<forall>i. i < q \<or> q + length g \<le> i \<longrightarrow> m2 ! i = m1 ! i"
      using modURL_confined [of m1 q g True] by blast
    with Some q g(2) show ?thesis by auto
  qed
  then obtain m2 where m2: "modURL m1 (get_params c2) True = Some m2" "length m2 = length m1"
    "\<forall>i. i \<le> ?p + length ?tw \<or> ?p + length pg \<le> i \<longrightarrow> m2 ! i = m1 ! i" by blast
  have hp2: "cstr m2 ?hp = Some s"
    using m2 m1(5,6) c2(2,8) pg(2) twl by (intro cstr_cong [OF hp(1)]) auto
  have pg2: "cstr m2 ?p = Some t"
    using m2 m1(3) by (intro cstr_cong [OF m1(2)]) auto
  obtain bd where "get_basedir conf ev m2 ?hp = Some bd" using get_basedir_defined [OF hp2] by blast
  then have "set_connection_props conf ev c = Some (c2\<lparr>buf := m2, basedir := bd\<rparr>)"
    using a v7 v5 c2(1,3,4) m1(1) m2(1) unfolding set_connection_props_def c1_def [symmetric]
    by (cases "buf c ! (?hp + 7) = CHR ''1''"; cases "buf c ! (?hp + 5) = CHR ''1''")
      (simp_all add: c1_def Let_def)
  then show ?thesis using hp2 pg2 m1 m2(2) c2 twl by auto
qed


lemma strtok_first:
  assumes "cstr m p = Some (t @ '' '' @ u)" and "t \<noteq> []" and "CHR '' '' \<notin> set t"
  shows "c_strtok_r m p '' '' = Some (m[p + length t := NUL], Some p, p + length t + 1)"
    and "cstr (m[p + length t := NUL]) p = Some t"
    and "cstr (m[p + length t := NUL]) (p + length t + 1) = Some u"
proof -
  have "cstr m p = Some ([] @ t @ CHR '' '' # u)" using assms(1) by simp
  note tok = strtok_token [OF this, of "'' ''"]
  show "c_strtok_r m p '' '' = Some (m[p + length t := NUL], Some p, p + length t + 1)" using tok(1) assms(2,3) by simp
  show "cstr (m[p + length t := NUL]) p = Some t" using tok(2) assms(2,3) by simp
  show "cstr (m[p + length t := NUL]) (p + length t + 1) = Some u" using tok(3) assms(2,3) by simp
qed

lemma parse_request_ok:
  assumes m: "cstr m 0 = Some (meth @ '' '' @ pg @ '' '' @ r)" and "meth \<noteq> []" and "CHR '' '' \<notin> set meth"
    and "pg \<noteq> []" and "CHR '' '' \<notin> set pg" and mid: "method_of (meth @ '' '' @ pg @ '' '' @ r) = Some mid"
  shows "\<exists>c'. parse_request m c = Some (Some c') \<and> method_id c' = mid \<and> length (buf c') = length m \<and>
    cstr (buf c') (req_method c') = Some meth \<and> cstr (buf c') (page c') = Some pg \<and>
    cstr (buf c') (http_param c') = Some r \<and> page c' + length pg + 1 = http_param c' \<and>
    http_param c' = length meth + length pg + 2"
proof -
  let ?l = "length meth"
  let ?m1 = "m[?l := NUL]"
  note t1 = strtok_first [OF m assms(2,3), simplified]
  have pg: "cstr ?m1 (?l + 1) = Some (pg @ '' '' @ r)" using t1(3) by simp
  let ?m2 = "?m1[?l + 1 + length pg := NUL]"
  note t2 = strtok_first [OF pg assms(4,5)]
  have "cstr ?m2 0 = Some meth" by (rule cstr_cong [OF t1(2)]) auto
  moreover have "parse_request m c = Some (Some (c\<lparr>buf := ?m2, method_id := mid, req_method := 0,
      page := ?l + 1, http_param := ?l + 1 + length pg + 1\<rparr>))"
    unfolding parse_request_def m bind.bind_lunit mid option.case t1(1) prod.case Suc_eq_plus1 t2(1) ..
  ultimately show ?thesis using t2(2,3) by simp
qed

lemma request_is_read_aux:
  assumes w: "reader_ok w" "incoming w = h @ CRLF @ CRLF @ rest" and h: "h = meth @ '' '' @ pg @ '' '' @ r"
    and tok: "meth \<noteq> []" "CHR '' '' \<notin> set meth" "pg \<noteq> []" "CHR '' '' \<notin> set pg"
    and ok: "NUL \<notin> set h" "find_sub END_MARK (h @ END_MARK) = Some (length h)" "length h + 10 < INBUFFER"
    and mid: "method_of (h @ CRLF) = Some mid"
  shows "\<exists>start full m w1 m2 w2 c1 c2 t.
    read_header (replicate (INBUFFER + 1) NUL) 0 0 w = Some (Header (length h) start, m, full, w1) \<and>
    finish_header (length h) start m full w1 = Some (m2, length h + 4, w2) \<and>
    parse_request m2 c = Some (Some c1) \<and> set_connection_props conf (env w) c1 = Some c2 \<and>
    method_id c2 = mid \<and> cstr (buf c2) (page c2) = Some t \<and> \<not> sublist ''../'' t \<and>
    length t \<le> length pg \<and> cstr (buf c2) (http_param c2) = Some (r @ CRLF) \<and>
    incoming w2 = rest \<and> reader_ok w2 \<and> (\<exists>b evs. w2 = w\<lparr>reader := b, input := evs\<rparr>)"
proof -
  let ?S = "h @ CRLF @ CRLF @ rest" and ?e = "length h"
  have f: "find_sub END_MARK ?S = Some ?e" using find_sub_append [OF ok(2), of "LF # rest"] by simp
  have t4: "take (?e + 4) ?S = h @ CRLF @ CRLF" by simp
  have n4: "NUL \<notin> set (take (?e + 4) ?S)" using ok(1) unfolding t4 by simp
  have len: "?e + 4 \<le> length ?S" and buf: "?e + 4 < INBUFFER" using ok(3) by simp_all
  have z: "take 0 ?S @ replicate (INBUFFER + 1 - 0) NUL = replicate (INBUFFER + 1) NUL" by simp
  have "incoming w = drop 0 ?S" using w(2) by simp
  then obtain full start w1 where rh: "read_header (replicate (INBUFFER + 1) NUL) 0 0 w =
      Some (Header ?e start, take full ?S @ replicate (INBUFFER + 1 - full) NUL, full, w1)"
    and p1: "?e + 3 \<le> full" "full \<le> ?e + 4" "start \<le> ?e" "reader_ok w1" "incoming w1 = drop full ?S"
      "\<exists>b evs. w1 = w\<lparr>reader := b, input := evs\<rparr>"
    using read_header_finds [OF n4 f len buf w(1) _ le0 le0 le0] unfolding z by blast
  have d4: "take 4 (drop ?e ?S) = CRLF @ CRLF" by simp
  obtain m2 w2 where fh: "finish_header ?e start (take full ?S @ replicate (INBUFFER + 1 - full) NUL) full w1 =
      Some (m2, ?e + 4, w2)" and p2: "length m2 = INBUFFER + 1" "cstr m2 0 = Some (take (?e + 2) ?S)"
      "reader_ok w2" "incoming w2 = drop (?e + 4) ?S" "\<exists>b evs. w2 = w1\<lparr>reader := b, input := evs\<rparr>"
    using finish_header_ok [OF n4 f buf d4 p1(4,5,1,2,3)] by blast
  have "take (?e + 2) ?S = h @ CRLF" by simp
  then have cs: "cstr m2 0 = Some (meth @ '' '' @ pg @ '' '' @ (r @ CRLF))" using p2(2) unfolding h by simp
  have md: "method_of (meth @ '' '' @ pg @ '' '' @ (r @ CRLF)) = Some mid" using mid h by simp
  obtain c1 where c1: "parse_request m2 c = Some (Some c1)" "method_id c1 = mid" "length (buf c1) = INBUFFER + 1"
      "cstr (buf c1) (page c1) = Some pg" "cstr (buf c1) (http_param c1) = Some (r @ CRLF)"
      "page c1 + length pg + 1 = http_param c1" "http_param c1 = length meth + length pg + 2"
    using parse_request_ok [OF cs tok md, of c] p2(1) by auto
  have hp7: "http_param c1 + 7 < length (buf c1)" using c1(3,7) ok(3) h by simp
  obtain c2 t where "set_connection_props conf (env w) c1 = Some c2" "method_id c2 = mid"
      "cstr (buf c2) (page c2) = Some t" "\<not> sublist ''../'' t" "length t \<le> length pg"
      "cstr (buf c2) (http_param c2) = Some (r @ CRLF)"
    using set_connection_props_ok [OF c1(5) _ hp7 c1(4), of conf "env w"] c1(2,6) by (auto simp: suffix_def)
  moreover have "incoming w2 = rest" using p2(4) by simp
  moreover have "\<exists>b evs. w2 = w\<lparr>reader := b, input := evs\<rparr>" using p1(6) p2(5) by force
  ultimately show ?thesis using rh fh c1(1) p2(3) by blast
qed

subsection \<open>Properties\<close>

text \<open>
  Claim C6. From the wire to the handlers. When the client sends a request header of a known
  method, in any pieces, the reading loop with its optimised search, the tokeniser and
  \<open>set_connection_props\<close> end without an access outside the buffer; the search stops at the
  first end mark of the stream, the header fields are what the client sent, the page contains
  no \<open>../\<close>, and the next byte to be read is the first one after the header.
\<close>

theorem request_is_read:
  assumes w: "reader_ok w" "incoming w = h @ CRLF @ CRLF @ rest" and h: "h = meth @ '' '' @ pg @ '' '' @ r"
    and tok: "meth \<noteq> []" "CHR '' '' \<notin> set meth" "pg \<noteq> []" "CHR '' '' \<notin> set pg"
    and ok: "NUL \<notin> set h" "find_sub END_MARK (h @ END_MARK) = Some (length h)" "length h + 10 < INBUFFER"
    and mid: "method_of (h @ CRLF) = Some mid"
  shows "\<exists>start full m w1 m2 w2 c1 c2 t.
    read_header (replicate (INBUFFER + 1) NUL) 0 0 w = Some (Header (length h) start, m, full, w1) \<and>
    finish_header (length h) start m full w1 = Some (m2, length h + 4, w2) \<and>
    parse_request m2 c = Some (Some c1) \<and> set_connection_props conf (env w) c1 = Some c2 \<and>
    method_id c2 = mid \<and> cstr (buf c2) (page c2) = Some t \<and> \<not> sublist ''../'' t \<and>
    length t \<le> length pg \<and> cstr (buf c2) (http_param c2) = Some (r @ CRLF) \<and>
    incoming w2 = rest \<and> reader_ok w2 \<and> (\<exists>b evs. w2 = w\<lparr>reader := b, input := evs\<rparr>)"
  using assms by (rule request_is_read_aux)

definition sample_header :: string where
  "sample_header = ''GET /a%2e./b HTTP/1.1'' @ CRLF @ ''Host: x''"

definition sample_world :: world where
  "sample_world = small_world
     \<lparr>input := [Data (''GET /a%2e./b HT''), Data (''TP/1.1'' @ CRLF @ ''Host: x'' @ CRLF @ CRLF @ ''body'')]\<rparr>"

theorem request_is_read_witness:
  "\<exists>start full m w1 m2 w2 c1 c2 t.
    read_header (replicate (INBUFFER + 1) NUL) 0 0 sample_world =
      Some (Header (length sample_header) start, m, full, w1) \<and>
    finish_header (length sample_header) start m full w1 = Some (m2, length sample_header + 4, w2) \<and>
    parse_request m2 small_connection = Some (Some c1) \<and>
    set_connection_props small_conf (env sample_world) c1 = Some c2 \<and>
    method_id c2 = GET \<and> cstr (buf c2) (page c2) = Some t \<and> \<not> sublist ''../'' t \<and>
    length t \<le> length ''/a%2e./b'' \<and>
    cstr (buf c2) (http_param c2) = Some ((''HTTP/1.1'' @ CRLF @ ''Host: x'') @ CRLF) \<and>
    incoming w2 = ''body'' \<and> reader_ok w2 \<and> (\<exists>b evs. w2 = sample_world\<lparr>reader := b, input := evs\<rparr>)"
proof (rule request_is_read [where meth = "''GET''"])
  show "reader_ok sample_world" by (simp add: sample_world_def small_world_def reader_ok_def reader_inv_def)
  show "incoming sample_world = sample_header @ CRLF @ CRLF @ ''body''"
    by (simp add: sample_world_def small_world_def incoming_def stream_def pending_def sample_header_def)
  show "sample_header = ''GET'' @ '' '' @ ''/a%2e./b'' @ '' '' @ (''HTTP/1.1'' @ CRLF @ ''Host: x'')"
    by (simp add: sample_header_def)
  show "find_sub END_MARK (sample_header @ END_MARK) = Some (length sample_header)" by code_simp
  show "method_of (sample_header @ CRLF) = Some GET" by code_simp
qed (simp_all add: sample_header_def INBUFFER_def)

text \<open>
  Claim C14. The body of a request is what follows its header: with a Content-Length \<open>n\<close> of at
  most \<open>POST_MAX_SIZE\<close> and \<open>n\<close> bytes on their way, \<open>read_post_data\<close> returns exactly the next
  \<open>n\<close> bytes and leaves the stream at the byte after them, the start of the next request.
\<close>

theorem post_data_is_read:
  assumes "reader_ok w" and "healthy w" and "n \<le> length (incoming w)" and "int n \<le> POST_MAX_SIZE"
    and "get_param_value (buf c) (http_param c) ''Content-Length'' NBUFFER 14 = Some (Some (show_nat n))"
  shows "\<exists>w'. read_post_data c w = Some (\<lparr>len = n, data = Some (take n (incoming w))\<rparr>, w') \<and>
    incoming w' = drop n (incoming w) \<and> reader_ok w'"
proof -
  have "c_strtol 0 (show_nat n) = int n"
    using c_strtol_0_show [of n "[]"] assms(4) by (simp add: POST_MAX_SIZE_def LONG_MAX_def)
  moreover obtain w' where "client_read n w = (take n (incoming w), w')" "incoming w' = drop n (incoming w)"
    "reader_ok w'" using client_read_ok [OF assms(1,3)] by blast
  ultimately show ?thesis
    using assms(3-5) by (simp add: read_post_data_def Let_def healthy_simps [OF assms(2)])
qed

definition post_world :: world where
  "post_world = small_world\<lparr>input := [Data ''a=1&b=2GET'']\<rparr>"

theorem post_data_is_read_witness:
  "\<exists>w'. read_post_data (asking ''Content-Length: 7'') post_world =
      Some (\<lparr>len = 7, data = Some (take 7 (incoming post_world))\<rparr>, w') \<and>
    incoming w' = drop 7 (incoming post_world) \<and> reader_ok w'"
proof (rule post_data_is_read)
  show "reader_ok post_world" by (simp add: post_world_def small_world_def reader_ok_def reader_inv_def)
  show "healthy post_world" by (simp add: post_world_def)
  show "7 \<le> length (incoming post_world)"
    by (simp add: post_world_def small_world_def incoming_def stream_def pending_def)
  show "int 7 \<le> POST_MAX_SIZE" by (simp add: POST_MAX_SIZE_def)
  show "get_param_value (buf (asking ''Content-Length: 7'')) (http_param (asking ''Content-Length: 7''))
      ''Content-Length'' NBUFFER 14 = Some (Some (show_nat 7))" by code_simp
qed

end
