(* ===== verification/Auth.thy ===== *)
theory Auth
  imports Http Base64
begin

section \<open>Authentication: auth.c and the built-in provider\<close>

text \<open>
  \<open>auth_set_socket\<close> and \<open>auth_check_request\<close>, and the example provider of
  \<open>embedded_auth.h\<close>. The external provider behind the unix socket is a parameter: it maps
  the request text that it is sent to the number of bytes it answers (0 grants the request,
  a negative number is a failed \<open>read\<close>). The two arrays on the stack are not initialised;
  their bytes are the argument \<open>stk\<close>, and the lemmas hold for all of them. The credentials
  of a client that follows RFC 7617 reach the provider as they were entered.
\<close>

subsection \<open>Definitions\<close>

text \<open>\<open>Inl n\<close>: the process ends with exit status \<open>n\<close>.\<close>

definition auth_set_socket :: "string \<Rightarrow> weborf_configuration_t \<Rightarrow> world \<Rightarrow>
    (int + weborf_configuration_t) \<times> world" where
  "auth_set_socket u_socket conf w =
     (case sys_stat u_socket w of
        (Inl _, w1) \<Rightarrow> (Inl 5, w1)
      | (Inr sb, w1) \<Rightarrow>
          if st_mode sb AND S_IFMT \<noteq> S_IFSOCK then (Inl 5, w1)
          else (Inr (conf\<lparr>authsock := Some u_socket\<rparr>), w1))"

text \<open>
  The credentials of a request: \<open>Inl\<close> is an early return with that value. Without an
  Authorization field both strings are empty.
\<close>

definition CREDENTIALS :: string where "CREDENTIALS = ''Authorization: Basic ''"

definition auth_credentials :: "cmem \<times> cmem \<Rightarrow> cmem \<Rightarrow> nat \<Rightarrow> (int + string \<times> string) option" where
  "auth_credentials stk m hp = do {
     r \<leftarrow> c_strstr m hp CREDENTIALS;
     case r of
       None \<Rightarrow> Some (Inr ('''', ''''))
     | Some q \<Rightarrow> do {
         r2 \<leftarrow> c_strstr m q CRLF;
         case r2 of
           None \<Rightarrow> Some (Inl (-1))
         | Some auth_end \<Rightarrow>
             (let auth = q + 21; n = auth_end - auth in
              if \<not> n + 1 < PWDLIMIT * 2 then Some (Inl ERR_NOMEM)
              else do {
                a \<leftarrow> c_write (snd stk) 0 (take n (drop auth m) @ [NUL]);
                username \<leftarrow> decode64 (fst stk) 0 a 0;
                p \<leftarrow> c_strstr username 0 '':'';
                case p of
                  None \<Rightarrow> Some (Inl (-1))
                | Some sep \<Rightarrow> do {
                    u2 \<leftarrow> c_poke username sep NUL;
                    user \<leftarrow> cstr u2 0;
                    pass \<leftarrow> cstr u2 (sep + 1);
                    Some (Inr (user, pass))
                  }
              })
       }
   }"

text \<open>The text that is sent to the provider.\<close>

definition auth_text :: "string \<Rightarrow> string \<Rightarrow> string \<Rightarrow> string \<Rightarrow> string \<Rightarrow> string \<Rightarrow> string" where
  "auth_text pg ip meth user pass params =
     pg @ CRLF @ ip @ CRLF @ meth @ CRLF @ user @ CRLF @ pass @ CRLF @ params @ CRLF"

definition AUTH_BUF :: nat where "AUTH_BUF = HEADBUF + PWDLIMIT * 2"

definition auth_check_request :: "(string \<Rightarrow> int) \<Rightarrow> weborf_configuration_t \<Rightarrow> cmem \<times> cmem \<Rightarrow> connection_t \<Rightarrow>
    world \<Rightarrow> (int \<times> world) option" where
  "auth_check_request provider conf stk c w =
     (if authsock conf = None then Some (0, w)
      else do {
        cr \<leftarrow> auth_credentials stk (buf c) (http_param c);
        case cr of
          Inl e \<Rightarrow> Some (e, w)
        | Inr (user, pass) \<Rightarrow>
            (case next_fault w of
               (Some _, w1) \<Rightarrow> Some (-1, w1)
             | (None, w1) \<Rightarrow>
                 (case malloc w1 of
                    (ok, w2) \<Rightarrow>
                      if \<not> ok then Some (-1, w2)
                      else do {
                        pg \<leftarrow> cstr (buf c) (page c);
                        meth \<leftarrow> cstr (buf c) (req_method c);
                        params \<leftarrow> cstr (buf c) (http_param c);
                        let text = auth_text pg (ip_addr c) meth user pass params;
                        bytes \<leftarrow> read_image (snprintf_image AUTH_BUF text) (length text);
                        case next_write (length bytes) w2 of
                          (r, w3) \<Rightarrow>
                            if r = int (length text) \<and> provider bytes = 0 then Some (0, w3)
                            else Some (-1, w3)
                      }))
      })"

text \<open>The example provider that can be compiled in.\<close>

definition emb_check_password :: "string \<Rightarrow> string \<Rightarrow> int" where
  "emb_check_password username password =
     (if strn_eq 6 username ''gentoo'' \<and> strn_eq 8 password ''lalalala'' then 0 else -1)"

definition c_auth :: "string \<Rightarrow> string \<Rightarrow> string \<Rightarrow> string \<Rightarrow> string \<Rightarrow> int" where
  "c_auth pg ip meth username password =
     (if strn_eq 10 ''::ffff:10.'' ip then 0
      else if strn_eq 8 meth ''PROPFIND'' \<or> strn_eq 7 meth ''OPTIONS''
        then emb_check_password username password
      else if \<not> (strn_eq 3 meth ''GET'' \<or> strn_eq 4 meth ''POST'') then -1
      else if strn_eq 6 ''/foto/'' pg then emb_check_password username password
      else 0)"

subsection \<open>Lemmas\<close>

lemma credentials_decoded:
  assumes "cstr username 0 = Some (user @ '':'' @ pass)" and "CHR '':'' \<notin> set user"
  shows "c_strstr username 0 '':'' = Some (Some (length user))"
    and "\<exists>u2. c_poke username (length user) NUL = Some u2 \<and> cstr u2 0 = Some user \<and>
      cstr u2 (length user + 1) = Some pass"
proof -
  show "c_strstr username 0 '':'' = Some (Some (length user))"
    using find_sub_single [OF assms(2), of pass] by (simp add: c_strstr_Some [OF assms(1)])
  let ?u = "username[length user := NUL]"
  have "c_poke username (length user) NUL = Some ?u"
    using cstr_length [OF assms(1)] by (simp add: c_poke_def)
  moreover have "cstr ?u 0 = Some user" using cstr_take_update [OF assms(1), of "length user"] by simp
  moreover have "cstr ?u (length user + 1) = Some pass"
  proof -
    have "cstr username (length user + 1) = Some pass"
      using cstr_suffix [OF assms(1), of "length user + 1"] by simp
    then show ?thesis by (rule cstr_cong) auto
  qed
  ultimately show "\<exists>u2. c_poke username (length user) NUL = Some u2 \<and> cstr u2 0 = Some user \<and>
      cstr u2 (length user + 1) = Some pass" by blast
qed

lemma auth_credentials_ok:
  assumes hp: "cstr m hp = Some (pre @ CREDENTIALS @ b64_encode (user @ '':'' @ pass) @ CRLF @ post)"
    and first: "find_sub CREDENTIALS (pre @ CREDENTIALS @ b64_encode (user @ '':'' @ pass) @ CRLF @ post) =
      Some (length pre)"
    and cr: "NUL \<notin> set user" "NUL \<notin> set pass" "CHR '':'' \<notin> set user"
      "CR \<notin> set (b64_encode (user @ '':'' @ pass))"
      "length (b64_encode (user @ '':'' @ pass)) + 1 < PWDLIMIT * 2"
    and stk: "length (fst stk) = PWDLIMIT * 2" "length (snd stk) = PWDLIMIT * 2"
  shows "auth_credentials stk m hp = Some (Inr (user, pass))"
proof -
  let ?s = "user @ '':'' @ pass"
  let ?e = "b64_encode ?s" and ?q = "hp + length pre"
  have c1: "c_strstr m hp CREDENTIALS = Some (Some ?q)" using first by (simp add: c_strstr_Some [OF hp])
  have l21: "length CREDENTIALS = 21" and nocr: "CR \<notin> set CREDENTIALS" by (simp_all add: CREDENTIALS_def)
  have cq: "cstr m ?q = Some ((CREDENTIALS @ ?e) @ CR # LF # post)"
    using cstr_suffix [OF hp, of "length pre"] by simp
  then have c2: "c_strstr m ?q CRLF = Some (Some (?q + (21 + length ?e)))"
    using find_sub_CRLF [of "CREDENTIALS @ ?e" post] nocr cr(4) l21 by (simp add: c_strstr_Some [OF cq])
  have "cstr m (?q + 21) = Some (?e @ CR # LF # post)" using cstr_suffix [OF cq, of 21] l21 by simp
  then have tk: "take (length ?e) (drop (?q + 21) m) = ?e"
    by (elim cstr_SomeE) (auto simp: take_append)
  have wr: "c_write (snd stk) 0 (?e @ [NUL]) = Some (?e @ NUL # drop (length ?e + 1) (snd stk))"
    using stk(2) cr(5) by (simp add: c_write_def)
  have "length ?e div 4 * 3 + 1 \<le> length (fst stk)" using cr(5) stk(1) by auto
  then obtain rm where rm: "decode64 (fst stk) 0 (?e @ NUL # drop (length ?e + 1) (snd stk)) 0 = Some rm"
    "cstr rm 0 = Some ?s"
    using decode64_encode [of ?s "fst stk"] cr(1,2) by auto
  note cd = credentials_decoded [OF rm(2) cr(3)]
  then obtain u2 where u2: "c_poke rm (length user) NUL = Some u2" "cstr u2 0 = Some user"
    "cstr u2 (length user + 1) = Some pass" by blast
  have n: "?q + (21 + length ?e) - (?q + 21) = length ?e" by simp
  show ?thesis
    unfolding auth_credentials_def c1 c2 bind.bind_lunit option.case Let_def n tk wr rm(1) cd(1) u2
    using cr(5) by simp
qed

lemma b64_char_not_CR: "b64_char w \<noteq> CR"
proof -
  have "43 \<le> (of_char (b64_char w) :: nat)"
    using unsigned_less [of w] by (auto simp: b64_char_def Let_def of_char_of)
  then show ?thesis by auto
qed

lemma b64_encode_no_CR: "CR \<notin> set (b64_encode s)"
  by (induction s rule: b64_encode.induct) (auto simp: b64_char_not_CR [symmetric])

lemma auth_credentials_error: "auth_credentials stk m hp = Some (Inl e) \<Longrightarrow> e \<noteq> 0"
  by (auto simp: auth_credentials_def bind_Some_iff Let_def split: option.splits if_splits)

lemma read_image_prefix: "read_image img n = Some bytes \<Longrightarrow> prefix bytes img"
  by (auto simp: read_image_def take_is_prefix split: if_splits)

subsection \<open>Properties\<close>

text \<open>
  Claim C30. The credentials of a client that follows RFC 7617 reach the provider unchanged,
  whatever the uninitialised stack holds: the provider is asked once, with the page, the
  address, the method, the user name, the password and the header of the request, and the
  request is granted exactly when the provider answers nothing.
\<close>

theorem credentials_reach_provider:
  assumes "authsock conf = Some s" and "healthy w"
    and "cstr (buf c) (http_param c) = Some params"
    and "params = pre @ CREDENTIALS @ b64_encode (user @ '':'' @ pass) @ CRLF @ post"
    and "find_sub CREDENTIALS params = Some (length pre)"
    and "NUL \<notin> set user" and "NUL \<notin> set pass" and "CHR '':'' \<notin> set user"
    and "length (b64_encode (user @ '':'' @ pass)) + 1 < PWDLIMIT * 2"
    and "cstr (buf c) (page c) = Some pg" and "cstr (buf c) (req_method c) = Some meth"
    and "length (auth_text pg (ip_addr c) meth user pass params) < AUTH_BUF"
    and "length (fst stk) = PWDLIMIT * 2" and "length (snd stk) = PWDLIMIT * 2"
  shows "auth_check_request provider conf stk c w =
    Some (if provider (auth_text pg (ip_addr c) meth user pass params) = 0 then 0 else -1, w)"
proof -
  have "auth_credentials stk (buf c) (http_param c) = Some (Inr (user, pass))"
    using assms b64_encode_no_CR by (intro auth_credentials_ok) auto
  moreover have "read_image (snprintf_image AUTH_BUF (auth_text pg (ip_addr c) meth user pass params))
      (length (auth_text pg (ip_addr c) meth user pass params)) =
    Some (auth_text pg (ip_addr c) meth user pass params)"
    using assms(12) by (simp add: read_image_def snprintf_image_def)
  ultimately show ?thesis
    using assms(1,3,10,11) by (simp add: auth_check_request_def healthy_simps [OF assms(2)])
qed

definition auth_connection :: connection_t where
  "auth_connection = asking (''Authorization: Basic '' @ b64_encode ''bob:pw'')"

definition grants_bob :: "string \<Rightarrow> int" where
  "grants_bob text = (if sublist (''bob'' @ CRLF @ ''pw'' @ CRLF) text then 0 else 1)"

theorem credentials_reach_provider_witness:
  "auth_check_request grants_bob (small_conf\<lparr>authsock := Some ''/run/auth''\<rparr>) (replicate 600 NUL, replicate 600 NUL)
      auth_connection small_world =
    Some (if grants_bob (auth_text ''/a.txt'' (ip_addr auth_connection) ''GET'' ''bob'' ''pw''
        (''HTTP/1.1'' @ CRLF @ ''Authorization: Basic '' @ b64_encode (''bob'' @ '':'' @ ''pw'') @ CRLF)) = 0
      then 0 else -1, small_world)"
proof (rule credentials_reach_provider [where s = "''/run/auth''" and pre = "''HTTP/1.1'' @ CRLF" and post = "[]"])
  show "cstr (buf auth_connection) (http_param auth_connection) =
      Some (''HTTP/1.1'' @ CRLF @ ''Authorization: Basic '' @ b64_encode (''bob'' @ '':'' @ ''pw'') @ CRLF)"
    by code_simp
  show "find_sub CREDENTIALS (''HTTP/1.1'' @ CRLF @ ''Authorization: Basic '' @ b64_encode (''bob'' @ '':'' @ ''pw'') @ CRLF) =
      Some (length (''HTTP/1.1'' @ CRLF))" by code_simp
  show "cstr (buf auth_connection) (page auth_connection) = Some ''/a.txt''" by code_simp
  show "cstr (buf auth_connection) (req_method auth_connection) = Some ''GET''" by code_simp
  show "length (b64_encode (''bob'' @ '':'' @ ''pw'')) + 1 < PWDLIMIT * 2" by (simp add: PWDLIMIT_def)
  show "length (auth_text ''/a.txt'' (ip_addr auth_connection) ''GET'' ''bob'' ''pw''
      (''HTTP/1.1'' @ CRLF @ ''Authorization: Basic '' @ b64_encode (''bob'' @ '':'' @ ''pw'') @ CRLF)) < AUTH_BUF"
    by code_simp
qed (simp_all add: CREDENTIALS_def PWDLIMIT_def)



end
