(* ===== verification/Listener.thy ===== *)
theory Listener
  imports SynQueue "HOL-Library.Multiset"
begin

section \<open>listener.c and the worker loop: the thread pool\<close>

text \<open>
  The main loop of \<open>listener.c\<close> and the worker loop \<open>instance\<close> of \<open>instance.c\<close>, as
  they run in parallel. \<open>thread_info\<close> keeps its two unsigned counters at their width.
  Every thread has a program point (\<open>phase\<close>) between two accesses to shared state, and
  so has the main thread (\<open>main_pc\<close>); one \<open>event\<close> is one such access by one thread,
  with what the platform answers as its arguments, so that a sequence of events is an
  interleaving. The requests themselves are served between two events of a thread.

  The invariant ties the counters to the threads, the queue to the sleepers, and every
  accepted socket to the one place that holds it.
\<close>

subsection \<open>State\<close>

record t_thread_info =
  ti_free :: "32 word"
  ti_count :: "32 word"

text \<open>
  Program points of \<open>instance\<close>: before the buffers are allocated; at \<open>q_get\<close>; asleep in
  it; with the value that it returned; serving a socket; after \<open>close\<close>; at
  \<open>release_resources\<close>; after \<open>pthread_exit\<close> (or never created).
\<close>

datatype phase = Starting | Ready | Asleep | Took int | Serving int | Closed | Leaving | Gone

text \<open>Program points of \<open>main\<close>; \<open>Exited\<close> carries the exit status.\<close>

datatype main_pc =
  Poll | Shape | Accept | Put int | CheckLow | CheckMax | CountGroup | CountRest
| Start "32 word" | Exited int

record lsys =
  l_queue :: syn_queue_t
  thread_info :: t_thread_info
  threads :: "phase list"
  main_at :: main_pc
  last_action :: int
  opened :: "int list"
  closed :: "int list"

subsection \<open>Operations\<close>

definition init_thread_info :: t_thread_info where
  "init_thread_info = \<lparr>ti_free = 0, ti_count = 0\<rparr>"

definition change_free_thread :: "int \<Rightarrow> int \<Rightarrow> t_thread_info \<Rightarrow> t_thread_info" where
  "change_free_thread free_d count_d ti =
     ti\<lparr>ti_free := ti_free ti + of_int free_d, ti_count := ti_count ti + of_int count_d\<rparr>"

text \<open>
  \<open>init_threads\<close> runs with the mutex held. \<open>oks\<close> are the results of \<open>pthread_create\<close>
  (a missing entry is a success); a thread that was not created keeps its identifier,
  since \<open>id\<close> is incremented anyway.
\<close>

definition created :: "bool list \<Rightarrow> nat \<Rightarrow> phase list" where
  "created oks n = map (\<lambda>i. if i < length oks \<and> \<not> oks ! i then Gone else Starting) [0..<n]"

definition init_threads :: "32 word \<Rightarrow> bool list \<Rightarrow> lsys \<Rightarrow> lsys" where
  "init_threads n oks s =
     (let ti = thread_info s in
      if ti_count ti + n < of_nat MAXTHREAD
      then let new = created oks (unat n);
               effective = length (filter (\<lambda>p. p = Starting) new)
           in s\<lparr>threads := threads s @ new,
                thread_info := ti\<lparr>ti_count := ti_count ti + of_nat effective\<rparr>\<rparr>
      else s)"

text \<open>\<open>pthread_cond_signal\<close>: thread \<open>t\<close> is the one that the platform chooses, if it is asleep.\<close>

definition wake_up :: "bool \<Rightarrow> nat \<Rightarrow> phase list \<Rightarrow> phase list" where
  "wake_up sig t ths = (if sig \<and> t < length ths \<and> ths ! t = Asleep then ths[t := Ready] else ths)"

text \<open>\<open>q_put\<close> from the main thread: its status, and the state.\<close>

definition put_queue :: "int \<Rightarrow> nat \<Rightarrow> lsys \<Rightarrow> int \<times> lsys" where
  "put_queue v t s =
     (case q_put (l_queue s) v of
        (r, q', sig) \<Rightarrow> (r, s\<lparr>l_queue := q', threads := wake_up sig t (threads s)\<rparr>))"

text \<open>\<open>t_shape\<close>: \<open>t1\<close> and \<open>t2\<close> are the two readings of the clock.\<close>

definition t_shape :: "int \<Rightarrow> int \<Rightarrow> nat \<Rightarrow> lsys \<Rightarrow> lsys" where
  "t_shape t1 t2 t s =
     (if last_action s + 10 > t1 then s
      else let s1 = s\<lparr>last_action := t2\<rparr> in
        if ti_free (thread_info s1) > of_nat MAXFREETHREAD then snd (put_queue (-1) t s1) else s1)"

text \<open>
  One access to shared state by the main thread. \<open>ok\<close>: \<open>poll\<close> succeeded; \<open>t1\<close>, \<open>t2\<close>: the
  clock; \<open>fd\<close>: what \<open>accept\<close> returned; \<open>t\<close>: the thread that a signal wakes; \<open>oks\<close>: the
  results of \<open>pthread_create\<close>.
\<close>

definition main_step :: "bool \<Rightarrow> int \<Rightarrow> int \<Rightarrow> int \<Rightarrow> nat \<Rightarrow> bool list \<Rightarrow> lsys \<Rightarrow> lsys" where
  "main_step ok t1 t2 fd t oks s =
     (let ti = thread_info s in
      case main_at s of
        Poll \<Rightarrow> s\<lparr>main_at := if ok then Shape else Exited 11\<rparr>
      | Shape \<Rightarrow> (t_shape t1 t2 t s)\<lparr>main_at := Accept\<rparr>
      | Accept \<Rightarrow>
          if fd \<ge> 0 then s\<lparr>main_at := Put fd, opened := fd # opened s\<rparr>
          else s\<lparr>main_at := CheckLow\<rparr>
      | Put s1 \<Rightarrow>
          (case put_queue s1 t s of
             (r, s') \<Rightarrow>
               if r \<noteq> 0 then s'\<lparr>main_at := CheckLow, closed := s1 # closed s'\<rparr>
               else s'\<lparr>main_at := CheckLow\<rparr>)
      | CheckLow \<Rightarrow> s\<lparr>main_at := if ti_free ti \<le> of_nat LOWTHREAD then CheckMax else Poll\<rparr>
      | CheckMax \<Rightarrow> s\<lparr>main_at := if ti_free ti < of_nat MAXTHREAD then CountGroup else Poll\<rparr>
      | CountGroup \<Rightarrow>
          s\<lparr>main_at := if ti_count ti + of_nat INITIALTHREAD < of_nat MAXTHREAD
                       then Start (of_nat INITIALTHREAD) else CountRest\<rparr>
      | CountRest \<Rightarrow> s\<lparr>main_at := Start (of_nat MAXTHREAD - ti_count ti)\<rparr>
      | Start n \<Rightarrow> (init_threads n oks s)\<lparr>main_at := Poll\<rparr>
      | Exited n \<Rightarrow> s)"

text \<open>
  One access to shared state by thread \<open>t\<close> of the pool. \<open>ok\<close>: its buffers could be
  allocated. Between \<open>Serving\<close> and \<open>Closed\<close> the requests of the connection are handled
  and the socket is closed.
\<close>

definition instance_step :: "bool \<Rightarrow> nat \<Rightarrow> lsys \<Rightarrow> lsys" where
  "instance_step ok t s =
     (let ti = thread_info s; at = (\<lambda>p. (threads s)[t := p]) in
      if \<not> t < length (threads s) then s
      else case threads s ! t of
        Starting \<Rightarrow>
          if ok then s\<lparr>threads := at Ready, thread_info := change_free_thread 1 0 ti\<rparr>
          else s\<lparr>threads := at Leaving\<rparr>
      | Ready \<Rightarrow>
          (case q_get (l_queue s) of
             Got v q' \<Rightarrow> s\<lparr>threads := at (Took v), l_queue := q'\<rparr>
           | Blocked q' \<Rightarrow> s\<lparr>threads := at Asleep, l_queue := q'\<rparr>)
      | Asleep \<Rightarrow> s
      | Took v \<Rightarrow>
          s\<lparr>threads := at (if v < 0 then Leaving else Serving v),
            thread_info := change_free_thread (-1) 0 ti\<rparr>
      | Serving v \<Rightarrow> s\<lparr>threads := at Closed, closed := v # closed s\<rparr>
      | Closed \<Rightarrow> s\<lparr>threads := at Ready, thread_info := change_free_thread 1 0 ti\<rparr>
      | Leaving \<Rightarrow> s\<lparr>threads := at Gone, thread_info := change_free_thread 0 (-1) ti\<rparr>
      | Gone \<Rightarrow> s)"

text \<open>Steps of the whole process; \<open>Spurious\<close> is a wake-up without a signal.\<close>

datatype event =
  Main bool int int int nat "bool list" | Worker bool nat | Spurious nat

fun lstep :: "event \<Rightarrow> lsys \<Rightarrow> lsys" where
  "lstep (Main ok t1 t2 fd t oks) s = main_step ok t1 t2 fd t oks s"
| "lstep (Worker ok t) s = instance_step ok t s"
| "lstep (Spurious t) s = s\<lparr>threads := wake_up True t (threads s)\<rparr>"

text \<open>
  A signal is not lost while a thread sleeps: the platform chooses a sleeping one.
\<close>

fun fair :: "event \<Rightarrow> lsys \<Rightarrow> bool" where
  "fair (Main ok t1 t2 fd t oks) s \<longleftrightarrow>
     (Asleep \<in> set (threads s) \<longrightarrow> t < length (threads s) \<and> threads s ! t = Asleep)"
| "fair _ s \<longleftrightarrow> True"

text \<open>The state when \<open>main\<close> enters its loop: the queue and the first group of threads.\<close>

definition l_start :: "int list \<Rightarrow> bool list \<Rightarrow> lsys" where
  "l_start block oks =
     init_threads (of_nat INITIALTHREAD) oks
       \<lparr>l_queue = snd (q_init (MAXTHREAD + 1) (Some block)), thread_info = init_thread_info,
        threads = [], main_at = Poll, last_action = 0, opened = [], closed = []\<rparr>"

inductive lreach :: "lsys \<Rightarrow> bool" where
  start: "length block = MAXTHREAD + 1 \<Longrightarrow> lreach (l_start block oks)"
| step: "lreach s \<Longrightarrow> fair e s \<Longrightarrow> lreach (lstep e s)"

subsection \<open>Privileges\<close>

text \<open>
  The identity of the process, and the two system calls: the superuser may take any
  identity, any other user only its own. \<open>Inl n\<close>: the process ends with exit status \<open>n\<close>.
\<close>

record ids =
  p_uid :: int
  p_gid :: int

definition sys_setuid :: "int \<Rightarrow> ids \<Rightarrow> ids option" where
  "sys_setuid u i = (if p_uid i = 0 \<or> u = p_uid i then Some (i\<lparr>p_uid := u\<rparr>) else None)"

definition sys_setgid :: "int \<Rightarrow> ids \<Rightarrow> ids option" where
  "sys_setgid g i = (if p_uid i = 0 \<or> g = p_gid i then Some (i\<lparr>p_gid := g\<rparr>) else None)"

definition ROOTUID :: int where "ROOTUID = 0"
definition ROOTGID :: int where "ROOTGID = 0"

definition set_new_uid :: "int \<Rightarrow> ids \<Rightarrow> int + ids" where
  "set_new_uid uid i =
     (if uid \<noteq> ROOTUID then (case sys_setuid uid i of Some i' \<Rightarrow> Inr i' | None \<Rightarrow> Inl 9) else Inr i)"

definition set_new_gid :: "int \<Rightarrow> ids \<Rightarrow> int + ids" where
  "set_new_gid gid i =
     (if gid \<noteq> ROOTGID then (case sys_setgid gid i of Some i' \<Rightarrow> Inr i' | None \<Rightarrow> Inl 9) else Inr i)"

text \<open>The two calls of \<open>main\<close>, after the port is bound and before the first thread starts.\<close>

definition drop_privileges :: "weborf_configuration_t \<Rightarrow> ids \<Rightarrow> int + ids" where
  "drop_privileges conf i =
     (case set_new_gid (conf_gid conf) i of
        Inl n \<Rightarrow> Inl n
      | Inr i1 \<Rightarrow> set_new_uid (conf_uid conf) i1)"

subsection \<open>Counting threads and sockets\<close>

definition live :: "phase \<Rightarrow> bool" where "live p \<longleftrightarrow> p \<noteq> Gone"

definition idle :: "phase \<Rightarrow> bool" where
  "idle p \<longleftrightarrow> (case p of Ready \<Rightarrow> True | Asleep \<Rightarrow> True | Took _ \<Rightarrow> True | _ \<Rightarrow> False)"

definition tally :: "(phase \<Rightarrow> bool) \<Rightarrow> phase list \<Rightarrow> nat" where
  "tally P ths = sum_list (map (\<lambda>p. of_bool (P p)) ths)"

definition held :: "phase \<Rightarrow> int multiset" where
  "held p = (case p of Took v \<Rightarrow> if v < 0 then {#} else {#v#} | Serving v \<Rightarrow> {#v#} | _ \<Rightarrow> {#})"

definition main_held :: "main_pc \<Rightarrow> int multiset" where
  "main_held m = (case m of Put v \<Rightarrow> {#v#} | _ \<Rightarrow> {#})"

definition queued :: "syn_queue_t \<Rightarrow> int multiset" where
  "queued q = mset (filter (\<lambda>v. 0 \<le> v) (q_list q))"

definition in_threads :: "phase list \<Rightarrow> int multiset" where
  "in_threads ths = sum_list (map held ths)"

definition the_threads :: "phase \<Rightarrow> phase list \<Rightarrow> nat set" where
  "the_threads p ths = {t. t < length ths \<and> ths ! t = p}"

definition queue_view :: "lsys \<Rightarrow> qsys" where
  "queue_view s = \<lparr>que = l_queue s, sleeping = the_threads Asleep (threads s),
     woken = the_threads Ready (threads s)\<rparr>"

lemma sum_list_update_add:
  fixes f :: "'a \<Rightarrow> 'b::comm_monoid_add"
  shows "i < length xs \<Longrightarrow> sum_list (map f (xs[i := y])) + f (xs ! i) = sum_list (map f xs) + f y"
  by (induction xs arbitrary: i) (auto simp: ac_simps split: nat.split)

lemma tally_update:
  "t < length ths \<Longrightarrow> tally P (ths[t := p]) + of_bool (P (ths ! t)) = tally P ths + of_bool (P p)"
  unfolding tally_def by (rule sum_list_update_add)

lemma in_threads_update:
  "t < length ths \<Longrightarrow> in_threads (ths[t := p]) + held (ths ! t) = in_threads ths + held p"
  unfolding in_threads_def by (rule sum_list_update_add)

lemma tally_append: "tally P (xs @ ys) = tally P xs + tally P ys"
  by (simp add: tally_def)

lemma tally_le: "(\<And>p. P p \<Longrightarrow> Q p) \<Longrightarrow> tally P ths \<le> tally Q ths"
  unfolding tally_def by (rule sum_list_mono) auto

lemma tally_fresh:
  "set ps \<subseteq> {Starting, Gone} \<Longrightarrow> tally live ps = length (filter (\<lambda>p. p = Starting) ps) \<and>
     tally live ps \<le> length ps \<and> tally idle ps = 0 \<and> in_threads ps = {#}"
  by (induction ps) (auto simp: tally_def live_def idle_def in_threads_def held_def)

lemma created_fresh: "set (created oks n) \<subseteq> {Starting, Gone}" "length (created oks n) = n"
  by (auto simp: created_def)

lemmas tally_created = tally_fresh [OF created_fresh(1), unfolded created_fresh(2)]

lemma the_threads_update:
  "t < length ths \<Longrightarrow> the_threads p (ths[t := r]) =
     (if r = p then insert t (the_threads p ths) else the_threads p ths - {t})"
  by (auto simp: the_threads_def nth_list_update)

lemma the_threads_append_fresh:
  "set ps \<subseteq> {Starting, Gone} \<Longrightarrow> p \<noteq> Starting \<Longrightarrow> p \<noteq> Gone \<Longrightarrow> the_threads p (ths @ ps) = the_threads p ths"
proof -
  assume "set ps \<subseteq> {Starting, Gone}" "p \<noteq> Starting" "p \<noteq> Gone"
  then have "ps ! (i - length ths) \<noteq> p" if "\<not> i < length ths" "i < length ths + length ps" for i
    using that nth_mem [of "i - length ths" ps] by force
  then have "(ths @ ps) ! i = p \<longleftrightarrow> i < length ths \<and> ths ! i = p" if "i < length ths + length ps" for i
    using that by (simp add: nth_append)
  then show ?thesis by (auto simp: the_threads_def)
qed

lemma finite_the_threads [simp]: "finite (the_threads p ths)"
  by (simp add: the_threads_def)

lemma idle_le_live: "tally idle ths \<le> tally live ths"
  by (rule tally_le) (auto simp: idle_def live_def)

lemmas phase_simps = live_def idle_def held_def main_held_def

subsection \<open>The counters\<close>

definition counters_ok :: "lsys \<Rightarrow> bool" where
  "counters_ok s \<longleftrightarrow> ti_free (thread_info s) = of_nat (tally idle (threads s)) \<and>
     ti_count (thread_info s) = of_nat (tally live (threads s)) \<and>
     tally live (threads s) < MAXTHREAD \<and>
     (case main_at s of Start n \<Rightarrow> n \<le> of_nat MAXTHREAD | _ \<Rightarrow> True)"

lemma wake_up_tally [simp]:
  "tally live (wake_up sig t ths) = tally live ths"
  "tally idle (wake_up sig t ths) = tally idle ths"
  "in_threads (wake_up sig t ths) = in_threads ths"
  using tally_update [of t ths live Ready] tally_update [of t ths idle Ready] in_threads_update [of t ths Ready]
  by (auto simp: wake_up_def phase_simps)

lemma put_queue_simps [simp]:
  "put_queue v t s = (r, s') \<Longrightarrow> thread_info s' = thread_info s"
  "put_queue v t s = (r, s') \<Longrightarrow> main_at s' = main_at s"
  "put_queue v t s = (r, s') \<Longrightarrow> opened s' = opened s"
  "put_queue v t s = (r, s') \<Longrightarrow> closed s' = closed s"
  "put_queue v t s = (r, s') \<Longrightarrow> tally live (threads s') = tally live (threads s)"
  "put_queue v t s = (r, s') \<Longrightarrow> tally idle (threads s') = tally idle (threads s)"
  "put_queue v t s = (r, s') \<Longrightarrow> in_threads (threads s') = in_threads (threads s)"
  by (auto simp: put_queue_def split: prod.splits)

lemma t_shape_cases:
  obtains "t_shape t1 t2 t s = s" | "t_shape t1 t2 t s = s\<lparr>last_action := t2\<rparr>"
  | r s' where "put_queue (-1) t (s\<lparr>last_action := t2\<rparr>) = (r, s')" "t_shape t1 t2 t s = s'"
  by (auto simp: t_shape_def Let_def split: if_splits) (metis prod.collapse)

lemma counters_cong:
  "counters_ok s \<Longrightarrow> thread_info s' = thread_info s \<Longrightarrow> tally live (threads s') = tally live (threads s) \<Longrightarrow>
     tally idle (threads s') = tally idle (threads s) \<Longrightarrow>
     (\<And>n. main_at s' = Start n \<Longrightarrow> n \<le> of_nat MAXTHREAD) \<Longrightarrow> counters_ok s'"
  by (auto simp: counters_ok_def split: main_pc.splits)

lemma counters_init_threads:
  assumes "counters_ok s" and "n \<le> of_nat MAXTHREAD"
  shows "counters_ok ((init_threads n oks s)\<lparr>main_at := Poll\<rparr>)"
proof (cases "ti_count (thread_info s) + n < of_nat MAXTHREAD")
  case True
  let ?c = "tally live (threads s)"
  have c: "ti_count (thread_info s) = of_nat ?c" "?c < 300" and n: "unat n \<le> 300"
    using assms by (auto simp: counters_ok_def thread_limits word_le_nat_alt)
  have "unat (of_nat ?c + n) = ?c + unat n"
    using c(2) n by (subst unat_add_lem [THEN iffD1]) (auto simp: unat_of_nat)
  then have "?c + unat n < 300" using True c by (simp add: word_less_nat_alt thread_limits)
  then show ?thesis
    using assms(1) True tally_created [of oks "unat n"]
    by (auto simp: counters_ok_def init_threads_def Let_def tally_append thread_limits)
next
  case False
  then show ?thesis using assms(1) by (auto simp: counters_ok_def init_threads_def)
qed

lemma counters_main_step: "counters_ok s \<Longrightarrow> counters_ok (main_step ok t1 t2 fd t oks s)"
proof (cases "main_at s")
  case Shape
  assume "counters_ok s"
  then show ?thesis using Shape
    by (cases rule: t_shape_cases [of t1 t2 t s]) (auto simp: main_step_def elim!: counters_cong)
next
  case (Put s1)
  assume "counters_ok s"
  then show ?thesis using Put by (auto simp: main_step_def elim!: counters_cong split: prod.splits)
next
  case CountRest
  assume "counters_ok s"
  moreover from this have "of_nat MAXTHREAD - ti_count (thread_info s) \<le> of_nat MAXTHREAD"
    by (auto simp: counters_ok_def thread_limits word_le_nat_alt unat_sub_if' unat_of_nat)
  ultimately show ?thesis using CountRest by (auto simp: main_step_def elim!: counters_cong)
next
  case (Start n)
  assume "counters_ok s"
  moreover from this Start have "n \<le> of_nat MAXTHREAD" by (simp add: counters_ok_def)
  ultimately show ?thesis using Start by (simp add: main_step_def counters_init_threads)
qed (auto simp: main_step_def thread_limits elim!: counters_cong)

lemma of_bool_word [simp]: "of_nat (of_bool b) = (of_bool b :: 32 word)"
  by (cases b) simp_all

lemma list_update_same [simp]: "xs ! t = p \<Longrightarrow> xs[t := p] = xs"
  by auto

lemma counters_move:
  assumes "counters_ok s" and t: "t < length (threads s)" and "live p \<Longrightarrow> live (threads s ! t)"
    and "threads s' = (threads s)[t := p]" and "main_at s' = main_at s"
    and "ti_free (thread_info s') + of_bool (idle (threads s ! t)) = ti_free (thread_info s) + of_bool (idle p)"
    and "ti_count (thread_info s') + of_bool (live (threads s ! t)) = ti_count (thread_info s) + of_bool (live p)"
  shows "counters_ok s'"
proof -
  have "of_nat (tally P (threads s')) + of_bool (P (threads s ! t)) =
      (of_nat (tally P (threads s)) + of_bool (P p) :: 32 word)" for P
    using arg_cong [OF tally_update [OF t, of P p], of "of_nat :: nat \<Rightarrow> 32 word"] assms(4) by simp
  then have "ti_free (thread_info s') = of_nat (tally idle (threads s'))"
    "ti_count (thread_info s') = of_nat (tally live (threads s'))"
    using assms(1,6,7) by (metis add_right_cancel counters_ok_def)+
  moreover have "tally live (threads s') \<le> tally live (threads s)"
    using tally_update [OF t, of live p] assms(3,4) by (cases "live p") auto
  ultimately show ?thesis using assms(1,5) by (auto simp: counters_ok_def)
qed

lemma counters_instance_step: "counters_ok s \<Longrightarrow> counters_ok (instance_step ok t s)"
proof (cases "t < length (threads s)")
  case True
  assume "counters_ok s"
  note move = counters_move [OF this True]
  show ?thesis
    by (rule move [where p = "threads (instance_step ok t s) ! t"]; cases "threads s ! t")
      (use True in \<open>auto simp: instance_step_def Let_def change_free_thread_def phase_simps
        split: get_result.splits\<close>)
qed (simp add: instance_step_def)

lemma counters_lstep: "counters_ok s \<Longrightarrow> counters_ok (lstep e s)"
  by (cases e) (auto simp: counters_main_step counters_instance_step, simp add: counters_ok_def)

lemma counters_start: "counters_ok (l_start block oks)"
proof -
  let ?s = "\<lparr>l_queue = snd (q_init (MAXTHREAD + 1) (Some block)), thread_info = init_thread_info,
        threads = [], main_at = Poll, last_action = 0, opened = [], closed = []\<rparr>"
  have "counters_ok ?s" by (simp add: counters_ok_def init_thread_info_def tally_def thread_limits)
  from counters_init_threads [OF this, of "of_nat INITIALTHREAD" oks]
  have "counters_ok ((init_threads (of_nat INITIALTHREAD) oks ?s)\<lparr>main_at := Poll\<rparr>)"
    by (simp add: thread_limits)
  moreover have "(init_threads n oks ?s)\<lparr>main_at := Poll\<rparr> = init_threads n oks ?s" for n
    by (simp add: init_threads_def Let_def)
  ultimately show ?thesis by (simp add: l_start_def)
qed

lemma counters_reach: "lreach s \<Longrightarrow> counters_ok s"
  by (induction rule: lreach.induct) (auto simp: counters_start counters_lstep)

subsection \<open>The sockets\<close>

definition sockets_ok :: "lsys \<Rightarrow> bool" where
  "sockets_ok s \<longleftrightarrow> q_inv (l_queue s) \<and> q_size (l_queue s) = MAXTHREAD + 1 \<and>
     (\<forall>v. main_at s = Put v \<longrightarrow> 0 \<le> v) \<and>
     mset (opened s) = mset (closed s) + queued (l_queue s) + in_threads (threads s) + main_held (main_at s)"

lemma q_get_queued:
  assumes "q_inv q" and "q_get q = Got v q'"
  shows "queued q = queued q' + held (Took v)" and "q_size q' = q_size q"
proof -
  have "0 < q_num q" using assms(2) by (auto simp: q_get_def split: if_splits)
  with q_get_Got [OF assms(1)] assms(2) have h: "v = hd (q_list q)" "q_list q' = tl (q_list q)"
    "q_size q' = q_size q" by auto
  from \<open>0 < q_num q\<close> have "q_list q \<noteq> []" by (metis length_q_list list.size(3) less_irrefl)
  then show "queued q = queued q' + held (Took v)" using h
    by (cases "q_list q") (auto simp: queued_def held_def)
  show "q_size q' = q_size q" by (rule h(3))
qed

lemma q_put_queued:
  assumes "q_inv q" and "q_put q v = (r, q', sig)"
  shows "queued q' = (if r = 0 then queued q + held (Took v) else queued q)" and "q_size q' = q_size q"
proof -
  have "q_num q \<le> q_size q" using assms(1) by (simp add: q_inv_def)
  with q_put_accept [OF assms(1), of v] q_put_full [OF assms(1), of v] assms(2)
  have "q_size q' = q_size q \<and> (r = 0 \<and> q_list q' = q_list q @ [v] \<or> r = 1 \<and> q_list q' = q_list q)"
    by (cases "q_num q = q_size q") auto
  then show "queued q' = (if r = 0 then queued q + held (Took v) else queued q)" "q_size q' = q_size q"
    by (auto simp: queued_def held_def)
qed

lemma sockets_put_queue:
  assumes "sockets_ok s" and "put_queue v t s = (r, s')"
  shows "q_inv (l_queue s')" and "q_size (l_queue s') = MAXTHREAD + 1"
    and "queued (l_queue s') = (if r = 0 then queued (l_queue s) + held (Took v) else queued (l_queue s))"
  using assms q_put_inv [of "l_queue s" v] q_put_queued [of "l_queue s" v]
  by (auto simp: sockets_ok_def put_queue_def split: prod.splits)

lemma sockets_main_step:
  assumes "sockets_ok s" shows "sockets_ok (main_step ok t1 t2 fd t oks s)"
proof (cases "main_at s")
  case Shape
  have s: "sockets_ok (s\<lparr>last_action := t2\<rparr>)" using assms by (simp add: sockets_ok_def)
  then show ?thesis using assms Shape sockets_put_queue [OF s, of "-1"]
    by (cases rule: t_shape_cases [of t1 t2 t s])
       (auto simp: main_step_def sockets_ok_def phase_simps)
next
  case (Put s1)
  then show ?thesis using assms sockets_put_queue [OF assms, of s1]
    by (auto simp: main_step_def sockets_ok_def phase_simps split: prod.splits if_splits)
next
  case (Start n)
  then show ?thesis using assms tally_created
    by (auto simp: main_step_def init_threads_def Let_def sockets_ok_def in_threads_def phase_simps)
qed (use assms in \<open>auto simp: main_step_def sockets_ok_def phase_simps\<close>)

lemma sockets_instance_step:
  assumes "sockets_ok s" shows "sockets_ok (instance_step ok t s)"
proof (cases "t < length (threads s)")
  case True
  note up = in_threads_update [OF True]
  show ?thesis
  proof (cases "threads s ! t")
    case Ready
    show ?thesis
    proof (cases "q_get (l_queue s)")
      case (Got v q')
      have "q_inv (l_queue s)" using assms by (simp add: sockets_ok_def)
      then show ?thesis
        using assms True Ready Got up [of "Took v"] q_get_queued [OF _ Got] q_get_inv [OF _ Got]
        by (auto simp: instance_step_def sockets_ok_def held_def Let_def split: if_splits)
    next
      case (Blocked q')
      then have "q' = l_queue s\<lparr>n_wait_dt := n_wait_dt (l_queue s) + 1\<rparr>"
        by (auto simp: q_get_def split: if_splits)
      then show ?thesis using assms True Ready Blocked up [of Asleep]
        by (auto simp: instance_step_def sockets_ok_def held_def queued_def Let_def)
    qed
  next
    case (Took v)
    then show ?thesis using assms True up [of Leaving] up [of "Serving v"]
      by (auto simp: instance_step_def sockets_ok_def phase_simps Let_def)
  next
    case (Serving v)
    then show ?thesis using assms True up [of Closed]
      by (auto simp: instance_step_def sockets_ok_def phase_simps Let_def)
  qed (use assms True up [of Ready] up [of Leaving] up [of Gone] in
      \<open>auto simp: instance_step_def sockets_ok_def phase_simps Let_def\<close>)
qed (use assms in \<open>simp add: instance_step_def\<close>)

lemma sockets_reach: "lreach s \<Longrightarrow> sockets_ok s"
proof (induction rule: lreach.induct)
  case (start block oks)
  then show ?case using q_init_inv [of "MAXTHREAD + 1" block] tally_created [of oks]
    by (simp add: l_start_def init_threads_def Let_def sockets_ok_def queued_def in_threads_def main_held_def)
next
  case (step s e)
  then show ?case
    by (cases e) (auto simp: sockets_main_step sockets_instance_step, simp add: sockets_ok_def)
qed

subsection \<open>Sleepers\<close>

text \<open>
  The threads at \<open>q_get\<close> seen through the queue: the steps of the pool are steps of
  \<open>qstep\<close>, or let more threads come to the queue.
\<close>

lemma wait_inv_more:
  assumes "wait_inv (queue_view s)" and "l_queue s' = l_queue s"
    and "the_threads Asleep (threads s') = the_threads Asleep (threads s)"
    and "the_threads Ready (threads s) \<subseteq> the_threads Ready (threads s')"
  shows "wait_inv (queue_view s')"
proof -
  have "card (the_threads Ready (threads s)) \<le> card (the_threads Ready (threads s'))"
    by (rule card_mono [OF finite_the_threads assms(4)])
  moreover have "the_threads Asleep ths \<inter> the_threads Ready ths = {}" for ths
    by (auto simp: the_threads_def)
  ultimately show ?thesis using assms by (auto simp: wait_inv_def queue_view_def)
qed

lemma wait_inv_put_queue:
  assumes w: "wait_inv (queue_view s)" and put: "put_queue v t s = (r, s')"
    and fair: "Asleep \<in> set (threads s) \<longrightarrow> t < length (threads s) \<and> threads s ! t = Asleep"
  shows "wait_inv (queue_view s')"
proof -
  obtain q' sig where q: "q_put (l_queue s) v = (r, q', sig)" and
    s': "s' = s\<lparr>l_queue := q', threads := wake_up sig t (threads s)\<rparr>"
    using put by (auto simp: put_queue_def split: prod.splits)
  have "qstep (queue_view s) (queue_view s')"
  proof (cases "sig \<and> t < length (threads s) \<and> threads s ! t = Asleep")
    case True
    then have "queue_view s' = (queue_view s)\<lparr>que := q', sleeping := sleeping (queue_view s) - {t},
        woken := insert t (woken (queue_view s))\<rparr>"
      by (simp add: queue_view_def s' wake_up_def the_threads_update)
    moreover have "t \<in> sleeping (queue_view s)" using True by (simp add: queue_view_def the_threads_def)
    ultimately show ?thesis using qstep.put_wakes [of "queue_view s" v r q' t] q True
      by (simp add: queue_view_def)
  next
    case False
    then have "queue_view s' = (queue_view s)\<lparr>que := q'\<rparr>" by (auto simp: queue_view_def s' wake_up_def)
    moreover have "\<not> sig \<or> sleeping (queue_view s) = {}"
      using False fair by (auto simp: queue_view_def the_threads_def dest: nth_mem)
    ultimately show ?thesis using qstep.put_silent [of "queue_view s" v r q' sig] q
      by (simp add: queue_view_def)
  qed
  then show ?thesis using w by (rule wait_inv_step)
qed

lemma wait_inv_main_step:
  assumes w: "wait_inv (queue_view s)" and fair: "fair (Main ok t1 t2 fd t oks) s"
  shows "wait_inv (queue_view (main_step ok t1 t2 fd t oks s))"
proof (cases "main_at s")
  case Shape
  have q: "queue_view (main_step ok t1 t2 fd t oks s) = queue_view (t_shape t1 t2 t s)"
    using Shape by (simp add: main_step_def queue_view_def)
  show ?thesis unfolding q
    using w fair wait_inv_put_queue [of "s\<lparr>last_action := t2\<rparr>" "-1" t]
    by (cases rule: t_shape_cases [of t1 t2 t s]) (auto simp: queue_view_def)
next
  case (Put s1)
  then show ?thesis using w fair wait_inv_put_queue [of s s1 t]
    by (auto simp: main_step_def queue_view_def split: prod.splits)
next
  case (Start n)
  then show ?thesis using w created_fresh
    by (auto simp: main_step_def init_threads_def Let_def queue_view_def the_threads_append_fresh)
qed (use w in \<open>auto simp: main_step_def queue_view_def\<close>)

lemma wait_inv_instance_step:
  assumes w: "wait_inv (queue_view s)"
  shows "wait_inv (queue_view (instance_step ok t s))"
proof (cases "t < length (threads s)")
  case True
  show ?thesis
  proof (cases "threads s ! t")
    case Ready
    have t: "t \<notin> sleeping (queue_view s)" using Ready by (simp add: queue_view_def the_threads_def)
    have "qstep (queue_view s) (queue_view (instance_step ok t s))"
    proof (cases "q_get (l_queue s)")
      case (Got v q')
      moreover have "the_threads Asleep (threads s) - {t} = the_threads Asleep (threads s)"
        using Ready by (auto simp: the_threads_def)
      ultimately show ?thesis using True Ready qstep.get_item [OF t, of v q']
        by (simp add: queue_view_def instance_step_def Let_def the_threads_update)
    next
      case (Blocked q')
      then show ?thesis using True Ready qstep.get_wait [OF t, of q']
        by (simp add: queue_view_def instance_step_def Let_def the_threads_update)
    qed
    then show ?thesis using w by (rule wait_inv_step)
  qed (use w True in \<open>auto simp: instance_step_def Let_def the_threads_def nth_list_update
      elim!: wait_inv_more split: if_splits\<close>)
qed (use w in \<open>simp add: instance_step_def\<close>)

lemma wait_inv_spurious:
  assumes w: "wait_inv (queue_view s)"
  shows "wait_inv (queue_view (s\<lparr>threads := wake_up True t (threads s)\<rparr>))"
proof (cases "t \<in> sleeping (queue_view s)")
  case True
  then show ?thesis using wait_inv_step [OF qstep.spurious [OF True] w]
    by (simp add: queue_view_def wake_up_def the_threads_update) (simp add: the_threads_def)
next
  case False
  then have "wake_up True t (threads s) = threads s" by (auto simp: wake_up_def queue_view_def the_threads_def)
  then show ?thesis using w by (simp add: queue_view_def)
qed

lemma wait_inv_lreach: "lreach s \<Longrightarrow> wait_inv (queue_view s)"
proof (induction rule: lreach.induct)
  case (start block oks)
  let ?q = "snd (q_init (MAXTHREAD + 1) (Some block))"
  have "wait_inv \<lparr>que = ?q, sleeping = {}, woken = {}\<rparr>"
    using q_init_inv [of "MAXTHREAD + 1" block] start by (simp add: wait_inv_def)
  moreover have "the_threads p (threads (l_start block oks)) = {}" if "p \<noteq> Starting" "p \<noteq> Gone" for p
    using the_threads_append_fresh [OF created_fresh(1) that, of "[]" oks]
    by (simp add: l_start_def init_threads_def Let_def the_threads_def)
  ultimately show ?case by (simp add: queue_view_def l_start_def init_threads_def Let_def)
next
  case (step s e)
  then show ?case
    by (cases e) (auto simp: wait_inv_main_step wait_inv_instance_step wait_inv_spurious)
qed

subsection \<open>The last group of threads\<close>

text \<open>
  Near the limit the main loop asks for \<open>MAXTHREAD - count\<close> threads, and \<open>init_threads\<close>
  refuses a request that would reach the limit: the smaller group is never started.
\<close>

lemma rest_never_starts: "init_threads (of_nat MAXTHREAD - ti_count (thread_info s)) oks s = s"
  by (simp add: init_threads_def)

text \<open>A server started by the superuser changes the group first, while it still may.\<close>

lemma superuser_drops:
  assumes "p_uid i = 0"
  shows "drop_privileges conf i =
    Inr \<lparr>p_uid = conf_uid conf, p_gid = if conf_gid conf = 0 then p_gid i else conf_gid conf\<rparr>"
  using assms
  by (cases i) (simp add: drop_privileges_def set_new_uid_def set_new_gid_def sys_setuid_def sys_setgid_def
      ROOTUID_def ROOTGID_def)

subsection \<open>Properties\<close>

text \<open>
  Claim C28. The counters of \<open>thread_info\<close> are exact and bounded: in every state that the
  listener and the workers can reach, whatever the interleaving and whatever fails,
  \<open>count\<close> is the number of threads that have been started and have not ended, \<open>free\<close> the
  number of those that are not serving a connection, neither has wrapped around, and there
  are fewer than \<open>MAXTHREAD\<close> threads.
\<close>

theorem thread_counters_exact:
  assumes "lreach s"
  shows "unat (ti_count (thread_info s)) = tally live (threads s) \<and>
    unat (ti_free (thread_info s)) = tally idle (threads s) \<and>
    tally idle (threads s) \<le> tally live (threads s) \<and> tally live (threads s) < MAXTHREAD"
proof -
  have c: "counters_ok s" using assms by (rule counters_reach)
  then have m: "tally live (threads s) < 300" by (simp add: counters_ok_def thread_limits)
  have "tally idle (threads s) \<le> tally live (threads s)" by (rule idle_le_live)
  then show ?thesis using c m by (simp add: counters_ok_def unat_of_nat)
qed

text \<open>An executable form of reachability: a list of events from the start.\<close>

fun run_events :: "event list \<Rightarrow> lsys \<Rightarrow> lsys" where
  "run_events [] s = s"
| "run_events (e # es) s = run_events es (lstep e s)"

fun all_fair :: "event list \<Rightarrow> lsys \<Rightarrow> bool" where
  "all_fair [] s \<longleftrightarrow> True"
| "all_fair (e # es) s \<longleftrightarrow> fair e s \<and> all_fair es (lstep e s)"

lemma run_events_reach: "lreach s \<Longrightarrow> all_fair es s \<Longrightarrow> lreach (run_events es s)"
  by (induction es arbitrary: s) (auto intro: lreach.step)

text \<open>
  A first connection: two threads wait, socket 7 is accepted and queued, the second
  thread is woken but the third, which comes later, takes the socket and serves it.
\<close>

definition first_events :: "event list" where
  "first_events =
     [Worker True 0, Worker True 0, Worker True 1, Worker True 1,
      Main True 0 0 0 0 [], Main True 5 5 0 0 [], Main True 0 0 7 0 [], Main True 0 0 0 1 [],
      Worker True 2, Worker True 2, Worker True 2]"

definition first_state :: lsys where
  "first_state = run_events first_events (l_start (replicate 301 0) [])"

lemma first_reach: "lreach first_state"
proof -
  have "lreach (l_start (replicate 301 0) [])" by (rule lreach.start) (simp add: thread_limits)
  moreover have "all_fair first_events (l_start (replicate 301 0) [])" by code_simp
  ultimately show ?thesis unfolding first_state_def by (rule run_events_reach)
qed

lemma first_threads: "threads first_state = [Asleep, Ready, Serving 7, Starting, Starting, Starting]"
  by code_simp

theorem thread_counters_exact_witness:
  "unat (ti_count (thread_info first_state)) = 6 \<and> unat (ti_free (thread_info first_state)) = 2"
  using thread_counters_exact [OF first_reach]
  by (simp add: first_threads tally_def live_def idle_def)

text \<open>
  Claim C27. No connection is lost and none is closed twice: in every reachable state the
  sockets that \<open>accept\<close> returned are, with their multiplicity, those that were closed, those
  in the queue, those that a worker took, and the one that the main thread is about to
  put into the queue; in particular a socket that the full queue refuses is closed.
\<close>

theorem sockets_conserved:
  assumes "lreach s"
  shows "mset (opened s) =
    mset (closed s) + queued (l_queue s) + in_threads (threads s) + main_held (main_at s)"
  using sockets_reach [OF assms] by (simp add: sockets_ok_def)

theorem sockets_conserved_witness:
  "mset (opened first_state) = mset (closed first_state) + queued (l_queue first_state) +
     in_threads (threads first_state) + main_held (main_at first_state) \<and> opened first_state = [7]"
proof
  show "mset (opened first_state) = mset (closed first_state) + queued (l_queue first_state) +
     in_threads (threads first_state) + main_held (main_at first_state)"
    by (rule sockets_conserved [OF first_reach])
  show "opened first_state = [7]" by code_simp
qed



end
