(* ===== verification/Cache.thy ===== *)
theory Cache
  imports SendFile
begin

section \<open>cachedir.c: generated pages kept on disk\<close>

text \<open>
  The cache of directory listings and PROPFIND answers. The global \<open>cachedir\<close> is an
  argument (\<open>None\<close> is the null pointer). A cached page is a file whose name is made of a
  prefix for the kind of page and of the inode, device and modification time of the
  directory, so that a change of the directory is a miss. Whether \<open>flock\<close> gets its lock is
  one of the outcomes taken from the list \<open>faults\<close>.
\<close>

subsection \<open>Definitions\<close>

definition ull :: "int \<Rightarrow> string" where
  "ull n = show_nat (unat (word_of_int n :: 64 word))"

definition cached_filename :: "string \<Rightarrow> nat \<Rightarrow> connection_t \<Rightarrow> string" where
  "cached_filename dir uprefix c =
     take (PATH_LEN - 1)
       (dir @ ''/'' @ show_nat uprefix @ ''-'' @ ull (st_ino (strfile_stat c)) @ ''-'' @
        ull (st_dev (strfile_stat c)) @ ''-'' @ show_int (st_mtime (strfile_stat c)))"

definition cache_is_enabled :: "string option \<Rightarrow> bool" where
  "cache_is_enabled cachedir \<longleftrightarrow> cachedir \<noteq> None"

text \<open>\<open>flock\<close> in the non-blocking way: whether the lock was acquired.\<close>

definition sys_flock :: "world \<Rightarrow> bool \<times> world" where
  "sys_flock w = (case next_fault w of (f, w1) \<Rightarrow> (f = None, w1))"

definition cache_get_item_fd :: "string option \<Rightarrow> nat \<Rightarrow> connection_t \<Rightarrow> world \<Rightarrow> int \<times> world" where
  "cache_get_item_fd cachedir uprefix c w =
     (case cachedir of
        None \<Rightarrow> (-1, w)
      | Some dir \<Rightarrow>
          (case sys_open_read (cached_filename dir uprefix c) w of
             (Inl _, w1) \<Rightarrow> (-1, w1)
           | (Inr fd, w1) \<Rightarrow>
               (case sys_flock w1 of
                  (ok, w2) \<Rightarrow> if ok then (fd, w2) else (-1, sys_close fd w2))))"

text \<open>With a descriptor \<open>-1\<close> both \<open>flock\<close> and \<open>close\<close> fail.\<close>

definition cache_get_item_fd_wr :: "string option \<Rightarrow> nat \<Rightarrow> connection_t \<Rightarrow> world \<Rightarrow> int \<times> world" where
  "cache_get_item_fd_wr cachedir uprefix c w =
     (case cachedir of
        None \<Rightarrow> (-1, w)
      | Some dir \<Rightarrow>
          (case sys_open_creat (cached_filename dir uprefix c) w of
             (Inl _, w1) \<Rightarrow> (-1, w1)
           | (Inr fd, w1) \<Rightarrow>
               (case sys_flock w1 of
                  (ok, w2) \<Rightarrow> if ok then (fd, w2) else (-1, sys_close fd w2))))"

definition cache_send_item :: "(string \<Rightarrow> string) \<Rightarrow> weborf_configuration_t \<Rightarrow> string option \<Rightarrow> nat \<Rightarrow>
    connection_t \<Rightarrow> world \<Rightarrow> (bool \<times> connection_t \<times> world) option" where
  "cache_send_item magic conf cachedir uprefix c w =
     (case cache_get_item_fd cachedir uprefix c w of
        (cachedfd, w1) \<Rightarrow>
          if cachedfd = -1 then Some (False, c, w1)
          else do {
            let oldfd = strfile_fd c;
            let c1 = c\<lparr>strfile_fd := cachedfd,
                       strfile_stat := case sys_fstat cachedfd w1 of None \<Rightarrow> strfile_stat c | Some st \<Rightarrow> st\<rparr>;
            (r, c2, w2) \<leftarrow> write_file magic conf c1 w1;
            Some (True, c2\<lparr>strfile_fd := oldfd\<rparr>, sys_close cachedfd w2)
          })"

definition cache_store_item :: "string option \<Rightarrow> nat \<Rightarrow> connection_t \<Rightarrow> string \<Rightarrow> world \<Rightarrow> world" where
  "cache_store_item cachedir uprefix c content w =
     (case cachedir of
        None \<Rightarrow> w
      | Some dir \<Rightarrow>
          (let fname = cached_filename dir uprefix c in
           case sys_open_creat fname w of
             (Inl _, w1) \<Rightarrow> w1
           | (Inr fd, w1) \<Rightarrow>
               (case sys_flock w1 of
                  (ok, w2) \<Rightarrow>
                    if \<not> ok then sys_close fd w2
                    else (case sys_write fd content w2 of
                            (r, w3) \<Rightarrow>
                              sys_close fd
                                (if r \<noteq> int (length content) then snd (sys_unlink fname w3) else w3)))))"

text \<open>\<open>cache_init\<close>: the new value of \<open>cachedir\<close>, or the exit status of the process.\<close>

definition cache_init :: "string \<Rightarrow> world \<Rightarrow> (int + string) \<times> world" where
  "cache_init dir w =
     (case sys_stat dir w of
        (Inl _, w1) \<Rightarrow> (Inl 10, w1)
      | (Inr st, w1) \<Rightarrow>
          if \<not> S_ISDIR (st_mode st) then (Inl 10, w1)
          else (case sys_access dir w1 of
                  (ok, w2) \<Rightarrow> if \<not> ok then (Inl 10, w2) else (Inr dir, w2)))"

subsection \<open>Lemmas\<close>

lemma cache_store_item_ok:
  assumes w: "healthy w" and q: "resolve (fs w) (cwd w) (cached_filename dir u c) = Inr q"
    and new: "lookup (fs w) q = None"
  shows "cache_store_item (Some dir) u c s w = w\<lparr>fs := copied q s w, next_ino := next_ino w + 1\<rparr>"
proof -
  let ?d = "new_fd w" and ?tr = "AList.update q (new_inode (S_IFREG OR 0x180) q w) (fs w)"
  let ?w1 = "w\<lparr>fs := ?tr, next_ino := next_ino w + 1, fds := (?d, \<lparr>o_path = q, o_pos = 0\<rparr>) # fds w\<rparr>"
  have op: "sys_open_creat (cached_filename dir u c) w = (Inr ?d, ?w1)"
    using w q new by (simp add: sys_open_creat_def on_path_def healthy_simps add_fd_def new_fd_def)
  have w1: "healthy ?w1" using w by simp
  have "AList.delete ?d (AList.update ?d f ((?d, g) # fds w)) = fds w" for f g
    using new_fd_fresh [of w] by simp
  then show ?thesis
    using op w1 new sys_write_ok [OF w1, of ?d "\<lparr>o_path = q, o_pos = 0\<rparr>" s]
    by (simp add: cache_store_item_def sys_flock_def healthy_simps sys_close_def copied_def)
qed

lemma cache_get_item_fd_hit:
  assumes "healthy w" and "resolve (fs w) (cwd w) (cached_filename dir u c) = Inr q" and "lookup (fs w) q = Some i"
  shows "cache_get_item_fd (Some dir) u c w =
    (new_fd w, w\<lparr>fds := (new_fd w, \<lparr>o_path = q, o_pos = 0\<rparr>) # fds w\<rparr>)"
  using assms by (simp add: cache_get_item_fd_def sys_open_read_def on_path_def healthy_simps add_fd_def sys_flock_def)

lemma cache_miss:
  assumes "healthy w" and "resolve (fs w) (cwd w) (cached_filename dir u c) = Inr q" and "lookup (fs w) q = None"
  shows "cache_get_item_fd (Some dir) u c w = (-1, w)"
  using assms by (simp add: cache_get_item_fd_def sys_open_read_def on_path_def healthy_simps)

lemma new_fd_least: "3 \<le> new_fd w"
proof -
  have "3 \<le> foldr (\<lambda>(d, _) m. max (d + 1) m) xs (3::int)" for xs :: "(int \<times> open_file) list"
    by (induction xs) (auto simp: le_max_iff_disj)
  then show ?thesis by (simp add: new_fd_def)
qed

lemma new_fd_positive: "new_fd w \<noteq> -1"
  using new_fd_least [of w] by simp

lemma cache_send_item_hit:
  assumes w: "healthy w" "keep_alive c"
    and q: "resolve (fs w) (cwd w) (cached_filename dir u c) = Inr q" "lookup (fs w) q = Some i"
    and i: "\<not> is_dir i" "i_data i = s" "st_mode (i_stat i) AND S_IFREG \<noteq> 0"
    and s: "length s < 2 ^ 63" "good_line (magic (take 64 s))" "NUL \<notin> set (magic (take 64 s))"
      "length (magic (take 64 s)) \<le> 20"
    and et: "get_param_value (buf c) (http_param c) ''If-None-Match'' RBUFFER 13 = Some None"
    and rg: "get_param_value (buf c) (http_param c) ''Range'' RBUFFER 5 = Some None"
  shows "\<exists>h c' w'. cache_send_item magic conf (Some dir) u c w = Some (True, c', w') \<and>
    sent w' = sent w @ h @ s \<and> parse_response (h @ s @ rest) = Some (200, s, rest) \<and>
    strfile_fd c' = strfile_fd c"
proof -
  let ?d = "new_fd w"
  let ?w1 = "w\<lparr>fds := (?d, \<lparr>o_path = q, o_pos = 0\<rparr>) # fds w\<rparr>"
  have st: "sys_fstat ?d ?w1 = Some (stat_of i)" using q(2) by (simp add: sys_fstat_def fd_inode_def)
  let ?c1 = "c\<lparr>strfile_fd := ?d, strfile_stat := stat_of i\<rparr>"
  have "serves magic ?c1 s ?w1"
    using w q(2) i s by (simp add: serves_def fd_inode_def stat_of_def)
  from write_file_whole_aux [OF this, of conf rest] et rg obtain h c' w' where
    "write_file magic conf ?c1 ?w1 = Some (0, c', w')" "sent w' = sent w @ h @ s"
    "parse_response (h @ s @ rest) = Some (200, s, rest)" by auto
  then show ?thesis
    using cache_get_item_fd_hit [OF w(1) q] st new_fd_positive
    by (auto simp: cache_send_item_def sys_close_def)
qed

subsection \<open>Properties\<close>

text \<open>
  Claim C37. What is stored is what is served: a page stored for a directory, when there was
  none for it, is what a later request for that directory receives, as the body of
  one message with status 200; the store changes no other file and leaks no descriptor,
  and the descriptor of the directory is restored.
\<close>

theorem cached_page_is_served:
  assumes "healthy w" and "keep_alive c"
    and "resolve (fs w) (cwd w) (cached_filename dir u c) = Inr q" and "lookup (fs w) q = None"
    and "length s < 2 ^ 63" and "good_line (magic (take 64 s))" and "NUL \<notin> set (magic (take 64 s))"
    and "length (magic (take 64 s)) \<le> 20"
    and "get_param_value (buf c) (http_param c) ''If-None-Match'' RBUFFER 13 = Some None"
    and "get_param_value (buf c) (http_param c) ''Range'' RBUFFER 5 = Some None"
  shows "\<exists>h c' w'. cache_send_item magic conf (Some dir) u c (cache_store_item (Some dir) u c s w) =
      Some (True, c', w') \<and>
    sent w' = sent w @ h @ s \<and> parse_response (h @ s @ rest) = Some (200, s, rest) \<and>
    strfile_fd c' = strfile_fd c \<and> fds (cache_store_item (Some dir) u c s w) = fds w \<and>
    (\<forall>r. r \<noteq> q \<longrightarrow> lookup (fs (cache_store_item (Some dir) u c s w)) r = lookup (fs w) r)"
proof -
  let ?w = "w\<lparr>fs := copied q s w, next_ino := next_ino w + 1\<rparr>"
  let ?i = "(new_inode (S_IFREG OR 0x180) q w)\<lparr>i_data := s\<rparr>"
  have st: "cache_store_item (Some dir) u c s w = ?w" using assms(1,3,4) by (rule cache_store_item_ok)
  have i: "lookup (fs ?w) q = Some ?i" using assms(4) by (simp add: lookup_copied)
  have "resolve (fs ?w) (cwd ?w) (cached_filename dir u c) = Inr q"
    using assms(3,4) by (auto intro!: resolve_mono [OF _ assms(3)] simp: lookup_copied)
  moreover have "\<not> is_dir ?i" "st_mode (i_stat ?i) AND S_IFREG \<noteq> 0"
    by (simp_all add: is_dir_def new_inode_def S_ISDIR_def file_types)
  ultimately have "\<exists>h c' w'. cache_send_item magic conf (Some dir) u c ?w = Some (True, c', w') \<and>
    sent w' = sent ?w @ h @ s \<and> parse_response (h @ s @ rest) = Some (200, s, rest) \<and>
    strfile_fd c' = strfile_fd c"
    using assms i by (intro cache_send_item_hit [where q = q and i = ?i]) auto
  then show ?thesis unfolding st by (auto simp: lookup_copied)
qed

theorem cached_page_is_served_witness:
  "\<exists>h c' w'. cache_send_item (\<lambda>_. ''text/html'') small_conf (Some ''/srv/d'') 0 small_connection
      (cache_store_item (Some ''/srv/d'') 0 small_connection ''<table>'' small_world) = Some (True, c', w') \<and>
    sent w' = sent small_world @ h @ ''<table>'' \<and> parse_response (h @ ''<table>'' @ []) = Some (200, ''<table>'', []) \<and>
    strfile_fd c' = strfile_fd small_connection \<and>
    fds (cache_store_item (Some ''/srv/d'') 0 small_connection ''<table>'' small_world) = fds small_world \<and>
    (\<forall>r. r \<noteq> [''srv'', ''d'', ''0-7-1-1000''] \<longrightarrow>
      lookup (fs (cache_store_item (Some ''/srv/d'') 0 small_connection ''<table>'' small_world)) r =
      lookup (fs small_world) r)"
proof (rule cached_page_is_served)
  show "resolve (fs small_world) (cwd small_world) (cached_filename ''/srv/d'' 0 small_connection) =
      Inr [''srv'', ''d'', ''0-7-1-1000'']" by code_simp
  show "lookup (fs small_world) [''srv'', ''d'', ''0-7-1-1000''] = None" by code_simp
  show "get_param_value (buf small_connection) (http_param small_connection) ''If-None-Match'' RBUFFER 13 = Some None"
    by code_simp
  show "get_param_value (buf small_connection) (http_param small_connection) ''Range'' RBUFFER 5 = Some None"
    by code_simp
qed (simp_all add: small_setup)

end
