(* ===== verification/Config.thy ===== *)
theory Config
  imports Auth Cache Request Listener
begin

section \<open>configuration.c and mynet.c: the command line and the listening socket\<close>

text \<open>
  The options of the command line and what they set. \<open>getopt_long\<close> belongs to the
  platform: \<open>configuration_load\<close> takes the list of the options that it returned, each with
  the memory of its argument, because the lists of CGI programs, index files and virtual
  hosts are split in place. \<open>Inl n\<close> is the exit of the process with status \<open>n\<close>. The TLS
  library is a parameter.
\<close>

subsection \<open>Defaults\<close>

definition PORT :: string where "PORT = ''8080''"
definition BASEDIR :: string where "BASEDIR = ''/srv/www''"
definition INDEX :: string where "INDEX = ''index.html''"
definition CGI_PHP :: string where "CGI_PHP = ''/usr/lib/cgi-bin/php''"
definition CGI_PY :: string where "CGI_PY = ''''"

definition weborf_conf :: weborf_configuration_t where
  "weborf_conf =
     \<lparr>conf_basedir = BASEDIR, authsock = None, conf_uid = ROOTUID, conf_gid = ROOTGID, send_content_type = False,
      is_inetd = False, cgi_paths = [], virtual_host = False, exec_script = False, tar_directory = False,
      conf_daemonize = False, conf_ip = None, conf_port = PORT, indexes = []\<rparr>"

definition configuration_set_default_CGI :: "weborf_configuration_t \<Rightarrow> weborf_configuration_t" where
  "configuration_set_default_CGI conf = conf\<lparr>cgi_paths := [''.php'', CGI_PHP, ''.py'', CGI_PY]\<rparr>"

definition configuration_set_default_index :: "weborf_configuration_t \<Rightarrow> weborf_configuration_t" where
  "configuration_set_default_index conf = conf\<lparr>indexes := [INDEX]\<rparr>"

definition configuration_enable_sending_mime :: "weborf_configuration_t \<Rightarrow> weborf_configuration_t" where
  "configuration_enable_sending_mime conf = conf\<lparr>send_content_type := True\<rparr>"

text \<open>
  The result of \<open>stat\<close> is not tested: when it fails, \<open>stat_buf\<close> holds what the stack held
  (\<open>stk\<close>).
\<close>

definition configuration_set_basedir :: "stat \<Rightarrow> string \<Rightarrow> weborf_configuration_t \<Rightarrow> world \<Rightarrow>
    (int + weborf_configuration_t) \<times> world" where
  "configuration_set_basedir stk bd conf w =
     (case sys_stat bd w of
        (r, w1) \<Rightarrow>
          if \<not> S_ISDIR (st_mode (case r of Inl _ \<Rightarrow> stk | Inr st \<Rightarrow> st)) then (Inl 1, w1)
          else (Inr (conf\<lparr>conf_basedir := bd\<rparr>), w1))"

subsection \<open>Lists separated by commas\<close>

text \<open>The loop of \<open>configuration_set_cgi\<close>; \<open>ps\<close> are the pointers stored so far.\<close>

function set_cgi_loop :: "cmem \<Rightarrow> nat \<Rightarrow> nat list \<Rightarrow> (int + cmem \<times> nat list) option" where
  "set_cgi_loop m i ps =
     (case c_peek m (Suc i) of
        None \<Rightarrow> None
      | Some ch \<Rightarrow>
          if ch = NUL then Some (Inr (m, ps))
          else if ch = CHR '','' then
            (if length ps + 1 = MAXINDEXCOUNT then Some (Inl 6)
             else set_cgi_loop (m[Suc i := NUL]) (Suc i) (ps @ [i + 2]))
          else set_cgi_loop m (Suc i) ps)"
  by pat_completeness auto
termination by (relation "measure (\<lambda>(m, i, _). length m - i)") (auto simp: c_peek_def split: if_splits)

definition strings_at :: "cmem \<Rightarrow> nat list \<Rightarrow> string list option" where
  "strings_at m ps = those (map (cstr m) ps)"

definition even_entries :: "'a list \<Rightarrow> 'a list" where
  "even_entries xs = map ((!) xs) (filter even [0..<length xs])"

definition configuration_set_cgi :: "cmem option \<Rightarrow> weborf_configuration_t \<Rightarrow>
    (int + weborf_configuration_t) option" where
  "configuration_set_cgi optarg conf =
     (case optarg of
        None \<Rightarrow> Some (Inr (conf\<lparr>cgi_paths := []\<rparr>))
      | Some m \<Rightarrow> do {
          n \<leftarrow> c_strlen m 0;
          if n = 0 then Some (Inr (conf\<lparr>cgi_paths := []\<rparr>))
          else do {
            r \<leftarrow> set_cgi_loop m 0 [0];
            case r of
              Inl e \<Rightarrow> Some (Inl e)
            | Inr (m', ps) \<Rightarrow>
                if length ps mod 2 = 1 then Some (Inl 6)
                else do {
                  ss \<leftarrow> strings_at m' ps;
                  if [] \<in> set (even_entries ss) then Some (Inl 6)
                  else Some (Inr (conf\<lparr>cgi_paths := ss\<rparr>))
                }
          }
        })"

function set_index_loop :: "cmem \<Rightarrow> nat \<Rightarrow> nat list \<Rightarrow> (int + cmem \<times> nat list) option" where
  "set_index_loop m i ps =
     (case c_peek m i of
        None \<Rightarrow> None
      | Some ch \<Rightarrow>
          if ch = NUL then Some (Inr (m, ps))
          else (case c_peek m (Suc i) of
                  None \<Rightarrow> None
                | Some ch2 \<Rightarrow>
                    if ch2 = CHR '','' then
                      (if length ps + 1 = MAXINDEXCOUNT then Some (Inl 6)
                       else set_index_loop (m[Suc i := NUL]) (i + 2) (ps @ [i + 2]))
                    else set_index_loop m (Suc i) ps))"
  by pat_completeness auto
termination by (relation "measure (\<lambda>(m, i, _). length m - i)") (auto simp: c_peek_def split: if_splits)

definition configuration_set_index_list :: "cmem \<Rightarrow> weborf_configuration_t \<Rightarrow>
    (int + weborf_configuration_t) option" where
  "configuration_set_index_list m conf = do {
     r \<leftarrow> set_index_loop m 0 [0];
     case r of
       Inl e \<Rightarrow> Some (Inl e)
     | Inr (m', ps) \<Rightarrow> do {
         ss \<leftarrow> strings_at m' ps;
         Some (Inr (conf\<lparr>indexes := ss\<rparr>))
       }
   }"

text \<open>\<open>putenv\<close>: sets a variable, or removes it when there is no equals sign.\<close>

definition sys_putenv :: "string \<Rightarrow> (string \<times> string) list \<Rightarrow> (string \<times> string) list" where
  "sys_putenv s ev =
     (let name = takeWhile (\<lambda>ch. ch \<noteq> CHR ''='') s in
      if name = s then AList.delete name ev else AList.update name (drop (length name + 1) s) ev)"

function set_virtual_loop :: "cmem \<Rightarrow> nat \<Rightarrow> nat \<Rightarrow> (string \<times> string) list \<Rightarrow>
    (cmem \<times> nat \<times> (string \<times> string) list) option" where
  "set_virtual_loop m i v ev =
     (case c_peek m i of
        None \<Rightarrow> None
      | Some ch \<Rightarrow>
          if ch = NUL then Some (m, v, ev)
          else (case c_peek m (Suc i) of
                  None \<Rightarrow> None
                | Some ch2 \<Rightarrow>
                    if ch2 = CHR '','' then
                      (case cstr (m[Suc i := NUL]) v of
                         None \<Rightarrow> None
                       | Some s \<Rightarrow> set_virtual_loop (m[Suc i := NUL]) (i + 2) (i + 2) (sys_putenv s ev))
                    else set_virtual_loop m (Suc i) v ev))"
  by pat_completeness auto
termination by (relation "measure (\<lambda>(m, i, _). length m - i)") (auto simp: c_peek_def split: if_splits)

definition configuration_set_virtualhost :: "cmem \<Rightarrow> weborf_configuration_t \<Rightarrow> world \<Rightarrow>
    (weborf_configuration_t \<times> world) option" where
  "configuration_set_virtualhost m conf w = do {
     (m', v, ev) \<leftarrow> set_virtual_loop m 0 0 (env w);
     s \<leftarrow> cstr m' v;
     Some (conf\<lparr>virtual_host := True\<rparr>, w\<lparr>env := sys_putenv s ev\<rparr>)
   }"

declare set_cgi_loop.simps [simp del] set_index_loop.simps [simp del] set_virtual_loop.simps [simp del]

subsection \<open>The command line\<close>

record settings =
  s_conf :: weborf_configuration_t
  s_cachedir :: "string option"
  s_certificate :: "string option"
  s_key :: "string option"

text \<open>An option with its effect; \<open>uid_t\<close> and \<open>gid_t\<close> are unsigned and 32 bits wide.\<close>

definition to_id :: "string \<Rightarrow> int" where
  "to_id s = uint (word_of_int (c_strtol 0 s) :: 32 word)"

definition set_conf :: "settings \<Rightarrow> weborf_configuration_t \<Rightarrow> world \<Rightarrow> ((int + settings) \<times> world) option" where
  "set_conf st conf w = Some (Inr (st\<lparr>s_conf := conf\<rparr>), w)"

definition set_conf_or_exit :: "settings \<Rightarrow> int + weborf_configuration_t \<Rightarrow> world \<Rightarrow>
    ((int + settings) \<times> world) option" where
  "set_conf_or_exit st r w = (case r of Inl e \<Rightarrow> Some (Inl e, w) | Inr conf \<Rightarrow> set_conf st conf w)"

definition plain_option :: "char \<Rightarrow> settings \<Rightarrow> world \<Rightarrow> ((int + settings) \<times> world) option" where
  "plain_option ch st w =
     (let conf = s_conf st in
      if ch = CHR ''k'' \<or> ch = CHR ''v'' \<or> ch = CHR ''h'' \<or> ch = CHR ''M'' then Some (Inl 0, w)
      else if ch = CHR ''t'' then set_conf st (conf\<lparr>tar_directory := True\<rparr>) w
      else if ch = CHR ''T'' then set_conf st (conf\<lparr>is_inetd := True\<rparr>) w
      else if ch = CHR ''m'' then set_conf st (configuration_enable_sending_mime conf) w
      else if ch = CHR ''Y'' then set_conf st (conf\<lparr>exec_script := True\<rparr>) w
      else if ch = CHR ''d'' then set_conf st (conf\<lparr>conf_daemonize := True\<rparr>) w
      else Some (Inl 19, w))"

definition arg_option :: "stat \<Rightarrow> char \<Rightarrow> cmem \<Rightarrow> settings \<Rightarrow> world \<Rightarrow> ((int + settings) \<times> world) option" where
  "arg_option stk ch m st w = do {
     let conf = s_conf st;
     s \<leftarrow> cstr m 0;
     if ch = CHR ''C'' then
       (case cache_init s w of
          (Inl e, w1) \<Rightarrow> Some (Inl e, w1)
        | (Inr d, w1) \<Rightarrow> Some (Inr (st\<lparr>s_cachedir := Some d\<rparr>), w1))
     else if ch = CHR ''c'' then do { r \<leftarrow> configuration_set_cgi (Some m) conf; set_conf_or_exit st r w }
     else if ch = CHR ''V'' then
       do { (conf', w1) \<leftarrow> configuration_set_virtualhost m conf w; set_conf st conf' w1 }
     else if ch = CHR ''I'' then do { r \<leftarrow> configuration_set_index_list m conf; set_conf_or_exit st r w }
     else if ch = CHR ''b'' then
       (case configuration_set_basedir stk s conf w of (r, w1) \<Rightarrow> set_conf_or_exit st r w1)
     else if ch = CHR ''p'' then set_conf st (conf\<lparr>conf_port := s\<rparr>) w
     else if ch = CHR ''i'' then set_conf st (conf\<lparr>conf_ip := Some s\<rparr>) w
     else if ch = CHR ''u'' then set_conf st (conf\<lparr>conf_uid := to_id s\<rparr>) w
     else if ch = CHR ''g'' then set_conf st (conf\<lparr>conf_gid := to_id s\<rparr>) w
     else if ch = CHR ''a'' then
       (case auth_set_socket s conf w of (r, w1) \<Rightarrow> set_conf_or_exit st r w1)
     else if ch = CHR ''S'' then Some (Inr (st\<lparr>s_certificate := Some s\<rparr>), w)
     else if ch = CHR ''K'' then Some (Inr (st\<lparr>s_key := Some s\<rparr>), w)
     else plain_option ch st w
   }"

fun load_options :: "stat \<Rightarrow> (char \<times> cmem option) list \<Rightarrow> settings \<Rightarrow> world \<Rightarrow> ((int + settings) \<times> world) option" where
  "load_options stk [] st w = Some (Inr st, w)"
| "load_options stk ((ch, arg) # opts) st w = do {
     (r, w1) \<leftarrow> (case arg of None \<Rightarrow> plain_option ch st w | Some m \<Rightarrow> arg_option stk ch m st w);
     case r of Inl e \<Rightarrow> Some (Inl e, w1) | Inr st1 \<Rightarrow> load_options stk opts st1 w1
   }"

text \<open>\<open>ssl\<close> is \<open>init_ssl\<close>: the exit status when the certificate or the key is refused.\<close>

definition configuration_load :: "(string option \<Rightarrow> string option \<Rightarrow> int option) \<Rightarrow> stat \<Rightarrow>
    (char \<times> cmem option) list \<Rightarrow> world \<Rightarrow> ((int + settings) \<times> world) option" where
  "configuration_load ssl stk opts w = do {
     let conf = configuration_set_default_index (configuration_set_default_CGI weborf_conf);
     (r, w1) \<leftarrow> load_options stk opts \<lparr>s_conf = conf, s_cachedir = None, s_certificate = None, s_key = None\<rparr> w;
     case r of
       Inl e \<Rightarrow> Some (Inl e, w1)
     | Inr st \<Rightarrow>
         if s_certificate st \<noteq> None \<or> s_key st \<noteq> None then
           (if tar_directory (s_conf st) then Some (Inl 19, w1)
            else (case ssl (s_certificate st) (s_key st) of
                    Some e \<Rightarrow> Some (Inl e, w1)
                  | None \<Rightarrow> Some (Inr st, w1)))
         else Some (Inr st, w1)
   }"

subsection \<open>The listening socket\<close>

text \<open>The address and the port of the server socket, or the exit status of the process.\<close>

definition net_map_ipv4 :: "string \<Rightarrow> string" where
  "net_map_ipv4 addr = (if find_sub '':'' addr \<noteq> None then addr else ''::ffff:'' @ addr)"

text \<open>
  \<open>inet_pton\<close> accepts the text of an address (\<open>pton\<close>) and \<open>bind\<close> may refuse
  (\<open>bind_ok\<close>); the port is an unsigned 32-bit number.
\<close>

definition net_bind_and_listen :: "(string \<Rightarrow> bool) \<Rightarrow> (string option \<Rightarrow> int \<Rightarrow> bool) \<Rightarrow>
    weborf_configuration_t \<Rightarrow> int + (string option \<times> int)" where
  "net_bind_and_listen pton bind_ok conf =
     (let port = uint (word_of_int (c_strtol 0 (conf_port conf)) :: 32 word) in
      if port < 1 \<or> port > 65535 then Inl 4
      else (case conf_ip conf of
              Some a \<Rightarrow>
                if \<not> pton (net_map_ipv4 a) then Inl 2
                else if \<not> bind_ok (Some (net_map_ipv4 a)) port then Inl 3
                else Inr (Some (net_map_ipv4 a), port)
            | None \<Rightarrow> if \<not> bind_ok None port then Inl 3 else Inr (None, port)))"

text \<open>
  The address of the peer as text: \<open>ntop4\<close> and \<open>ntop6\<close> are \<open>inet_ntop\<close> on the two
  families, \<open>INET6_ADDRSTRLEN\<close> is 46.
\<close>

datatype peer = AF_INET "32 word" | AF_INET6 "128 word"

definition net_getpeername :: "(32 word \<Rightarrow> string) \<Rightarrow> (128 word \<Rightarrow> string) \<Rightarrow> peer \<Rightarrow> string" where
  "net_getpeername ntop4 ntop6 p =
     (case p of AF_INET a \<Rightarrow> take 45 (''::ffff:'' @ ntop4 a) | AF_INET6 a \<Rightarrow> ntop6 a)"

subsection \<open>Lemmas: lists separated by commas\<close>

abbreviation COMMA :: char where "COMMA \<equiv> CHR '',''"

fun split_comma :: "string \<Rightarrow> string list" where
  "split_comma [] = [[]]"
| "split_comma (c # s) =
     (if c = COMMA then [] # split_comma s
      else (c # hd (split_comma s)) # tl (split_comma s))"

fun join_comma :: "string list \<Rightarrow> string" where
  "join_comma [] = []"
| "join_comma [x] = x"
| "join_comma (x # y # xs) = x @ COMMA # join_comma (y # xs)"

definition nulled :: "string \<Rightarrow> string" where
  "nulled s = map (\<lambda>c. if c = COMMA then NUL else c) s"

fun comma_starts :: "nat \<Rightarrow> string \<Rightarrow> nat list" where
  "comma_starts off [] = []"
| "comma_starts off (c # s) =
     (if c = COMMA then Suc off # comma_starts (Suc off) s else comma_starts (Suc off) s)"

definition an_item :: "string \<Rightarrow> bool" where
  "an_item x \<longleftrightarrow> x \<noteq> [] \<and> COMMA \<notin> set x \<and> NUL \<notin> set x"

lemma split_comma_not_Nil [simp]: "split_comma s \<noteq> []"
  by (cases s) auto

lemma nulled_simps [simp]: "nulled [] = []" "nulled (c # s) = (if c = COMMA then NUL else c) # nulled s"
  "length (nulled s) = length s" "nulled (a @ b) = nulled a @ nulled b"
  by (simp_all add: nulled_def)

lemma nulled_plain: "COMMA \<notin> set s \<Longrightarrow> nulled s = s"
  by (induction s) auto

lemma comma_starts_append: "comma_starts off (a @ b) = comma_starts off a @ comma_starts (off + length a) b"
  by (induction a arbitrary: off) auto

lemma comma_starts_plain: "COMMA \<notin> set s \<Longrightarrow> comma_starts off s = []"
  by (induction s arbitrary: off) auto

lemma split_comma_append:
  "COMMA \<notin> set x \<Longrightarrow> split_comma (x @ COMMA # s) = x # split_comma s"
  "COMMA \<notin> set x \<Longrightarrow> split_comma x = [x]"
  by (induction x) auto

lemma split_join: "xs \<noteq> [] \<Longrightarrow> \<forall>x \<in> set xs. COMMA \<notin> set x \<Longrightarrow> split_comma (join_comma xs) = xs"
  by (induction xs rule: join_comma.induct) (auto simp: split_comma_append)

lemma those_Cons: "those (x # xs) = (case x of None \<Rightarrow> None | Some y \<Rightarrow> map_option ((#) y) (those xs))"
  by simp

lemma strings_at_Cons:
  "strings_at m (p # ps) = Option.bind (cstr m p) (\<lambda>s. map_option ((#) s) (strings_at m ps))"
  by (simp add: strings_at_def split: option.split)

lemma strings_at_commas:
  "NUL \<notin> set t \<Longrightarrow> strings_at (pre @ nulled t @ NUL # post) (length pre # comma_starts (length pre) t) =
     Some (split_comma t)"
proof (induction t arbitrary: pre)
  case Nil
  then show ?case using cstr_append [of "[]" pre post] by (simp add: strings_at_def)
next
  case (Cons c t)
  show ?case
  proof (cases "c = COMMA")
    case True
    have "cstr (pre @ NUL # nulled t @ NUL # post) (length pre) = Some []"
      using cstr_append [of "[]" pre "nulled t @ NUL # post"] by simp
    with True Cons.IH [of "pre @ [NUL]"] Cons.prems show ?thesis by (simp add: strings_at_Cons)
  next
    case False
    let ?m = "pre @ c # nulled t @ NUL # post"
    have ih: "strings_at ?m (Suc (length pre) # comma_starts (Suc (length pre)) t) = Some (split_comma t)"
      using Cons.IH [of "pre @ [c]"] Cons.prems False by simp
    then obtain s ss where s: "cstr ?m (Suc (length pre)) = Some s" "split_comma t = s # ss"
      "strings_at ?m (comma_starts (Suc (length pre)) t) = Some ss"
      by (fastforce simp: strings_at_Cons bind_Some_iff)
    then have "cstr ?m (length pre) = Some (c # s)"
      using Cons.prems by (auto simp: cstr_def Let_def split: if_splits)
    then show ?thesis using False s by (simp add: strings_at_Cons)
  qed
qed

lemma set_cgi_loop_result:
  "NUL \<notin> set t \<Longrightarrow> length pre = Suc i \<Longrightarrow> length ps < MAXINDEXCOUNT \<Longrightarrow>
   set_cgi_loop (pre @ t @ NUL # post) i ps =
     Some (if length ps + length (comma_starts (Suc i) t) < MAXINDEXCOUNT
           then Inr (pre @ nulled t @ NUL # post, ps @ comma_starts (Suc i) t) else Inl 6)"
proof (induction t arbitrary: pre i ps)
  case Nil
  then show ?case by (subst set_cgi_loop.simps) (simp add: c_peek_def nth_append)
next
  case (Cons c t)
  let ?m = "pre @ (c # t) @ NUL # post"
  have peek: "c_peek ?m (Suc i) = Some c" using Cons.prems by (simp add: c_peek_def nth_append)
  have up: "?m[Suc i := NUL] = (pre @ [NUL]) @ t @ NUL # post"
    using Cons.prems(2) by (simp add: list_update_append)
  have step: "set_cgi_loop ?m i ps =
      (if c = NUL then Some (Inr (?m, ps))
       else if c = COMMA then
         (if length ps + 1 = MAXINDEXCOUNT then Some (Inl 6)
          else set_cgi_loop ((pre @ [NUL]) @ t @ NUL # post) (Suc i) (ps @ [i + 2]))
       else set_cgi_loop ((pre @ [c]) @ t @ NUL # post) (Suc i) ps)"
    unfolding set_cgi_loop.simps [of ?m i ps] peek up by simp
  have c: "c \<noteq> NUL" "NUL \<notin> set t" using Cons.prems(1) by auto
  show ?case
  proof (cases "c = COMMA")
    case True
    then show ?thesis
      unfolding step using c Cons.prems(2,3) Cons.IH [of "pre @ [NUL]" "Suc i" "ps @ [i + 2]"] by simp
  next
    case False
    then show ?thesis unfolding step using c Cons.prems(2,3) Cons.IH [of "pre @ [c]" "Suc i" ps] by simp
  qed
qed

text \<open>The other two loops look one character ahead, and skip the one after a comma.\<close>

lemma peek_at: "c_peek (pre @ c # r) (length pre) = Some c" "c_peek (pre @ d # c # r) (Suc (length pre)) = Some c"
  by (simp_all add: c_peek_def nth_append)

lemma update_at: "(pre @ d # c # r)[Suc (length pre) := e] = pre @ d # e # r"
  by (simp add: list_update_append)

lemma set_index_loop_at:
  "set_index_loop (pre @ d # c # r) (length pre) ps =
     (if d = NUL then Some (Inr (pre @ d # c # r, ps))
      else if c = COMMA then
        (if length ps + 1 = MAXINDEXCOUNT then Some (Inl 6)
         else set_index_loop (pre @ d # NUL # r) (length pre + 2) (ps @ [length pre + 2]))
      else set_index_loop (pre @ d # c # r) (Suc (length pre)) ps)"
  "set_index_loop (pre @ NUL # r) (length pre) ps = Some (Inr (pre @ NUL # r, ps))"
  unfolding set_index_loop.simps [of "pre @ d # c # r" "length pre"]
    set_index_loop.simps [of "pre @ NUL # r" "length pre"] peek_at update_at by simp_all

lemma set_virtual_loop_at:
  "set_virtual_loop (pre @ d # c # r) (length pre) v ev =
     (if d = NUL then Some (pre @ d # c # r, v, ev)
      else if c = COMMA then
        (case cstr (pre @ d # NUL # r) v of
           None \<Rightarrow> None
         | Some s \<Rightarrow> set_virtual_loop (pre @ d # NUL # r) (length pre + 2) (length pre + 2) (sys_putenv s ev))
      else set_virtual_loop (pre @ d # c # r) (Suc (length pre)) v ev)"
  "set_virtual_loop (pre @ NUL # r) (length pre) v ev = Some (pre @ NUL # r, v, ev)"
  unfolding set_virtual_loop.simps [of "pre @ d # c # r" "length pre"]
    set_virtual_loop.simps [of "pre @ NUL # r" "length pre"] peek_at update_at by simp_all

lemma set_index_loop_item:
  "an_item x \<Longrightarrow> set_index_loop (pre @ x @ NUL # r) (length pre) ps = Some (Inr (pre @ x @ NUL # r, ps))"
  "an_item x \<Longrightarrow> length ps + 1 < MAXINDEXCOUNT \<Longrightarrow>
   set_index_loop (pre @ x @ COMMA # r) (length pre) ps =
     set_index_loop (pre @ x @ NUL # r) (length pre + length x + 1) (ps @ [length pre + length x + 1])"
proof (induction x arbitrary: pre)
  case (Cons d x)
  {
    case 1
    then show ?case
      using Cons.IH(1) [of "pre @ [d]"] set_index_loop_at(1) [of pre d "hd (x @ [NUL])" "tl (x @ NUL # r)" ps]
        set_index_loop_at(2) [of "pre @ [d]" r ps]
      by (cases x) (auto simp: an_item_def)
  next
    case 2
    then show ?case
      using Cons.IH(2) [of "pre @ [d]"] set_index_loop_at(1) [of pre d "hd (x @ [COMMA])" "tl (x @ COMMA # r)" ps]
      by (cases x) (auto simp: an_item_def)
  }
qed (auto simp: an_item_def)

lemma set_virtual_loop_item:
  "an_item x \<Longrightarrow> set_virtual_loop (pre @ x @ NUL # r) (length pre) v ev = Some (pre @ x @ NUL # r, v, ev)"
  "an_item x \<Longrightarrow> set_virtual_loop (pre @ x @ COMMA # r) (length pre) v ev =
     (case cstr (pre @ x @ NUL # r) v of
        None \<Rightarrow> None
      | Some s \<Rightarrow> set_virtual_loop (pre @ x @ NUL # r) (length pre + length x + 1) (length pre + length x + 1)
          (sys_putenv s ev))"
proof (induction x arbitrary: pre)
  case (Cons d x)
  {
    case 1
    then show ?case
      using Cons.IH(1) [of "pre @ [d]"] set_virtual_loop_at(1) [of pre d "hd (x @ [NUL])" "tl (x @ NUL # r)" v ev]
        set_virtual_loop_at(2) [of "pre @ [d]" r v ev]
      by (cases x) (auto simp: an_item_def)
  next
    case 2
    then show ?case
      using Cons.IH(2) [of "pre @ [d]"] set_virtual_loop_at(1) [of pre d "hd (x @ [COMMA])" "tl (x @ COMMA # r)" v ev]
      by (cases x) (auto simp: an_item_def cong: option.case_cong)
  }
qed (auto simp: an_item_def)

lemma set_index_loop_items:
  "list_all an_item xs \<Longrightarrow> xs \<noteq> [] \<Longrightarrow> length ps + length xs \<le> MAXINDEXCOUNT \<Longrightarrow>
   set_index_loop (pre @ join_comma xs @ NUL # post) (length pre) ps =
     Some (Inr (pre @ nulled (join_comma xs) @ NUL # post, ps @ comma_starts (length pre) (join_comma xs)))"
proof (induction xs arbitrary: pre ps rule: join_comma.induct)
  case (2 x)
  then show ?case using set_index_loop_item(1) [of x pre post ps]
    by (simp add: an_item_def nulled_plain comma_starts_plain)
next
  case (3 x y xs)
  then show ?case
    using set_index_loop_item(2) [of x ps pre "join_comma (y # xs) @ NUL # post"]
      "3.IH" [of "ps @ [length pre + length x + 1]" "pre @ x @ [NUL]"]
    by (simp add: an_item_def nulled_plain comma_starts_append comma_starts_plain)
qed simp

lemma set_virtual_loop_items:
  "list_all an_item xs \<Longrightarrow> xs \<noteq> [] \<Longrightarrow>
   \<exists>m v. set_virtual_loop (pre @ join_comma xs @ NUL # post) (length pre) (length pre) ev =
     Some (m, v, fold sys_putenv (butlast xs) ev) \<and> cstr m v = Some (last xs)"
proof (induction xs arbitrary: pre ev rule: join_comma.induct)
  case (2 x)
  then show ?case using set_virtual_loop_item(1) [of x pre post "length pre" ev] cstr_append [of x pre post]
    by (simp add: an_item_def)
next
  case (3 x y xs)
  then show ?case
    using set_virtual_loop_item(2) [of x pre "join_comma (y # xs) @ NUL # post" "length pre" ev]
      cstr_append [of x pre "join_comma (y # xs) @ NUL # post"]
      "3.IH" [of "pre @ x @ [NUL]" "sys_putenv x ev"]
    by (simp add: an_item_def)
qed simp


lemma strings_at_length: "strings_at m ps = Some ss \<Longrightarrow> length ss = length ps"
  by (induction ps arbitrary: ss) (auto simp: strings_at_def split: option.splits)

lemma strings_at_defined:
  "\<forall>p \<in> set ps. p \<le> length pre \<Longrightarrow> \<exists>ss. strings_at (pre @ NUL # r) ps = Some ss"
proof (induction ps)
  case (Cons p ps)
  have "\<exists>s. cstr (pre @ NUL # r) p = Some s"
    using Cons.prems by (intro exI, simp add: cstr_def)
  with Cons show ?case by (auto simp: strings_at_Cons)
qed (simp add: strings_at_def)

lemma set_index_loop_safe:
  assumes "NUL \<notin> set t" and "length ps < MAXINDEXCOUNT" and "ps \<noteq> []" and "\<forall>p \<in> set ps. p \<le> length pre"
  shows "\<exists>r. set_index_loop (pre @ t @ NUL # post) (length pre) ps = Some r \<and>
    (\<forall>m' ps'. r = Inr (m', ps') \<longrightarrow> ps' \<noteq> [] \<and> length ps' < MAXINDEXCOUNT \<and> (\<exists>ss. strings_at m' ps' = Some ss))"
  using assms
proof (induction t arbitrary: pre ps rule: length_induct)
  case (1 t)
  show ?case
  proof (cases t)
    case Nil
    then show ?thesis using 1 strings_at_defined set_index_loop_at(2) [of pre post ps] by auto
  next
    case (Cons d u)
    note d = this
    show ?thesis
    proof (cases u)
      case Nil
      have "\<forall>p \<in> set ps. p \<le> length (pre @ [d])" using "1.prems" by auto
      then show ?thesis
        using "1.prems" d Nil set_index_loop_at(1) [of pre d NUL post ps] set_index_loop_at(2) [of "pre @ [d]" post ps]
          strings_at_defined [of ps "pre @ [d]" post] by auto
    next
      case (Cons c v)
      have IH: "\<And>pre ps. length ps < MAXINDEXCOUNT \<Longrightarrow> ps \<noteq> [] \<Longrightarrow> \<forall>p \<in> set ps. p \<le> length pre \<Longrightarrow>
          \<exists>r. set_index_loop (pre @ w @ NUL # post) (length pre) ps = Some r \<and>
            (\<forall>m' ps'. r = Inr (m', ps') \<longrightarrow>
              ps' \<noteq> [] \<and> length ps' < MAXINDEXCOUNT \<and> (\<exists>ss. strings_at m' ps' = Some ss))"
        if "w = v \<or> w = u" for w
        using "1.IH" [rule_format, of w] that "1.prems"(1) d Cons by auto
      have at: "set_index_loop (pre @ t @ NUL # post) (length pre) ps =
          (if c = COMMA then
             (if length ps + 1 = MAXINDEXCOUNT then Some (Inl 6)
              else set_index_loop ((pre @ [d, NUL]) @ v @ NUL # post) (length (pre @ [d, NUL])) (ps @ [length pre + 2]))
           else set_index_loop ((pre @ [d]) @ u @ NUL # post) (length (pre @ [d])) ps)"
        using set_index_loop_at(1) [of pre d c "v @ NUL # post" ps] "1.prems"(1) d Cons by auto
      show ?thesis unfolding at
        using "1.prems"(2-) IH [of v "ps @ [length pre + 2]" "pre @ [d, NUL]"] IH [of u ps "pre @ [d]"]
        by force
    qed
  qed
qed

lemma set_virtual_loop_safe:
  assumes "NUL \<notin> set t" and "v \<le> length pre"
  shows "\<exists>m' v' ev' s. set_virtual_loop (pre @ t @ NUL # post) (length pre) v ev = Some (m', v', ev') \<and>
    cstr m' v' = Some s"
  using assms
proof (induction t arbitrary: pre v ev rule: length_induct)
  case (1 t)
  have str: "\<exists>s. cstr (a @ NUL # b) k = Some s" if "k \<le> length a" for a b k
    using that by (simp add: cstr_def)
  show ?case
  proof (cases t)
    case Nil
    then show ?thesis using "1.prems" str set_virtual_loop_at(2) [of pre post v ev] by auto
  next
    case (Cons d u)
    note d = this
    show ?thesis
    proof (cases u)
      case Nil
      then show ?thesis
        using "1.prems" d set_virtual_loop_at(1) [of pre d NUL post v ev]
          set_virtual_loop_at(2) [of "pre @ [d]" post v ev] str [of v "pre @ [d]" post] by auto
    next
      case (Cons c u')
      obtain s where s: "cstr (pre @ d # NUL # u' @ NUL # post) v = Some s"
        using str [of v "pre @ [d]" "u' @ NUL # post"] "1.prems"(2) by auto
      have at: "set_virtual_loop (pre @ t @ NUL # post) (length pre) v ev =
          (if c = COMMA
           then set_virtual_loop ((pre @ [d, NUL]) @ u' @ NUL # post) (length (pre @ [d, NUL]))
                  (length (pre @ [d, NUL])) (sys_putenv s ev)
           else set_virtual_loop ((pre @ [d]) @ u @ NUL # post) (length (pre @ [d])) v ev)"
        using set_virtual_loop_at(1) [of pre d c "u' @ NUL # post" v ev] "1.prems"(1) d Cons s by auto
      show ?thesis unfolding at
        using "1.prems" d Cons
          "1.IH" [rule_format, of u' "length (pre @ [d, NUL])" "pre @ [d, NUL]" "sys_putenv s ev"]
          "1.IH" [rule_format, of u v "pre @ [d]" ev]
        by auto
    qed
  qed
qed


subsection \<open>Lemmas: the whole command line\<close>

definition conf_ok :: "weborf_configuration_t \<Rightarrow> bool" where
  "conf_ok conf \<longleftrightarrow> even (length (cgi_paths conf)) \<and> length (cgi_paths conf) < MAXINDEXCOUNT \<and>
     [] \<notin> set (even_entries (cgi_paths conf)) \<and> indexes conf \<noteq> [] \<and> length (indexes conf) < MAXINDEXCOUNT"

definition arg_ok :: "char \<times> cmem option \<Rightarrow> bool" where
  "arg_ok opt = (case snd opt of None \<Rightarrow> True | Some m \<Rightarrow> cstr m 0 \<noteq> None)"

lemma comma_starts_le: "p \<in> set (comma_starts off t) \<Longrightarrow> p \<le> off + length t"
  by (induction t arbitrary: off) (fastforce split: if_splits)+

lemma set_cgi_strings:
  assumes "NUL \<notin> set t" and "length (comma_starts 1 t) + 1 < MAXINDEXCOUNT"
  shows "\<exists>ss. set_cgi_loop (c # t @ NUL # post) 0 [0] = Some (Inr (c # nulled t @ NUL # post, 0 # comma_starts 1 t)) \<and>
    strings_at (c # nulled t @ NUL # post) (0 # comma_starts 1 t) = Some ss"
proof -
  have "\<forall>p \<in> set (0 # comma_starts 1 t). p \<le> length (c # nulled t)"
    using comma_starts_le [of _ 1 t] by auto
  from strings_at_defined [OF this] show ?thesis
    using set_cgi_loop_result [of t "[c]" 0 "[0]" post] assms by (auto simp: MAXINDEXCOUNT_def)
qed

lemma configuration_set_cgi_safe:
  assumes "cstr m 0 = Some s" and "conf_ok conf"
  shows "\<exists>r. configuration_set_cgi (Some m) conf = Some r \<and> (\<forall>conf'. r = Inr conf' \<longrightarrow> conf_ok conf')"
proof (cases s)
  case Nil
  then show ?thesis using assms by (simp add: configuration_set_cgi_def c_strlen_def conf_ok_def even_entries_def)
next
  case (Cons c t)
  obtain post where m: "m = c # t @ NUL # post" and t: "NUL \<notin> set t"
    using cstr_SomeE [OF assms(1)] Cons by auto
  have n: "c_strlen m 0 = Some (Suc (length t))" using assms(1) Cons by (simp add: c_strlen_def)
  show ?thesis
  proof (cases "length (comma_starts 1 t) + 1 < MAXINDEXCOUNT")
    case True
    from set_cgi_strings [OF t this, of c post] obtain ss where
      ss: "set_cgi_loop m 0 [0] = Some (Inr (c # nulled t @ NUL # post, 0 # comma_starts 1 t))"
      "strings_at (c # nulled t @ NUL # post) (0 # comma_starts 1 t) = Some ss" by (auto simp: m)
    have "length ss = length (comma_starts 1 t) + 1" using strings_at_length [OF ss(2)] by simp
    then show ?thesis
      using assms(2) True n ss
      by (auto simp: configuration_set_cgi_def conf_ok_def mod2_eq_if split: if_splits)
  next
    case False
    then have "set_cgi_loop m 0 [0] = Some (Inl 6)"
      using set_cgi_loop_result [of t "[c]" 0 "[0]" post] t m by (simp add: MAXINDEXCOUNT_def)
    then show ?thesis using n by (simp add: configuration_set_cgi_def)
  qed
qed

lemma configuration_set_index_safe:
  assumes "cstr m 0 = Some s" and "conf_ok conf"
  shows "\<exists>r. configuration_set_index_list m conf = Some r \<and> (\<forall>conf'. r = Inr conf' \<longrightarrow> conf_ok conf')"
proof -
  obtain post where m: "m = s @ NUL # post" and s: "NUL \<notin> set s" using cstr_SomeE [OF assms(1)] by auto
  obtain r where r: "set_index_loop m 0 [0] = Some r"
    "\<forall>m' ps'. r = Inr (m', ps') \<longrightarrow> ps' \<noteq> [] \<and> length ps' < MAXINDEXCOUNT \<and> (\<exists>ss. strings_at m' ps' = Some ss)"
    using set_index_loop_safe [OF s, of "[0]" "[]" post] by (auto simp: m MAXINDEXCOUNT_def)
  show ?thesis
  proof (cases r)
    case (Inr x)
    obtain m' ps' where x: "x = (m', ps')" by fastforce
    with r Inr obtain ss where "strings_at m' ps' = Some ss" "ps' \<noteq> []" "length ps' < MAXINDEXCOUNT" by auto
    moreover from strings_at_length [OF this(1)] have "length ss = length ps'" .
    ultimately show ?thesis using r(1) Inr x assms(2)
      by (auto simp: configuration_set_index_list_def conf_ok_def)
  qed (use r(1) in \<open>simp add: configuration_set_index_list_def\<close>)
qed

lemma configuration_set_virtualhost_safe:
  assumes "cstr m 0 = Some s" and "conf_ok conf"
  shows "\<exists>conf' w'. configuration_set_virtualhost m conf w = Some (conf', w') \<and> conf_ok conf'"
proof -
  obtain post where m: "m = s @ NUL # post" and s: "NUL \<notin> set s" using cstr_SomeE [OF assms(1)] by auto
  show ?thesis using set_virtual_loop_safe [OF s, of 0 "[]" post "env w"] assms(2)
    by (auto simp: configuration_set_virtualhost_def m conf_ok_def)
qed

definition keeps_conf_ok :: "((int + settings) \<times> world) option \<Rightarrow> bool" where
  "keeps_conf_ok r \<longleftrightarrow> (case r of None \<Rightarrow> False | Some (Inl _, _) \<Rightarrow> True | Some (Inr st, _) \<Rightarrow> conf_ok (s_conf st))"

lemma keeps_if: "keeps_conf_ok a \<Longrightarrow> keeps_conf_ok b \<Longrightarrow> keeps_conf_ok (if P then a else b)"
  by simp

lemma plain_option_safe: "conf_ok (s_conf st) \<Longrightarrow> keeps_conf_ok (plain_option ch st w)"
  by (simp add: plain_option_def keeps_conf_ok_def set_conf_def conf_ok_def configuration_enable_sending_mime_def Let_def)

lemma set_conf_or_exit_safe:
  "(\<And>conf. r = Inr conf \<Longrightarrow> conf_ok conf) \<Longrightarrow> keeps_conf_ok (set_conf_or_exit st r w)"
  by (cases r) (auto simp: set_conf_or_exit_def keeps_conf_ok_def set_conf_def)

lemma arg_option_safe:
  assumes "cstr m 0 = Some s" and ok: "conf_ok (s_conf st)"
  shows "keeps_conf_ok (arg_option stk ch m st w)"
proof -
  obtain r1 where c: "configuration_set_cgi (Some m) (s_conf st) = Some r1" "\<And>conf'. r1 = Inr conf' \<Longrightarrow> conf_ok conf'"
    using configuration_set_cgi_safe [OF assms] by blast
  obtain r2 where i: "configuration_set_index_list m (s_conf st) = Some r2" "\<And>conf'. r2 = Inr conf' \<Longrightarrow> conf_ok conf'"
    using configuration_set_index_safe [OF assms] by blast
  obtain conf3 w3 where v: "configuration_set_virtualhost m (s_conf st) w = Some (conf3, w3)" "conf_ok conf3"
    using configuration_set_virtualhost_safe [OF assms] by blast
  have b: "keeps_conf_ok (case configuration_set_basedir stk s (s_conf st) w of (r, w1) \<Rightarrow> set_conf_or_exit st r w1)"
    using ok by (auto simp: configuration_set_basedir_def conf_ok_def intro!: set_conf_or_exit_safe split: prod.splits if_splits)
  have a: "keeps_conf_ok (case auth_set_socket s (s_conf st) w of (r, w1) \<Rightarrow> set_conf_or_exit st r w1)"
    using ok by (auto simp: auth_set_socket_def conf_ok_def intro!: set_conf_or_exit_safe
        split: prod.splits sum.splits if_splits)
  have k: "keeps_conf_ok (set_conf st conf w)" if "conf_ok conf" for conf w
    using that by (simp add: keeps_conf_ok_def set_conf_def)
  have p: "conf_ok ((s_conf st)\<lparr>conf_port := x\<rparr>)" "conf_ok ((s_conf st)\<lparr>conf_ip := y\<rparr>)"
    "conf_ok ((s_conf st)\<lparr>conf_uid := z\<rparr>)" "conf_ok ((s_conf st)\<lparr>conf_gid := z\<rparr>)" for x y z
    using ok by (simp_all add: conf_ok_def)
  have e: "keeps_conf_ok (Some (Inr (st\<lparr>s_certificate := x\<rparr>), w))" "keeps_conf_ok (Some (Inr (st\<lparr>s_key := x\<rparr>), w))"
    "keeps_conf_ok (case cache_init s w of (Inl e, w1) \<Rightarrow> Some (Inl e, w1)
        | (Inr d, w1) \<Rightarrow> Some (Inr (st\<lparr>s_cachedir := Some d\<rparr>), w1))" for x
    using ok by (auto simp: keeps_conf_ok_def split: prod.splits sum.splits)
  have x: "keeps_conf_ok (set_conf_or_exit st r1 w)" "keeps_conf_ok (set_conf_or_exit st r2 w)"
    using c(2) i(2) by (auto intro: set_conf_or_exit_safe)
  show ?thesis
    unfolding arg_option_def Let_def assms(1) bind.bind_lunit c(1) i(1) v(1) case_prod_conv
    by (intro keeps_if e x b a k v(2) p plain_option_safe [OF ok])
qed

lemma load_options_safe:
  "list_all arg_ok opts \<Longrightarrow> conf_ok (s_conf st) \<Longrightarrow> keeps_conf_ok (load_options stk opts st w)"
proof (induction opts arbitrary: st w)
  case (Cons opt opts)
  obtain ch arg where o: "opt = (ch, arg)" by fastforce
  have "keeps_conf_ok (case arg of None \<Rightarrow> plain_option ch st w | Some m \<Rightarrow> arg_option stk ch m st w)"
    using Cons.prems o plain_option_safe arg_option_safe by (auto simp: arg_ok_def split: option.splits)
  then obtain r w1 where r: "(case arg of None \<Rightarrow> plain_option ch st w | Some m \<Rightarrow> arg_option stk ch m st w) = Some (r, w1)"
    "\<And>st'. r = Inr st' \<Longrightarrow> conf_ok (s_conf st')"
    by (force simp: keeps_conf_ok_def split: option.split_asm sum.split_asm)
  show ?case
  proof (cases r)
    case (Inr st')
    then show ?thesis using r Cons.IH [of st' w1] Cons.prems o by simp
  qed (use r o in \<open>simp add: keeps_conf_ok_def\<close>)
qed (simp add: keeps_conf_ok_def)


lemma set_cgi_items:
  assumes "xs \<noteq> []" and "\<forall>x \<in> set xs. COMMA \<notin> set x \<and> NUL \<notin> set x" and "even (length xs)"
    and "length xs < MAXINDEXCOUNT" and "[] \<notin> set (even_entries xs)"
  shows "configuration_set_cgi (Some (join_comma xs @ [NUL])) conf = Some (Inr (conf\<lparr>cgi_paths := xs\<rparr>))"
proof -
  have "xs ! 0 \<in> set (even_entries xs)" using assms(1) by (auto simp: even_entries_def intro!: image_eqI [of _ _ 0])
  then have "hd xs \<noteq> []" using assms(1,5) by (metis hd_conv_nth)
  then obtain c y ys where xs: "xs = (c # y) # ys" using assms(1) by (metis list.exhaust_sel)
  then have c: "c \<noteq> COMMA" using assms(2) by auto
  obtain t where t: "join_comma xs = c # t" using xs by (cases ys) auto
  have nul: "NUL \<notin> set (join_comma xs)"
    using assms(2) by (induction xs rule: join_comma.induct) auto
  have sp: "split_comma (join_comma xs) = xs" using assms(1,2) by (intro split_join) auto
  have st: "strings_at (c # nulled t @ [NUL]) (0 # comma_starts 1 t) = Some xs"
    using strings_at_commas [OF nul, of "[]" "[]"] sp c by (simp add: t)
  then have "length xs = Suc (length (comma_starts 1 t))" using strings_at_length by fastforce
  moreover have "c_strlen (join_comma xs @ [NUL]) 0 = Some (Suc (length t))"
    using cstr_append [OF nul, of "[]" "[]"] t by (simp add: c_strlen_def)
  moreover have "set_cgi_loop (join_comma xs @ [NUL]) 0 [0] = Some (Inr (c # nulled t @ [NUL], 0 # comma_starts 1 t))"
    using set_cgi_loop_result [of t "[c]" 0 "[0]" "[]"] nul assms(4) calculation(1) t by simp
  ultimately show ?thesis using st assms(3,5) t by (simp add: configuration_set_cgi_def)
qed

lemma set_index_items:
  assumes "xs \<noteq> []" and "list_all an_item xs" and "length xs < MAXINDEXCOUNT"
  shows "configuration_set_index_list (join_comma xs @ [NUL]) conf = Some (Inr (conf\<lparr>indexes := xs\<rparr>))"
proof -
  have nul: "NUL \<notin> set (join_comma xs)"
    using assms(2) by (induction xs rule: join_comma.induct) (auto simp: an_item_def)
  have "split_comma (join_comma xs) = xs"
    using assms(1,2) by (intro split_join) (auto simp: list_all_iff an_item_def)
  with strings_at_commas [OF nul, of "[]" "[]"]
  have "strings_at (nulled (join_comma xs) @ [NUL]) (0 # comma_starts 0 (join_comma xs)) = Some xs" by simp
  then show ?thesis
    using set_index_loop_items [OF assms(2,1), of "[0]" "[]" "[]"] assms(3)
    by (simp add: configuration_set_index_list_def)
qed

definition host_entry :: "string \<times> string \<Rightarrow> string" where
  "host_entry e = fst e @ ''='' @ snd e"

lemma sys_putenv_entry:
  "CHR ''='' \<notin> set h \<Longrightarrow> sys_putenv (host_entry (h, d)) ev = AList.update h d ev"
  by (induction h) (auto simp: sys_putenv_def host_entry_def Let_def takeWhile_tail)

lemma putenv_hosts:
  assumes "distinct (map fst hs)" and "\<forall>(h, d) \<in> set hs. CHR ''='' \<notin> set h" and "(h, d) \<in> set hs"
  shows "map_of (fold sys_putenv (map host_entry hs) ev) h = Some d"
proof -
  have keep: "h \<notin> fst ` set gs \<Longrightarrow> \<forall>(h, d) \<in> set gs. CHR ''='' \<notin> set h \<Longrightarrow>
      map_of (fold sys_putenv (map host_entry gs) ev) h = map_of ev h" for gs ev
    by (induction gs arbitrary: ev) (auto simp: sys_putenv_entry update_conv)
  show ?thesis using assms
  proof (induction hs arbitrary: ev)
    case (Cons g hs)
    show ?case
    proof (cases "g = (h, d)")
      case True
      then show ?thesis using Cons.prems keep [of hs "AList.update h d ev"]
        by (simp add: sys_putenv_entry update_conv)
    next
      case False
      then show ?thesis using Cons by auto
    qed
  qed simp
qed

lemma configuration_set_virtualhost_items:
  assumes "list_all an_item xs" and "xs \<noteq> []"
  shows "configuration_set_virtualhost (join_comma xs @ [NUL]) conf w =
    Some (conf\<lparr>virtual_host := True\<rparr>, w\<lparr>env := fold sys_putenv xs (env w)\<rparr>)"
proof -
  obtain m v where "set_virtual_loop (join_comma xs @ [NUL]) 0 0 (env w) =
      Some (m, v, fold sys_putenv (butlast xs) (env w))" "cstr m v = Some (last xs)"
    using set_virtual_loop_items [OF assms, of "[]" "[]" "env w"] by auto
  moreover have "fold sys_putenv xs (env w) = sys_putenv (last xs) (fold sys_putenv (butlast xs) (env w))"
    using fold_append [of sys_putenv "butlast xs" "[last xs]"] assms(2) by simp
  ultimately show ?thesis by (simp add: configuration_set_virtualhost_def)
qed

lemma get_basedir_host:
  assumes "cstr m hp = Some (pre @ CRLF @ ''Host: '' @ h @ CR # post)" and "CR \<notin> set h"
    and "find_sub (CRLF @ ''Host: '') (pre @ CRLF @ ''Host: '' @ h @ CR # post) = Some (length pre)"
    and "virtual_host conf"
  shows "get_basedir conf ev m hp = Some (case map_of ev h of None \<Rightarrow> conf_basedir conf | Some d \<Rightarrow> d)"
proof -
  let ?q = "hp + length pre"
  have c1: "c_strstr m hp (CRLF @ ''Host: '') = Some (Some ?q)"
    using assms(3) by (simp add: c_strstr_Some [OF assms(1)])
  have q8: "cstr m (?q + 8) = Some (h @ CR # post)"
    using cstr_suffix [OF assms(1), of "length pre + 8"] by (simp add: add.assoc)
  have c2: "c_strstr m (?q + 8) [CR] = Some (Some (?q + 8 + length h))"
    using find_sub_single [OF assms(2), of post] by (simp add: c_strstr_Some [OF q8])
  have "take (length h) (drop (?q + 8) m) = h" using q8 by (elim cstr_SomeE) auto
  then show ?thesis using assms(4)
    unfolding get_basedir_def c1 c2 bind.bind_lunit option.case by simp
qed

lemma configuration_load_safe:
  assumes "list_all arg_ok opts"
  shows "\<exists>r w'. configuration_load ssl stk opts w = Some (r, w') \<and>
    (\<forall>st. r = Inr st \<longrightarrow> conf_ok (s_conf st) \<and>
      \<not> ((s_certificate st \<noteq> None \<or> s_key st \<noteq> None) \<and> tar_directory (s_conf st)))"
proof -
  let ?st = "\<lparr>s_conf = configuration_set_default_index (configuration_set_default_CGI weborf_conf),
    s_cachedir = None, s_certificate = None, s_key = None\<rparr>"
  have ee: "even_entries [a, b, c, d] = [a, c]" for a b c d :: string
    by (simp add: even_entries_def upt_rec)
  have "conf_ok (s_conf ?st)"
    by (simp add: conf_ok_def configuration_set_default_index_def configuration_set_default_CGI_def ee MAXINDEXCOUNT_def)
  from load_options_safe [OF assms this, of stk w] obtain r w1 where
    r: "load_options stk opts ?st w = Some (r, w1)" "\<And>st. r = Inr st \<Longrightarrow> conf_ok (s_conf st)"
    by (force simp: keeps_conf_ok_def split: option.split_asm sum.split_asm)
  show ?thesis
  proof (cases r)
    case (Inr st)
    then show ?thesis using r
      by (cases "ssl (s_certificate st) (s_key st)") (auto simp: configuration_load_def)
  qed (use r in \<open>auto simp: configuration_load_def\<close>)
qed

subsection \<open>Properties\<close>

text \<open>
  Claim C38. The command line is parsed safely: whatever options are given, and whatever the
  file system answers, \<open>configuration_load\<close> stays inside the arguments, and either
  ends the process or leaves a configuration in which the list of CGI programs is made of
  pairs with a non-empty extension, both lists fit their arrays, there is an index file,
  and the server does not both use TLS and send directories as archives.
\<close>

theorem command_line_safe:
  assumes "list_all arg_ok opts"
  shows "\<exists>r w'. configuration_load ssl stk opts w = Some (r, w') \<and>
    (\<forall>st. r = Inr st \<longrightarrow> conf_ok (s_conf st) \<and>
      \<not> ((s_certificate st \<noteq> None \<or> s_key st \<noteq> None) \<and> tar_directory (s_conf st)))"
  using assms by (rule configuration_load_safe)

theorem command_line_safe_witness:
  "\<exists>r w'. configuration_load (\<lambda>_ _. None) (stat_of a_dir)
      [(CHR ''c'', Some (''.pl,/usr/bin/perl'' @ [NUL])), (CHR ''t'', None), (CHR ''S'', Some (''a.pem'' @ [NUL]))]
      small_world = Some (r, w') \<and>
    (\<forall>st. r = Inr st \<longrightarrow> conf_ok (s_conf st) \<and>
      \<not> ((s_certificate st \<noteq> None \<or> s_key st \<noteq> None) \<and> tar_directory (s_conf st)))"
  by (rule command_line_safe) code_simp

text \<open>
  Claim C39. The lists of the command line are split at their commas: pairs of an extension and
  a program become the list of CGI programs, and file names the list of index files,
  whatever the configuration held before.
\<close>

theorem option_lists_are_split:
  assumes "xs \<noteq> []" and "\<forall>x \<in> set xs. COMMA \<notin> set x \<and> NUL \<notin> set x" and "even (length xs)"
    and "length xs < MAXINDEXCOUNT" and "[] \<notin> set (even_entries xs)"
    and "ys \<noteq> []" and "list_all an_item ys" and "length ys < MAXINDEXCOUNT"
  shows "configuration_set_cgi (Some (join_comma xs @ [NUL])) conf = Some (Inr (conf\<lparr>cgi_paths := xs\<rparr>)) \<and>
    configuration_set_index_list (join_comma ys @ [NUL]) conf = Some (Inr (conf\<lparr>indexes := ys\<rparr>))"
  using set_cgi_items [OF assms(1-5)] set_index_items [OF assms(6-8)] by blast

theorem option_lists_are_split_witness:
  "configuration_set_cgi (Some (''.php,/usr/bin/php,.py,'' @ [NUL])) small_conf =
     Some (Inr (small_conf\<lparr>cgi_paths := [''.php'', ''/usr/bin/php'', ''.py'', '''']\<rparr>)) \<and>
   configuration_set_index_list (''index.html,index.php'' @ [NUL]) small_conf =
     Some (Inr (small_conf\<lparr>indexes := [''index.html'', ''index.php'']\<rparr>))"
proof -
  have ee: "even_entries [a, b, c, d] = [a, c]" for a b c d :: string
    by (simp add: even_entries_def upt_rec)
  show ?thesis
    using option_lists_are_split [of "[''.php'', ''/usr/bin/php'', ''.py'', '''']" "[''index.html'', ''index.php'']" small_conf]
    by (simp add: ee MAXINDEXCOUNT_def an_item_def)
qed

text \<open>
  Claim C40. A virtual host given on the command line is the one that its requests are served
  from: after the option has been read, a request with that host name gets the directory that
  was given for it.
\<close>

theorem virtual_host_is_found:
  assumes "distinct (map fst hs)" and "\<forall>(h, d) \<in> set hs. CHR ''='' \<notin> set h"
    and "list_all an_item (map host_entry hs)" and "(h, d) \<in> set hs" and "CR \<notin> set h"
    and "cstr m hp = Some (pre @ CRLF @ ''Host: '' @ h @ CR # post)"
    and "find_sub (CRLF @ ''Host: '') (pre @ CRLF @ ''Host: '' @ h @ CR # post) = Some (length pre)"
  shows "\<exists>conf' w'. configuration_set_virtualhost (join_comma (map host_entry hs) @ [NUL]) conf w = Some (conf', w') \<and>
    get_basedir conf' (env w') m hp = Some d"
proof -
  have "hs \<noteq> []" using assms(4) by auto
  then have "configuration_set_virtualhost (join_comma (map host_entry hs) @ [NUL]) conf w =
      Some (conf\<lparr>virtual_host := True\<rparr>, w\<lparr>env := fold sys_putenv (map host_entry hs) (env w)\<rparr>)"
    using assms(3) by (intro configuration_set_virtualhost_items) auto
  moreover have "get_basedir (conf\<lparr>virtual_host := True\<rparr>) (fold sys_putenv (map host_entry hs) (env w)) m hp = Some d"
    using get_basedir_host [OF assms(6,5,7)] putenv_hosts [OF assms(1,2,4)] by simp
  ultimately show ?thesis by simp
qed

theorem virtual_host_is_found_witness:
  "\<exists>conf' w'. configuration_set_virtualhost (''a.org=/srv/a,b.org=/srv/b'' @ [NUL]) small_conf small_world =
      Some (conf', w') \<and>
    get_basedir conf' (env w') (buf (asking ''Host: b.org'')) (http_param (asking ''Host: b.org'')) = Some ''/srv/b''"
proof -
  have "\<exists>conf' w'. configuration_set_virtualhost
      (join_comma (map host_entry [(''a.org'', ''/srv/a''), (''b.org'', ''/srv/b'')]) @ [NUL]) small_conf small_world =
      Some (conf', w') \<and>
    get_basedir conf' (env w') (buf (asking ''Host: b.org'')) (http_param (asking ''Host: b.org'')) = Some ''/srv/b''"
  proof (rule virtual_host_is_found [where h = "''b.org''" and pre = "''HTTP/1.1''" and post = "[LF]"])
    show "cstr (buf (asking ''Host: b.org'')) (http_param (asking ''Host: b.org'')) =
        Some (''HTTP/1.1'' @ CRLF @ ''Host: '' @ ''b.org'' @ CR # [LF])" by code_simp
    show "find_sub (CRLF @ ''Host: '') (''HTTP/1.1'' @ CRLF @ ''Host: '' @ ''b.org'' @ CR # [LF]) =
        Some (length ''HTTP/1.1'')" by code_simp
  qed (simp_all add: host_entry_def an_item_def)
  then show ?thesis by (simp add: host_entry_def)
qed

text \<open>A port that fits sixteen bits is the one that is bound.\<close>

lemma net_bind_port:
  assumes "1 \<le> n" and "n \<le> 65535" and "conf_port conf = show_nat n" and "conf_ip conf = None" and "bind_ok None (int n)"
  shows "net_bind_and_listen pton bind_ok conf = Inr (None, int n)"
proof -
  have "c_strtol 0 (show_nat n @ []) = int n" using assms(1,2) by (intro c_strtol_0_show) (auto simp: LONG_MAX_def)
  moreover have "uint (word_of_int (int n) :: 32 word) = int n"
    using assms(2) by (simp add: unsigned_of_nat take_bit_nat_eq_self)
  ultimately show ?thesis using assms by (simp add: net_bind_and_listen_def Let_def)
qed

end
