(* ===== verification/DirList.thy ===== *)
theory DirList
  imports Cache Utils "HOL-Library.List_Lexorder" "HOL-Library.Char_ord"
begin

section \<open>Directory listings: list_dir and write_dir\<close>

text \<open>
  The HTML page for a directory. The page is a chain of \<open>snprintf\<close> calls on one buffer
  (\<open>put_text\<close>); the two encoded forms of a name are kept in two blocks that every entry
  reuses, and so is the \<open>struct stat\<close>, whose old value is used again when \<open>stat\<close>
  fails. \<open>localtime_r\<close> and \<open>strftime\<close> are a parameter, the text of a date. \<open>scandir\<close> with
  \<open>alphasort\<close> returns the names in the order of their bytes.
\<close>

subsection \<open>Definitions\<close>

definition HTMLLIGHT :: string where "HTMLLIGHT = ''white''"
definition HTMLDARK :: string where "HTMLDARK = ''#EAEAEA''"
definition HTMLPARENT :: string where "HTMLPARENT = ''#DFDFDF''"

definition sys_scandir :: "string \<Rightarrow> world \<Rightarrow> (errno + string list) \<times> world" where
  "sys_scandir s w =
     (case sys_opendir s w of (Inl e, w1) \<Rightarrow> (Inl e, w1) | (Inr names, w1) \<Rightarrow> (Inr (sort names), w1))"

text \<open>The size of a file, scaled, with its unit.\<close>

definition scaled_size :: "int \<Rightarrow> string" where
  "scaled_size st_sz =
     (let size = unat (word_of_int st_sz :: 64 word) in
      if size < 1024 then show_nat size @ '' B''
      else if size div 1024 < 1024 then show_nat (size div 1024) @ '' KiB''
      else if size div 1024 div 1024 < 1024 then show_nat (size div 1024 div 1024) @ '' MiB''
      else show_nat (size div 1024 div 1024 div 1024) @ '' GiB'')"

definition row_start :: "string \<Rightarrow> string" where
  "row_start color = ''<tr style='' @ QUOTE @ ''background-color: '' @ color @ '';'' @ QUOTE @ ''>''"

definition file_row :: "nat \<Rightarrow> string \<Rightarrow> string \<Rightarrow> int \<Rightarrow> string \<Rightarrow> string" where
  "file_row i esc nm st_sz modified =
     row_start (if i mod 2 = 0 then HTMLLIGHT else HTMLDARK) @ ''<td>f</td><td><a href='' @ QUOTE @ esc @ QUOTE @
     ''>'' @ nm @ ''</a></td><td>'' @ scaled_size st_sz @ ''</td><td>'' @ modified @ ''</td></tr>'' @ [LF]"

definition dir_row :: "string \<Rightarrow> string \<Rightarrow> string \<Rightarrow> string" where
  "dir_row esc nm modified =
     row_start ''#DFDFDF'' @ ''<td>d</td><td><a href='' @ QUOTE @ esc @ ''/'' @ QUOTE @ ''>'' @ nm @
     ''/</a></td><td>-</td><td>'' @ modified @ ''</td></tr>'' @ [LF]"

definition table_head :: string where
  "table_head = HTMLHEAD @ ''<table><tr><td></td><td>Name</td><td>Size</td><td>Last Modified</td></tr>''"

definition parent_row :: string where
  "parent_row = row_start HTMLPARENT @ ''<td>d</td><td><a href='' @ QUOTE @ ''../'' @ QUOTE @
     ''>../</a></td><td>-</td><td>-</td></tr>''"

record dir_page =
  dp_text :: "string \<times> int"
  dp_err :: int
  dp_prop :: stat
  dp_html :: "cmem option"
  dp_uri :: "cmem option"

text \<open>The texts in the two blocks; printing a null pointer is undefined.\<close>

definition encoded_names :: "dir_page \<Rightarrow> string \<Rightarrow> (string \<times> string \<times> dir_page) option" where
  "encoded_names d name = do {
     h \<leftarrow> html_encode (dp_html d) ESCAPED_FNAME_LEN (Some name);
     u \<leftarrow> uri_encode (dp_uri d) ESCAPED_FNAME_LEN (Some name);
     hm \<leftarrow> h;
     um \<leftarrow> u;
     hs \<leftarrow> cstr hm 0;
     us \<leftarrow> cstr um 0;
     Some (us, hs, d\<lparr>dp_html := h, dp_uri := u\<rparr>)
   }"

fun list_dir_loop :: "(int \<Rightarrow> string) \<Rightarrow> string \<Rightarrow> nat \<Rightarrow> string list \<Rightarrow> dir_page \<Rightarrow> world \<Rightarrow>
    (dir_page \<times> world) option" where
  "list_dir_loop date dir i [] d w = Some (d, w)"
| "list_dir_loop date dir i (name # names) d w =
     (if take 1 name = ''.'' \<or> dp_err d \<noteq> 0 then list_dir_loop date dir (Suc i) names d w
      else (case sys_stat (take (INBUFFER - 1) (dir @ ''/'' @ name)) w of
              (r, w1) \<Rightarrow> do {
                let d1 = d\<lparr>dp_prop := case r of Inl _ \<Rightarrow> dp_prop d | Inr st \<Rightarrow> st\<rparr>;
                let md = st_mode (dp_prop d1);
                let modified = date (st_mtime (dp_prop d1));
                (us, hs, d2) \<leftarrow> encoded_names d1 name;
                t \<leftarrow> (if S_ISREG md then put_text (dp_text d2) (file_row i us hs (st_size (dp_prop d2)) modified)
                      else if S_ISDIR md then put_text (dp_text d2) (dir_row us hs modified)
                      else Some (dp_text d2));
                let d3 = d2\<lparr>dp_text := t, dp_err := if snd t \<le> 0 then -2 else dp_err d2\<rparr>;
                list_dir_loop date dir (Suc i) names d3 w1
              }))"

text \<open>
  \<open>stk\<close> is the uninitialised \<open>f_prop\<close>, \<open>blocks\<close> what the two allocated blocks hold. The result is the
  value of \<open>list_dir\<close> and the initialised bytes of \<open>html\<close>.
\<close>

definition list_dir :: "(int \<Rightarrow> string) \<Rightarrow> stat \<Rightarrow> cmem \<times> cmem \<Rightarrow> connection_t \<Rightarrow> nat \<Rightarrow> bool \<Rightarrow> world \<Rightarrow>
    (int \<times> string \<times> world) option" where
  "list_dir date stk blocks c bufsize parent w = do {
     dir \<leftarrow> cstr (strfile c) 0;
     case sys_scandir dir w of
       (r, w1) \<Rightarrow>
         (case malloc w1 of
            (ok1, w2) \<Rightarrow>
              (case malloc w2 of
                 (ok2, w3) \<Rightarrow>
                   (case r of
                      Inl _ \<Rightarrow> Some (-1, [], w3)
                    | Inr names \<Rightarrow> do {
                        t0 \<leftarrow> put_text ([], int bufsize - 1) table_head;
                        t1 \<leftarrow> (if parent then put_text t0 parent_row else Some t0);
                        (d, w4) \<leftarrow> list_dir_loop date dir 0 names
                          \<lparr>dp_text = t1, dp_err = 0, dp_prop = stk,
                           dp_html = if ok1 then Some (fst blocks) else None,
                           dp_uri = if ok2 then Some (snd blocks) else None\<rparr> w3;
                        if dp_err d = 0 then do {
                          t2 \<leftarrow> put_text (dp_text d) (''</table>'' @ HTMLFOOT);
                          Some (int bufsize - 1 - snd t2, fst t2, w4)
                        } else Some (dp_err d, fst (dp_text d), w4)
                      })))
   }"

text \<open>
  \<open>write_dir\<close>: \<open>pagelen\<close> is unsigned, so that the branch for errors is never taken; a
  negative result becomes a huge length, and the write reads past the buffer.
\<close>

definition write_dir :: "(string \<Rightarrow> string) \<Rightarrow> (int \<Rightarrow> string) \<Rightarrow> weborf_configuration_t \<Rightarrow> string option \<Rightarrow> stat \<Rightarrow>
    cmem \<times> cmem \<Rightarrow> string \<Rightarrow> connection_t \<Rightarrow> world \<Rightarrow> (int \<times> connection_t \<times> world) option" where
  "write_dir magic date conf cachedir stk blocks real_basedir c w = do {
     (r, c1, w1) \<leftarrow> check_etag c w;
     if r = 0 then Some (0, c1, w1)
     else do {
       (hit, c2, w2) \<leftarrow> cache_send_item magic conf cachedir 0 c1 w1;
       if hit then Some (0, c2, w2)
       else
         (let parent = \<not> (strfile_len c2 = length real_basedir + 1 \<or> strfile_len c2 = length real_basedir) in
          case malloc w2 of
            (ok, w3) \<Rightarrow>
              if \<not> ok then Some (ERR_NOMEM, c2, w3)
              else do {
                (n, html, w4) \<leftarrow> list_dir date stk blocks c2 MAXSCRIPTOUT parent w3;
                let pagelen = (word_of_int n :: 64 word);
                (_, c3, w5) \<leftarrow> send_http_header 200 (Some pagelen)
                  (Some (''Content-Type: text/html'' @ CRLF)) True (st_mtime (strfile_stat c2)) c2 w4;
                bytes \<leftarrow> read_image html (unat pagelen);
                case client_write bytes w5 of
                  (_, w6) \<Rightarrow> Some (0, c3, cache_store_item cachedir 0 c3 bytes w6)
              })
     }
   }"

subsection \<open>The specification of a listing\<close>

definition entry_row :: "(int \<Rightarrow> string) \<Rightarrow> nat \<Rightarrow> string \<Rightarrow> stat \<Rightarrow> string" where
  "entry_row date i name st =
     (if S_ISREG (st_mode st)
      then file_row i (uri_encoded name) (html_encoded name) (st_size st) (date (st_mtime st))
      else if S_ISDIR (st_mode st) then dir_row (uri_encoded name) (html_encoded name) (date (st_mtime st))
      else [])"

definition visible :: "string \<Rightarrow> bool" where
  "visible name \<longleftrightarrow> take 1 name \<noteq> ''.''"

fun rows :: "(int \<Rightarrow> string) \<Rightarrow> fsys \<Rightarrow> path \<Rightarrow> nat \<Rightarrow> string list \<Rightarrow> string" where
  "rows date tr p i [] = []"
| "rows date tr p i (name # names) =
     (if visible name
      then entry_row date i name (case lookup tr (p @ [name]) of None \<Rightarrow> stat_of a_dir | Some e \<Rightarrow> stat_of e)
      else []) @ rows date tr p (Suc i) names"

definition listing :: "(int \<Rightarrow> string) \<Rightarrow> fsys \<Rightarrow> path \<Rightarrow> bool \<Rightarrow> string" where
  "listing date tr p parent =
     table_head @ (if parent then parent_row else []) @
     rows date tr p 0 (sort (''.'' # ''..'' # children tr p)) @ ''</table>'' @ HTMLFOOT"

text \<open>Directories whose names fit the buffers.\<close>

definition listable :: "string \<Rightarrow> string list \<Rightarrow> bool" where
  "listable dir names \<longleftrightarrow>
     list_all (\<lambda>n. length n \<le> 127 \<and> NUL \<notin> set n \<and> length dir + 1 + length n < INBUFFER) names"

subsection \<open>Lemmas\<close>

lemma html_encoded_length: "length (html_encoded s) \<le> 6 * length s"
  by (induction s) (auto simp: html_encoded_def html_code_def)

lemma html_encode_complete:
  assumes "NUL \<notin> set s" and "length (html_encoded s) < length m"
  shows "\<exists>post. html_encode (Some m) (length m) (Some s) = Some (Some (html_encoded s @ NUL # post)) \<and>
    length (html_encoded s @ NUL # post) = length m"
proof -
  obtain x old where m: "m = x # old" using assms(2) by (cases m) auto
  then show ?thesis using html_encode_loop_prefix [of s "[]" old "length m"] assms
    by (auto simp: html_encode_def c_poke_def)
qed

lemma uri_encode_complete:
  assumes "length (uri_encoded s) + 2 \<le> length m"
  shows "\<exists>post. uri_encode (Some m) (length m) (Some s) = Some (Some (uri_encoded s @ NUL # post)) \<and>
    length (uri_encoded s @ NUL # post) = length m"
proof -
  obtain x old where m: "m = x # old" using assms by (cases m) auto
  then show ?thesis using uri_encode_loop_complete [of "[]" s "length m" old] assms
    by (auto simp: uri_encode_def c_poke_def)
qed

definition blocks_ok :: "dir_page \<Rightarrow> bool" where
  "blocks_ok d \<longleftrightarrow> map_option length (dp_html d) = Some ESCAPED_FNAME_LEN \<and>
     map_option length (dp_uri d) = Some ESCAPED_FNAME_LEN"

lemma encoded_names_ok:
  assumes "blocks_ok d" and "NUL \<notin> set s" and "length s \<le> 127"
  shows "\<exists>h u. encoded_names d s = Some (uri_encoded s, html_encoded s, d\<lparr>dp_html := h, dp_uri := u\<rparr>) \<and>
    blocks_ok (d\<lparr>dp_html := h, dp_uri := u\<rparr>)"
proof -
  obtain hm um where b: "dp_html d = Some hm" "length hm = ESCAPED_FNAME_LEN" "dp_uri d = Some um"
    "length um = ESCAPED_FNAME_LEN" using assms(1) by (auto simp: blocks_ok_def)
  have "length (html_encoded s) < length hm" using html_encoded_length [of s] assms(3) b(2)
    by (simp add: buffer_sizes)
  then obtain p1 where h: "html_encode (Some hm) ESCAPED_FNAME_LEN (Some s) = Some (Some (html_encoded s @ NUL # p1))"
    "length (html_encoded s @ NUL # p1) = ESCAPED_FNAME_LEN"
    using html_encode_complete [OF assms(2), of hm] b(2) by auto
  have "length (uri_encoded s) + 2 \<le> length um" using uri_encoded_length [of s] assms(3) b(4)
    by (simp add: buffer_sizes)
  then obtain p2 where u: "uri_encode (Some um) ESCAPED_FNAME_LEN (Some s) = Some (Some (uri_encoded s @ NUL # p2))"
    "length (uri_encoded s @ NUL # p2) = ESCAPED_FNAME_LEN"
    using uri_encode_complete [of s um] b(4) by auto
  have "cstr (html_encoded s @ NUL # p1) 0 = Some (html_encoded s)"
    "cstr (uri_encoded s @ NUL # p2) 0 = Some (uri_encoded s)"
    using cstr_append [OF html_encoded_no_NUL [OF assms(2)], of "[]" p1]
      cstr_append [OF uri_encoded_no_NUL [OF assms(2)], of "[]" p2] by simp_all
  then show ?thesis using h u b
    by (intro exI [of _ "Some (html_encoded s @ NUL # p1)"] exI [of _ "Some (uri_encoded s @ NUL # p2)"])
      (simp add: encoded_names_def blocks_ok_def)
qed

lemma sys_stat_child:
  assumes "healthy w" and "fs_ok (fs w)" and "names_path dir p" and "proper n" and "lookup (fs w) (p @ [n]) = Some e"
  shows "sys_stat (dir @ ''/'' @ n) w = (Inr (stat_of e), w)"
proof -
  have "p @ [n] \<in> fst ` set (fs w)" using assms(5) by (metis lookup_iff option.distinct(1))
  moreover have "last (dir @ ''/'' @ n) \<noteq> CHR ''/''" 
    using assms(4) by (metis append_is_Nil_conv last_appendR last_in_set proper_def)
  ultimately have "resolve (fs w) (cwd w) (dir @ ''/'' @ n) = Inr (p @ [n])"
    using assms(2-4) by (intro resolve_names names_path_child) auto
  then show ?thesis using assms(1,5) by (simp add: sys_stat_def on_path_def healthy_simps)
qed

lemma list_dir_loop_ok:
  assumes w: "healthy w" "fs_ok (fs w)" "names_path dir p"
    and names: "\<forall>n \<in> set names. visible n \<longrightarrow> proper n \<and> lookup (fs w) (p @ [n]) \<noteq> None"
    and l: "listable dir names"
    and d: "blocks_ok d" "dp_err d = 0" "dp_text d = (out, B - int (length out))"
    and fits: "int (length (out @ rows date (fs w) p i names)) < B"
  shows "\<exists>d'. list_dir_loop date dir i names d w = Some (d', w) \<and> dp_err d' = 0 \<and>
    dp_text d' = (out @ rows date (fs w) p i names, B - int (length (out @ rows date (fs w) p i names)))"
  using names l d fits
proof (induction names arbitrary: i d out)
  case (Cons n names)
  show ?case
  proof (cases "visible n")
    case False
    then show ?thesis using Cons by (simp add: visible_def listable_def)
  next
    case True
    then obtain e where e: "proper n" "lookup (fs w) (p @ [n]) = Some e" using Cons.prems(1) by auto
    have n: "length n \<le> 127" "NUL \<notin> set n" "take (INBUFFER - 1) (dir @ ''/'' @ n) = dir @ ''/'' @ n"
      using Cons.prems(2) by (auto simp: listable_def)
    let ?d1 = "d\<lparr>dp_prop := stat_of e\<rparr>" and ?r = "entry_row date i n (stat_of e)"
    have "blocks_ok ?d1" using Cons.prems(3) by (simp add: blocks_ok_def)
    from encoded_names_ok [OF this n(2,1)] obtain h u where
      en: "encoded_names ?d1 n = Some (uri_encoded n, html_encoded n, ?d1\<lparr>dp_html := h, dp_uri := u\<rparr>)"
      and b: "blocks_ok (?d1\<lparr>dp_html := h, dp_uri := u\<rparr>)" by blast
    have rw: "rows date (fs w) p i (n # names) = ?r @ rows date (fs w) p (Suc i) names" using True e by simp
    have lt: "int (length ?r) < B - int (length out)" using Cons.prems(6) unfolding rw by simp
    let ?t = "(out @ ?r, B - int (length (out @ ?r)))"
    have pt: "(if S_ISREG (st_mode (stat_of e)) then put_text (dp_text d)
          (file_row i (uri_encoded n) (html_encoded n) (st_size (stat_of e)) (date (st_mtime (stat_of e))))
        else if S_ISDIR (st_mode (stat_of e)) then put_text (dp_text d)
          (dir_row (uri_encoded n) (html_encoded n) (date (st_mtime (stat_of e))))
        else Some (dp_text d)) = Some ?t"
      using lt put_text_fits [of ?r "B - int (length out)" out] Cons.prems(5)
      by (auto simp: entry_row_def)
    let ?d3 = "?d1\<lparr>dp_html := h, dp_uri := u, dp_text := ?t, dp_err := 0\<rparr>"
    have "list_dir_loop date dir i (n # names) d w = list_dir_loop date dir (Suc i) names ?d3 w"
      using True sys_stat_child [OF w e] n(3) en pt lt Cons.prems(4)
      by (cases d; cases "S_ISREG (st_mode (stat_of e))"; cases "S_ISDIR (st_mode (stat_of e))")
        (simp_all add: visible_def Let_def)
    moreover have "\<exists>d'. list_dir_loop date dir (Suc i) names ?d3 w = Some (d', w) \<and> dp_err d' = 0 \<and>
        dp_text d' = ((out @ ?r) @ rows date (fs w) p (Suc i) names,
          B - int (length ((out @ ?r) @ rows date (fs w) p (Suc i) names)))"
      using Cons.prems b rw by (intro Cons.IH) (auto simp: blocks_ok_def listable_def)
    ultimately show ?thesis unfolding rw by simp
  qed
qed simp


lemma sys_scandir_ok:
  assumes "healthy w" and "fs_ok (fs w)" and "names_path dir p" and "dir_at (fs w) p"
  shows "sys_scandir dir w = (Inr (sort (''.'' # ''..'' # children (fs w) p)), w)"
proof -
  have "resolve (fs w) (cwd w) dir = Inr p"
    using assms(2-4) dir_atD by (intro resolve_names) auto
  then show ?thesis using sys_opendir_ok [OF assms(1) _ assms(4), of dir] by (simp add: sys_scandir_def)
qed

lemma table_head_length: "length table_head \<le> 2100"
  using html_lengths by (simp add: table_head_def)

lemma list_dir_ok:
  assumes w: "healthy w" "fs_ok (fs w)" "cstr (strfile c) 0 = Some dir" "names_path dir p" "dir_at (fs w) p"
    and l: "listable dir (children (fs w) p)" "length dir + 3 < INBUFFER"
    and b: "length (fst blocks) = ESCAPED_FNAME_LEN" "length (snd blocks) = ESCAPED_FNAME_LEN"
    and fits: "length (listing date (fs w) p parent) + 1 < bufsize"
  shows "list_dir date stk blocks c bufsize parent w =
    Some (int (length (listing date (fs w) p parent)), listing date (fs w) p parent, w)"
proof -
  let ?names = "sort (''.'' # ''..'' # children (fs w) p)"
  let ?B = "int bufsize - 1"
  define h where "h = table_head @ (if parent then parent_row else [])"
  define r where "r = rows date (fs w) p 0 ?names"
  define f where "f = ''</table>'' @ HTMLFOOT"
  have pg: "listing date (fs w) p parent = h @ r @ f" by (simp add: listing_def h_def r_def f_def)
  have len: "int (length h) + int (length r) + int (length f) < ?B" using fits unfolding pg by simp
  have 1: "put_text ([], ?B) table_head = Some (table_head, ?B - int (length table_head))"
    using len by (subst put_text_fits) (auto simp: h_def)
  have 2: "(if parent then put_text (table_head, ?B - int (length table_head)) parent_row
      else Some (table_head, ?B - int (length table_head))) = Some (h, ?B - int (length h))"
    using len by (auto simp: h_def put_text_fits)
  let ?d = "\<lparr>dp_text = (h, ?B - int (length h)), dp_err = 0, dp_prop = stk,
    dp_html = Some (fst blocks), dp_uri = Some (snd blocks)\<rparr>"
  have ns: "set ?names = {''.'', ''..''} \<union> set (children (fs w) p)" by (simp only: set_sort) auto
  have names: "\<forall>n \<in> set ?names. visible n \<longrightarrow> proper n \<and> lookup (fs w) (p @ [n]) \<noteq> None"
  proof (intro ballI impI)
    fix n assume n: "n \<in> set ?names" "visible n"
    then have "p @ [n] \<in> fst ` set (fs w)" unfolding ns by (auto simp: visible_def set_children)
    then show "proper n \<and> lookup (fs w) (p @ [n]) \<noteq> None"
      using fs_ok_proper [OF w(2), of p "[n]"] by (simp add: lookup_iff)
  qed
  have "listable dir ?names" using l unfolding listable_def list_all_iff ns by auto
  then obtain d where d: "list_dir_loop date dir 0 ?names ?d w = Some (d, w)" "dp_err d = 0"
    "dp_text d = (h @ r, ?B - int (length (h @ r)))"
    using list_dir_loop_ok [OF w(1,2,4) names, of ?d h ?B date 0] b len
    by (auto simp: blocks_ok_def r_def)
  have 3: "put_text (dp_text d) f = Some (h @ r @ f, ?B - int (length (h @ r @ f)))"
    using len by (simp add: d(3) put_text_fits)
  show ?thesis
    unfolding list_dir_def w(3) bind.bind_lunit sys_scandir_ok [OF w(1,2,4,5)] prod.case healthy_simps [OF w(1)]
      sum.case 1 2 if_True d(1,2) f_def [symmetric] 3 pg by simp
qed

definition at_top :: "connection_t \<Rightarrow> string \<Rightarrow> bool" where
  "at_top c bd \<longleftrightarrow> strfile_len c = length bd + 1 \<or> strfile_len c = length bd"

lemma write_dir_ok:
  assumes w: "healthy w" "fs_ok (fs w)" "cstr (strfile c) 0 = Some dir" "names_path dir p" "dir_at (fs w) p"
    and l: "listable dir (children (fs w) p)" "length dir + 3 < INBUFFER"
    and b: "length (fst blocks) = ESCAPED_FNAME_LEN" "length (snd blocks) = ESCAPED_FNAME_LEN"
    and pg: "pg = listing date (fs w) p (\<not> at_top c bd)" "length pg + 1 < MAXSCRIPTOUT" and k: "keep_alive c"
    and et: "get_param_value (buf c) (http_param c) ''If-None-Match'' RBUFFER 13 = Some None"
    and cd: "case cachedir of None \<Rightarrow> True
      | Some cdir \<Rightarrow> (\<exists>q. resolve (fs w) (cwd w) (cached_filename cdir 0 c) = Inr q \<and> lookup (fs w) q = None)"
  shows "\<exists>h. write_dir magic date conf cachedir stk blocks bd c w =
      Some (0, c\<lparr>status_code := 200\<rparr>,
        cache_store_item cachedir 0 (c\<lparr>status_code := 200\<rparr>) pg (w\<lparr>sent := sent w @ h @ pg\<rparr>)) \<and>
    parse_response (h @ pg @ rest) = Some (200, pg, rest)"
proof -
  have "cache_get_item_fd cachedir 0 c w = (-1, w)"
  proof (cases cachedir)
    case (Some cdir)
    then show ?thesis using cd cache_miss [OF w(1)] by auto
  qed (simp add: cache_get_item_fd_def)
  then have miss: "cache_send_item magic conf cachedir 0 c w = Some (False, c, w)"
    by (simp add: cache_send_item_def)
  have n: "length pg < 2 ^ 63" using pg(2) by (simp add: buffer_sizes)
  note cv = count_conversions [OF n]
  have line: "''Content-Type: text/html'' @ CRLF = header_text [''Content-Type: text/html'']"
    by (simp add: header_text_def)
  obtain h where h: "send_http_header 200 (Some (of_nat (length pg))) (Some (''Content-Type: text/html'' @ CRLF)) True
        (st_mtime (strfile_stat c)) c w = Some (0, c\<lparr>status_code := 200\<rparr>, w\<lparr>sent := sent w @ h\<rparr>)"
      "parse_response (h @ pg @ rest) = Some (200, pg, rest)"
    unfolding line using send_http_header_message [where code = 200 and ls = "[''Content-Type: text/html'']" and
        n = "of_nat (length pg)" and body = pg and rest = rest and c = c and w = w] w(1) k cv n
    by (auto simp: good_line_def header_text_def)
  have ld: "list_dir date stk blocks c MAXSCRIPTOUT (\<not> at_top c bd) w = Some (int (length pg), pg, w)"
    using list_dir_ok [OF w l b, of date "\<not> at_top c bd" MAXSCRIPTOUT stk] pg by simp
  have "check_etag c w = Some (1, c, w)" using et by (simp add: check_etag_def)
  then have "write_dir magic date conf cachedir stk blocks bd c w =
      Some (0, c\<lparr>status_code := 200\<rparr>,
        cache_store_item cachedir 0 (c\<lparr>status_code := 200\<rparr>) pg (w\<lparr>sent := sent w @ h @ pg\<rparr>))"
    using ld h(1) w(1) cv
    by (simp add: write_dir_def miss at_top_def Let_def healthy_simps read_image_def)
  with h(2) show ?thesis by blast
qed


subsection \<open>Properties\<close>

text \<open>
  Claim C36. A request for a directory is answered by one message with status 200 whose body is
  exactly the listing of that directory: the link to the parent unless the directory is the top
  one, then in the order of their names one row for every visible file or directory, with its
  name as an encoded link and as encoded text, its size and its date. The page is
  stored in the cache when there is one.
\<close>

theorem listing_is_sent:
  assumes "healthy w" and "fs_ok (fs w)" and "cstr (strfile c) 0 = Some dir" and "names_path dir p"
    and "dir_at (fs w) p" and "listable dir (children (fs w) p)" and "length dir + 3 < INBUFFER"
    and "length (fst blocks) = ESCAPED_FNAME_LEN" and "length (snd blocks) = ESCAPED_FNAME_LEN"
    and "pg = listing date (fs w) p (\<not> at_top c bd)" and "length pg + 1 < MAXSCRIPTOUT" and "keep_alive c"
    and "get_param_value (buf c) (http_param c) ''If-None-Match'' RBUFFER 13 = Some None"
    and "case cachedir of None \<Rightarrow> True
      | Some cdir \<Rightarrow> (\<exists>q. resolve (fs w) (cwd w) (cached_filename cdir 0 c) = Inr q \<and> lookup (fs w) q = None)"
  shows "\<exists>h. write_dir magic date conf cachedir stk blocks bd c w =
      Some (0, c\<lparr>status_code := 200\<rparr>,
        cache_store_item cachedir 0 (c\<lparr>status_code := 200\<rparr>) pg (w\<lparr>sent := sent w @ h @ pg\<rparr>)) \<and>
    parse_response (h @ pg @ rest) = Some (200, pg, rest)"
  using assms by (rule write_dir_ok)

definition dir_connection :: connection_t where
  "dir_connection = small_connection\<lparr>strfile := ''/srv/d/'' @ [NUL], strfile_len := 7, strfile_stat := stat_of a_dir\<rparr>"

definition a_date :: "int \<Rightarrow> string" where
  "a_date t = show_int t"

lemma small_fs_ok: "fs_ok (fs small_world)"
  by (simp add: fs_ok_def small_setup dir_at_def proper_def)

lemma small_listing_length: "length (listing a_date (fs small_world) [''srv'', ''d''] True) \<le> 5000"
proof -
  have "length (rows a_date (fs small_world) [''srv'', ''d''] 0
      (sort (''.'' # ''..'' # children (fs small_world) [''srv'', ''d'']))) \<le> 1000"
    by code_simp
  moreover have "length parent_row \<le> 200" by code_simp
  ultimately show ?thesis using table_head_length html_lengths(2) by (simp add: listing_def)
qed

theorem listing_is_sent_witness:
  "\<exists>h. write_dir (\<lambda>_. ''text/html'') a_date small_conf None (stat_of a_dir)
        (replicate 768 NUL, replicate 768 NUL) ''/srv'' dir_connection small_world =
      Some (0, dir_connection\<lparr>status_code := 200\<rparr>,
        cache_store_item None 0 (dir_connection\<lparr>status_code := 200\<rparr>)
          (listing a_date (fs small_world) [''srv'', ''d''] True)
          (small_world\<lparr>sent := sent small_world @ h @ listing a_date (fs small_world) [''srv'', ''d''] True\<rparr>)) \<and>
    parse_response (h @ listing a_date (fs small_world) [''srv'', ''d''] True @ []) =
      Some (200, listing a_date (fs small_world) [''srv'', ''d''] True, [])"
proof (rule listing_is_sent [where dir = "''/srv/d/''" and p = "[''srv'', ''d'']"])
  show "cstr (strfile dir_connection) 0 = Some ''/srv/d/''" by code_simp
  show "names_path ''/srv/d/'' [''srv'', ''d'']" by code_simp
  show "dir_at (fs small_world) [''srv'', ''d'']" by code_simp
  show "listable ''/srv/d/'' (children (fs small_world) [''srv'', ''d''])" by code_simp
  show "get_param_value (buf dir_connection) (http_param dir_connection) ''If-None-Match'' RBUFFER 13 = Some None"
    by code_simp
  show "length (listing a_date (fs small_world) [''srv'', ''d''] True) + 1 < MAXSCRIPTOUT"
    using small_listing_length by (simp add: buffer_sizes)
  show "listing a_date (fs small_world) [''srv'', ''d''] True =
      listing a_date (fs small_world) [''srv'', ''d''] (\<not> at_top dir_connection ''/srv'')"
    by (simp add: at_top_def dir_connection_def)
qed (simp_all add: small_fs_ok buffer_sizes dir_connection_def small_connection_def)

text \<open>
  A directory that cannot be read: \<open>list_dir\<close> returns \<open>-1\<close>, the unsigned \<open>pagelen\<close> is
  not negative, and the write runs past the allocated page instead of answering 404.
\<close>

lemma unreadable_directory_overruns:
  assumes f: "faults w = [None, Some EACCES]"
    and "cstr (strfile c) 0 = Some dir"
    and "get_param_value (buf c) (http_param c) ''If-None-Match'' RBUFFER 13 = Some None"
  shows "write_dir magic date conf None stk blocks bd c w = None"
proof -
  let ?w1 = "w\<lparr>faults := [Some EACCES]\<rparr>" and ?w2 = "w\<lparr>faults := []\<rparr>"
  have 1: "malloc w = (True, ?w1)" "malloc ?w2 = (True, ?w2)" using f by (simp_all add: malloc_def next_fault_def)
  have "sys_scandir dir ?w1 = (Inl EACCES, ?w2)"
    by (simp add: sys_scandir_def sys_opendir_def on_path_def next_fault_def)
  then have 2: "list_dir date stk blocks c MAXSCRIPTOUT parent ?w1 = Some (-1, [], ?w2)" for parent
    using assms(2) 1 by (simp add: list_dir_def)
  have 3: "read_image [] (unat (-1 :: 64 word)) = None"
    by (simp add: read_image_def unat_eq_zero)
  have 4: "Option.bind x (\<lambda>(a, b, d). None) = None" for x :: "('a \<times> 'b \<times> 'c) option"
    by (cases x) auto
  have "check_etag c w = Some (1, c, w)" using assms(3) by (simp add: check_etag_def)
  then show ?thesis
    using 1 2 by (simp add: write_dir_def cache_send_item_def cache_get_item_fd_def Let_def 3 4)
qed


end
