(* ===== verification/Webdav.thy ===== *)
theory Webdav
  imports DirList Auth
begin

section \<open>webdav.c: PROPFIND, MKCOL, COPY and MOVE\<close>

text \<open>
  The WebDAV methods. Uninitialised arrays and blocks are arguments, so that what the code
  does with them shows; \<open>tail\<close> are the bytes that follow the block with the body of the
  request, which is not terminated. The XML answer is written piece by piece to the
  client, or to a file of the cache that is then copied to the client.
\<close>

subsection \<open>Escaping\<close>

text \<open>
  \<open>sprintf(dest, "%%%02x", source[i])\<close>: the character is signed, so that a byte above 127
  prints eight digits, of which the code keeps the first two.
\<close>

definition plain_uri_char :: "char \<Rightarrow> bool" where
  "plain_uri_char c \<longleftrightarrow> (let n = schar c in
     65 \<le> n \<and> n \<le> 90 \<or> 97 \<le> n \<and> n \<le> 122 \<or> 45 \<le> n \<and> n \<le> 57)"

definition hex_of_char :: "char \<Rightarrow> string" where
  "hex_of_char c = show_02x (nat (schar c mod 4294967296))"

fun escape_uri_loop :: "cmem \<Rightarrow> nat \<Rightarrow> int \<Rightarrow> string \<Rightarrow> cmem option" where
  "escape_uri_loop m dest dest_size [] = Some m"
| "escape_uri_loop m dest dest_size (c # source) =
     (if dest_size < 4 then Some m
      else if plain_uri_char c then do {
        m' \<leftarrow> c_write m dest [c, NUL];
        escape_uri_loop m' (dest + 1) (dest_size - 1) source
      }
      else do {
        m' \<leftarrow> c_write m dest (CHR ''%'' # hex_of_char c @ [NUL]);
        escape_uri_loop m' (dest + 3) (dest_size - 3) source
      })"

definition escape_uri :: "string \<Rightarrow> cmem \<Rightarrow> int \<Rightarrow> cmem option" where
  "escape_uri source dest dest_size = escape_uri_loop dest 0 dest_size source"

subsection \<open>The requested properties\<close>

definition MAXPROPCOUNT :: nat where "MAXPROPCOUNT = 40"

record dav_details =
  getetag :: bool
  getcontentlength :: bool
  resourcetype :: bool
  getlastmodified :: bool
  getcontenttype :: bool
  deep :: bool

text \<open>The union with an integer; the two bits of the field \<open>type\<close> hold 1.\<close>

definition int_version :: "dav_details \<Rightarrow> nat" where
  "int_version d = of_bool (getetag d) + 2 * of_bool (getcontentlength d) + 4 * of_bool (resourcetype d) +
     8 * of_bool (getlastmodified d) + 16 * of_bool (getcontenttype d) + 32 * of_bool (deep d) + 64"

text \<open>\<open>strstr\<close> for the first of several texts that occurs.\<close>

fun strstr_any :: "cmem \<Rightarrow> nat \<Rightarrow> string list \<Rightarrow> nat option option" where
  "strstr_any m p [] = Some None"
| "strstr_any m p (pat # pats) = do {
     r \<leftarrow> c_strstr m p pat;
     case r of Some q \<Rightarrow> Some (Some q) | None \<Rightarrow> strstr_any m p pats
   }"

text \<open>The list of the properties, split in place; \<open>ps\<close> are the pointers stored so far.\<close>

function split_props :: "cmem \<Rightarrow> nat \<Rightarrow> nat list \<Rightarrow> (int + cmem \<times> nat list) option" where
  "split_props m dat ps =
     (case c_strstr m dat ''<'' of
        None \<Rightarrow> None
      | Some None \<Rightarrow> Some (Inr (m, ps))
      | Some (Some q) \<Rightarrow>
          if length ps = MAXPROPCOUNT - 1 then Some (Inr (m, ps))
          else (case c_strstr m (Suc q) ''/>'' of
                  None \<Rightarrow> None
                | Some None \<Rightarrow> Some (Inl ERR_NODATA)
                | Some (Some t) \<Rightarrow>
                    (case c_strstr (m[t := NUL]) (Suc q) '' '' of
                       None \<Rightarrow> None
                     | Some None \<Rightarrow> split_props (m[t := NUL]) (Suc t) (ps @ [Suc q])
                     | Some (Some b) \<Rightarrow> split_props ((m[t := NUL])[b := NUL]) (Suc t) (ps @ [Suc q]))))"
  by pat_completeness auto
termination
  by (relation "measure (\<lambda>(m, dat, _). length m - dat)") (auto dest!: c_strstr_bounds)

declare split_props.simps [simp del]

definition set_prop :: "string \<Rightarrow> dav_details \<Rightarrow> dav_details" where
  "set_prop s d =
     (if find_sub ''getetag'' s \<noteq> None then d\<lparr>getetag := True\<rparr>
      else if find_sub ''getcontentlength'' s \<noteq> None then d\<lparr>getcontentlength := True\<rparr>
      else if find_sub ''resourcetype'' s \<noteq> None then d\<lparr>resourcetype := True\<rparr>
      else if find_sub ''getlastmodified'' s \<noteq> None then d\<lparr>getlastmodified := True\<rparr>
      else if find_sub ''getcontenttype'' s \<noteq> None then d\<lparr>getcontenttype := True\<rparr>
      else d)"

fun set_props :: "cmem \<Rightarrow> nat list \<Rightarrow> dav_details \<Rightarrow> dav_details option" where
  "set_props m [] d = Some d"
| "set_props m (p # ps) d = do { s \<leftarrow> cstr m p; set_props m ps (set_prop s d) }"

definition get_props :: "string \<Rightarrow> connection_t \<Rightarrow> string_t \<Rightarrow> dav_details \<Rightarrow> (int \<times> dav_details) option" where
  "get_props tail c post_param props = do {
     r \<leftarrow> get_param_value (buf c) (http_param c) ''Depth'' 4 5;
     let d = (case r of None \<Rightarrow> props | Some a \<Rightarrow> props\<lparr>deep := take 1 a = ''1''\<rparr>);
     if len post_param = 0 then
       Some (0, d\<lparr>getetag := True, getcontentlength := True, resourcetype := True, getlastmodified := True\<rparr>)
     else do {
       block \<leftarrow> data post_param;
       let m = block @ tail;
       r1 \<leftarrow> strstr_any m 0 [''<D:prop '', ''<D:prop>'', ''<prop '', ''<prop>''];
       case r1 of
         None \<Rightarrow> Some (ERR_NODATA, d)
       | Some q \<Rightarrow> do {
           r2 \<leftarrow> strstr_any m (q + 6) [''</D:prop>'', ''</prop>''];
           case r2 of
             None \<Rightarrow> Some (ERR_NODATA, d)
           | Some e \<Rightarrow> do {
               r3 \<leftarrow> split_props (m[e := NUL]) (q + 6) [];
               case r3 of
                 Inl err \<Rightarrow> Some (err, d)
               | Inr (m', ps) \<Rightarrow> do { d' \<leftarrow> set_props m' ps d; Some (0, d') }
             }
         }
     }
   }"

subsection \<open>PROPFIND\<close>

definition tag :: "string \<Rightarrow> string \<Rightarrow> string" where
  "tag name content = ''<D:'' @ name @ ''>'' @ content @ ''</D:'' @ name @ ''>''"

text \<open>The pieces of one \<open>D:response\<close> element, in the order of the calls of \<open>snprintf\<close>.\<close>

definition prop_pieces :: "(int \<Rightarrow> string) \<Rightarrow> string \<Rightarrow> string \<Rightarrow> dav_details \<Rightarrow> bool \<Rightarrow> stat \<Rightarrow> string option \<Rightarrow>
    string list" where
  "prop_pieces date esc_page esc_name props parent st mime =
     [''<D:response>'' @ [LF],
      tag ''href'' (if parent then esc_name else esc_page @ esc_name),
      ''<D:propstat><D:prop>''] @
     (if getetag props then [tag ''getetag'' (show_int (st_mtime st)) @ [LF]] else []) @
     (if getcontentlength props then [tag ''getcontentlength'' (show_int (st_size st)) @ [LF]] else []) @
     (if resourcetype props
      then [tag ''resourcetype'' (if S_ISDIR (st_mode st) then ''<D:collection/>'' else '' '') @ [LF]] else []) @
     (if getlastmodified props then [tag ''getlastmodified'' (date (st_mtime st)) @ [LF]] else []) @
     (case mime of None \<Rightarrow> [] | Some t \<Rightarrow> [tag ''getcontenttype'' t @ [LF]]) @
     [''</D:prop><D:status>HTTP/1.1 200 OK</D:status></D:propstat></D:response>'']"

fun put_texts :: "string \<times> int \<Rightarrow> string list \<Rightarrow> (string \<times> int) option" where
  "put_texts st [] = Some st"
| "put_texts st (s # ss) = do { st1 \<leftarrow> put_text st s; put_texts st1 ss }"

text \<open>
  \<open>stk\<close> are the two arrays for the escaped names. The result of \<open>malloc\<close> is not
  tested: without memory the first \<open>snprintf\<close> writes through a null pointer.
\<close>

definition printprops :: "(string \<Rightarrow> string) \<Rightarrow> (int \<Rightarrow> string) \<Rightarrow> cmem \<times> cmem \<Rightarrow> fd_t \<Rightarrow> string \<Rightarrow> dav_details \<Rightarrow>
    string \<Rightarrow> string \<Rightarrow> bool \<Rightarrow> world \<Rightarrow> world option" where
  "printprops magic date stk sock pg props file filename parent w =
     (case sys_open_read file w of
        (Inl _, w1) \<Rightarrow> Some w1
      | (Inr file_fd, w1) \<Rightarrow> do {
          stat_s \<leftarrow> sys_fstat file_fd w1;
          m1 \<leftarrow> escape_uri filename (fst stk) (int URI_LEN);
          m2 \<leftarrow> escape_uri pg (snd stk) (int URI_LEN);
          esc_name \<leftarrow> cstr m1 0;
          esc_page \<leftarrow> cstr m2 0;
          case malloc w1 of
            (ok, w2) \<Rightarrow>
              if \<not> ok then None
              else do {
                (mime, w3) \<leftarrow> (if getcontenttype props
                               then do { (t, w3) \<leftarrow> mime_get_fd magic file_fd stat_s w2; Some (Some t, w3) }
                               else Some (None, w2));
                (xml, left) \<leftarrow> put_texts ([], int MAXSCRIPTOUT - 1)
                  (prop_pieces date esc_page esc_name props parent stat_s mime);
                bytes \<leftarrow> read_image xml (nat (int MAXSCRIPTOUT - 1 - left));
                Some (sys_close file_fd (snd (myio_write sock bytes w3)))
              }
        })"

text \<open>The entries of a directory; \<open>HIDE_HIDDEN_FILES\<close> is defined.\<close>

fun printprops_entries :: "(string \<Rightarrow> string) \<Rightarrow> (int \<Rightarrow> string) \<Rightarrow> cmem \<times> cmem \<Rightarrow> fd_t \<Rightarrow> string \<Rightarrow> dav_details \<Rightarrow>
    string \<Rightarrow> string list \<Rightarrow> world \<Rightarrow> world option" where
  "printprops_entries magic date stk sock pg props dir [] w = Some w"
| "printprops_entries magic date stk sock pg props dir (e # es) w =
     (if take 1 e = ''.'' then printprops_entries magic date stk sock pg props dir es w
      else do {
        w1 \<leftarrow> printprops magic date stk sock pg props (take (URI_LEN - 1) (dir @ e)) e False w;
        printprops_entries magic date stk sock pg props dir es w1
      })"

definition XML_START :: string where
  "XML_START = ''<?xml version='' @ QUOTE @ ''1.0'' @ QUOTE @ '' encoding='' @ QUOTE @ ''utf-8'' @ QUOTE @
     '' ?><D:multistatus xmlns:D='' @ QUOTE @ ''DAV:'' @ QUOTE @ ''>''"

definition XML_END :: string where "XML_END = ''</D:multistatus>''"

text \<open>
  The part of \<open>propfind\<close> that generates the XML. Without access to the directory the
  elements are left open and both descriptors are closed; nothing more is sent to the
  client then, because the connection is not kept alive.
\<close>

definition send_xml :: "(string \<Rightarrow> string) \<Rightarrow> (int \<Rightarrow> string) \<Rightarrow> cmem \<times> cmem \<Rightarrow> fd_t \<Rightarrow> dav_details \<Rightarrow> string \<Rightarrow> string \<Rightarrow>
    world \<Rightarrow> (bool \<times> world) option" where
  "send_xml magic date stk dest_fd props pg file w = do {
     let w1 = snd (myio_write dest_fd XML_START w);
     w2 \<leftarrow> printprops magic date stk dest_fd pg props file pg True w1;
     if deep props then
       (case sys_opendir file w2 of
          (Inl _, w3) \<Rightarrow> Some (False, case dest_fd of Client \<Rightarrow> w3 | Fd d \<Rightarrow> sys_close d w3)
        | (Inr names, w3) \<Rightarrow> do {
            w4 \<leftarrow> printprops_entries magic date stk dest_fd pg props file names w3;
            Some (True, snd (myio_write dest_fd XML_END w4))
          })
     else Some (True, snd (myio_write dest_fd XML_END w2))
   }"

definition no_props :: dav_details where
  "no_props = \<lparr>getetag = False, getcontentlength = False, resourcetype = False, getlastmodified = False,
     getcontenttype = False, deep = False\<rparr>"

text \<open>\<open>snprintf(head, URI_LEN + 12, "Location: %s/\r\n", page)\<close>.\<close>

definition location_line :: "string \<Rightarrow> string" where
  "location_line target = take (URI_LEN + 11) (''Location: '' @ target @ CRLF)"

definition propfind :: "(string \<Rightarrow> string) \<Rightarrow> (int \<Rightarrow> string) \<Rightarrow> weborf_configuration_t \<Rightarrow> string option \<Rightarrow>
    cmem \<times> cmem \<Rightarrow> string \<Rightarrow> connection_t \<Rightarrow> string_t \<Rightarrow> world \<Rightarrow> (int \<times> connection_t \<times> world) option" where
  "propfind magic date conf cachedir stk tail c post_param w =
     (if authsock conf = None then Some (ERR_FORBIDDEN, c, w)
      else do {
        file \<leftarrow> cstr (strfile c) 0;
        pg \<leftarrow> cstr (buf c) (page c);
        case sys_stat file w of
          (Inl _, w1) \<Rightarrow> Some (ERR_FILENOTFOUND, c, w1)
        | (Inr st, w1) \<Rightarrow> do {
            let c1 = c\<lparr>strfile_stat := st\<rparr>;
            slash \<leftarrow> (if S_ISDIR (st_mode st) then endsWith (strfile c1) 0 ''/'' (strfile_len c1) 1 else Some True);
            if \<not> slash then do {
              (_, c2, w2) \<leftarrow> send_http_header 301 None (Some (location_line (pg @ ''/''))) True (-1) c1 w1;
              Some (0, c2, w2)
            }
            else do {
              (retval, props) \<leftarrow> get_props tail c1 post_param no_props;
              if retval \<noteq> 0 then Some (retval, c1, w1)
              else do {
                (_, c2, w2) \<leftarrow> send_http_header 207 None
                  (Some (''Content-Type: text/xml; charset='' @ QUOTE @ ''utf-8'' @ QUOTE @ CRLF)) False (-1)
                  (c1\<lparr>keep_alive := False\<rparr>) w1;
                let has_cache = cache_is_enabled cachedir;
                let (cache_fd, w3) = cache_get_item_fd cachedir (int_version props) c2 w2;
                if has_cache \<and> cache_fd \<noteq> -1 then do {
                  sb \<leftarrow> sys_fstat cache_fd w3;
                  Some (0, c2, sys_close cache_fd (snd (fd_copy cache_fd Client (st_size sb) w3)))
                }
                else do {
                  let (cache_fd, w4) = cache_get_item_fd_wr cachedir (int_version props) c2 w3;
                  let dest_fd = (if cache_fd \<noteq> -1 then Fd cache_fd else Client);
                  (done, w5) \<leftarrow> send_xml magic date stk dest_fd props pg file w4;
                  case dest_fd of
                    Client \<Rightarrow> Some (0, c2, w5)
                  | Fd d \<Rightarrow>
                      if \<not> done then Some (0, c2, w5)
                      else do {
                        prev_pos \<leftarrow> fd_pos d w5;
                        Some (0, c2, sys_close d (snd (fd_copy d Client (int prev_pos) (sys_lseek d 0 w5))))
                      }
                }
              }
            }
          }
      })"

subsection \<open>MKCOL\<close>

definition mkcol_error :: "errno \<Rightarrow> int" where
  "mkcol_error e =
     (case e of
        EACCES \<Rightarrow> ERR_FORBIDDEN | EFAULT \<Rightarrow> ERR_FORBIDDEN | ELOOP \<Rightarrow> ERR_FORBIDDEN | ENAMETOOLONG \<Rightarrow> ERR_FORBIDDEN
      | ENOMEM \<Rightarrow> ERR_SERVICE_UNAVAILABLE
      | ENOENT \<Rightarrow> ERR_CONFLICT
      | EEXIST \<Rightarrow> ERR_NOT_ALLOWED | ENOTDIR \<Rightarrow> ERR_NOT_ALLOWED
      | ENOSPC \<Rightarrow> ERR_INSUFFICIENT_STORAGE | EROFS \<Rightarrow> ERR_INSUFFICIENT_STORAGE | EPERM \<Rightarrow> ERR_INSUFFICIENT_STORAGE
      | _ \<Rightarrow> ERR_SERVICE_UNAVAILABLE)"

definition mkcol :: "weborf_configuration_t \<Rightarrow> connection_t \<Rightarrow> world \<Rightarrow> (int \<times> world) option" where
  "mkcol conf c w =
     (if authsock conf = None then Some (ERR_FORBIDDEN, w)
      else do {
        file \<leftarrow> cstr (strfile c) 0;
        case sys_mkdir file w of
          (Inr _, w1) \<Rightarrow> Some (OK_CREATED, w1)
        | (Inl e, w1) \<Rightarrow> Some (mkcol_error e, w1)
      })"

subsection \<open>COPY and MOVE\<close>

text \<open>
  \<open>stk\<close> are the texts that the uninitialised block holds at \<open>host\<close> and at \<open>dest\<close>, \<open>st0\<close> the
  uninitialised \<open>f_prop\<close>. The fuel \<open>k\<close> bounds the depth of the directories.
\<close>

definition copy_move :: "nat \<Rightarrow> string \<times> string \<Rightarrow> stat \<Rightarrow> connection_t \<Rightarrow> world \<Rightarrow> (int \<times> world) option" where
  "copy_move k stk st0 c w =
     (case malloc w of
        (ok, w0) \<Rightarrow>
          if \<not> ok then Some (ERR_NOMEM, w0)
          else do {
            host_b \<leftarrow> get_param_value (buf c) (http_param c) ''Host'' PATH_LEN 4;
            dest_b \<leftarrow> get_param_value (buf c) (http_param c) ''Destination'' PATH_LEN 11;
            overwrite_b \<leftarrow> get_param_value (buf c) (http_param c) ''Overwrite'' PATH_LEN 9;
            if host_b \<noteq> None \<and> dest_b = None then Some (ERR_NOTHTTP, w0)
            else if overwrite_b \<noteq> None \<and> overwrite_b \<noteq> Some ''T'' \<and> overwrite_b \<noteq> Some ''F''
              then Some (ERR_NOTHTTP, w0)
            else do {
              let check_exists = (overwrite_b \<noteq> None \<and> overwrite_b \<noteq> Some ''F'');
              let host = (case host_b of None \<Rightarrow> fst stk | Some s \<Rightarrow> s);
              let dest = (case dest_b of None \<Rightarrow> snd stk | Some s \<Rightarrow> s);
              let dest1 = (if take 1 dest \<noteq> ''/''
                           then map_option (\<lambda>i. drop (i + length host) dest) (find_sub host dest)
                           else Some dest);
              file \<leftarrow> cstr (strfile c) 0;
              case dest1 of
                None \<Rightarrow> Some (ERR_NOTHTTP, w0)
              | Some d \<Rightarrow>
                  (let destination = take (PATH_LEN - 1) (basedir c @ d) in
                   if file = destination then Some (ERR_FORBIDDEN, w0)
                   else (case file_exists destination w0 of
                           (exists, w1) \<Rightarrow>
                             if check_exists \<and> exists then Some (ERR_PRECONDITION_FAILED, w1)
                             else (case sys_stat file w1 of
                                     (r, w2) \<Rightarrow> do {
                                       let md = st_mode (case r of Inl _ \<Rightarrow> st0 | Inr st \<Rightarrow> st);
                                       (retval, w3) \<leftarrow>
                                         (if S_ISDIR md
                                          then (if method_id c = COPY then dir_copy k file destination w2
                                                else dir_move k file destination w2)
                                          else (if method_id c = COPY then file_copy file destination w2
                                                else file_move file destination w2));
                                       Some (if retval = 0 then (if exists then OK_NOCONTENT else OK_CREATED)
                                             else retval, w3)
                                     })))
            }
          })"

subsection \<open>Lemmas: escaping\<close>

text \<open>What \<open>escape_uri\<close> means to write, and does for names in ASCII that fit.\<close>

definition dav_code :: "char \<Rightarrow> string" where
  "dav_code c = (if plain_uri_char c then [c] else CHR ''%'' # show_02x (of_char c))"

definition dav_escaped :: "string \<Rightarrow> string" where
  "dav_escaped s = concat (map dav_code s)"

definition ascii :: "string \<Rightarrow> bool" where
  "ascii s \<longleftrightarrow> list_all (\<lambda>c. 1 \<le> schar c) s"

lemma hex_digit:
  assumes "d < 16"
  shows "digit_val (digit_char d) = Some d" and "is_digit_in 16 (digit_char d)" and "\<not> c_isspace (digit_char d)"
    and "digit_char d \<noteq> CHR ''-''" and "digit_char d \<noteq> CHR ''+''" and "digit_char d \<noteq> NUL"
proof -
  have n: "(of_char (digit_char d) :: nat) = (if d < 10 then 48 + d else 87 + d)"
    using assms by (simp add: digit_char_def)
  then have neq: "digit_char d \<noteq> c" if "(of_char c :: nat) < 48" for c
    using that by (auto split: if_splits)
  show v: "digit_val (digit_char d) = Some d" using assms by (auto simp: digit_val_def n)
  then show "is_digit_in 16 (digit_char d)" using assms by (simp add: is_digit_in_def)
  show "\<not> c_isspace (digit_char d)" by (simp add: c_isspace_def neq)
  show "digit_char d \<noteq> CHR ''-''" "digit_char d \<noteq> CHR ''+''" "digit_char d \<noteq> NUL"
    by (simp_all add: neq)
qed

lemma show_02x_digits: "n < 256 \<Longrightarrow> show_02x n = [digit_char (n div 16), digit_char (n mod 16)]"
proof (cases "n < 16")
  case True
  then have "show_base 16 n = [digit_char n]" by (subst show_base.simps) simp
  moreover have "digit_char 0 = CHR ''0''" by code_simp
  ultimately show ?thesis using True by (simp add: show_02x_def)
next
  case False
  assume "n < 256"
  then have "show_base 16 (n div 16) = [digit_char (n div 16)]" by (subst show_base.simps) simp
  moreover have "show_base 16 n = show_base 16 (n div 16) @ [digit_char (n mod 16)]"
    using False by (subst show_base.simps) simp
  ultimately show ?thesis by (simp add: show_02x_def)
qed

lemma escape_hex:
  assumes "n < 256"
  shows "escape_char (digit_char (n div 16)) (digit_char (n mod 16)) = char_of n"
proof -
  let ?a = "digit_char (n div 16)" and ?b = "digit_char (n mod 16)"
  have "n div 16 < 16" using assms by auto
  note a = hex_digit [OF this] and b = hex_digit [of "n mod 16"]
  have "digits_value 16 [?a, ?b] = n" using a(1) b(1) by (simp add: digits_value_def)
  then have "c_strtol 16 [?a, ?b] = int n"
    using assms a b by (simp add: c_strtol_def Let_def strtol_base_def LONG_MAX_def LONG_MIN_def)
  then show ?thesis using a(6) b(6) assms
    by (simp add: escape_char_def to_char_def)
qed

lemma schar_ascii:
  assumes "1 \<le> schar c"
  shows "schar c = int (of_char c) \<and> (of_char c :: nat) < 128 \<and> c \<noteq> NUL"
proof -
  define n where "n = (of_char c :: nat)"
  have "n < 256" unfolding n_def by (metis of_char_of char_of_char mod_less_divisor zero_less_numeral)
  moreover have s: "schar c = (if int n < 128 then int n else int n - 256)" unfolding schar_def Let_def n_def ..
  ultimately have "n < 128" and "schar c = int n" and "n \<noteq> 0" using assms by (auto split: if_splits)
  then show ?thesis unfolding n_def by auto
qed

lemma dav_code_ok:
  assumes "1 \<le> schar c" and "\<not> plain_uri_char c"
  obtains a b where "dav_code c = [CHR ''%'', a, b]" and "hex_of_char c = [a, b]" and "escape_char a b = c"
    and "a \<noteq> NUL" and "b \<noteq> NUL"
proof -
  let ?n = "of_char c :: nat"
  have n: "schar c = int ?n" "?n < 128" using schar_ascii [OF assms(1)] by auto
  then have x: "show_02x ?n = [digit_char (?n div 16), digit_char (?n mod 16)]" by (intro show_02x_digits) simp
  have "nat (schar c mod 4294967296) = ?n" using n by simp
  then have "hex_of_char c = show_02x ?n" by (simp add: hex_of_char_def)
  moreover have "escape_char (digit_char (?n div 16)) (digit_char (?n mod 16)) = c"
    using escape_hex [of ?n] n(2) by simp
  moreover have "?n div 16 < 16" using n(2) by auto
  ultimately show thesis
    using x hex_digit(6) [of "?n div 16"] hex_digit(6) [of "?n mod 16"] assms(2)
    by (intro that [of "digit_char (?n div 16)" "digit_char (?n mod 16)"]) (simp_all add: dav_code_def)
qed

lemma dav_code_cases:
  assumes "1 \<le> schar c"
  shows "1 \<le> length (dav_code c) \<and> length (dav_code c) \<le> 3 \<and> NUL \<notin> set (dav_code c)"
proof (cases "plain_uri_char c")
  case True
  then show ?thesis using schar_ascii [OF assms] by (auto simp: dav_code_def)
next
  case False
  then obtain a b where "dav_code c = [CHR ''%'', a, b]" "a \<noteq> NUL" "b \<noteq> NUL" using dav_code_ok [OF assms] by metis
  then show ?thesis by auto
qed

lemma dav_escaped_Cons: "dav_escaped (c # s) = dav_code c @ dav_escaped s"
  by (simp add: dav_escaped_def)

lemma dav_escaped_length: "ascii s \<Longrightarrow> length (dav_escaped s) \<le> 3 * length s"
proof (induction s)
  case (Cons c s)
  then show ?case using dav_code_cases [of c] by (simp add: dav_escaped_Cons ascii_def)
qed (simp add: dav_escaped_def)

lemma dav_escaped_no_NUL: "ascii s \<Longrightarrow> NUL \<notin> set (dav_escaped s)"
proof (induction s)
  case (Cons c s)
  then show ?case using dav_code_cases [of c] by (simp add: dav_escaped_Cons ascii_def)
qed (simp add: dav_escaped_def)

lemma dav_decoded: "ascii s \<Longrightarrow> url_decode (dav_escaped s) = s"
proof (induction s)
  case (Cons c s)
  then have c: "1 \<le> schar c" by (simp add: ascii_def)
  show ?case
  proof (cases "plain_uri_char c")
    case True
    then have "c \<noteq> CHR ''%''" by (auto simp: plain_uri_char_def schar_def)
    with True Cons show ?thesis by (simp add: dav_escaped_Cons dav_code_def ascii_def)
  next
    case False
    obtain a b where "dav_code c = [CHR ''%'', a, b]" "escape_char a b = c" using dav_code_ok [OF c False] by metis
    with Cons show ?thesis by (simp add: dav_escaped_Cons ascii_def)
  qed
qed (simp add: dav_escaped_def)

lemma escape_uri_loop_ok:
  assumes "ascii s" and "length w + length (dav_escaped s) + 4 \<le> sz" and "length (w @ x # old) = sz"
    and "s \<noteq> [] \<or> x = NUL"
  shows "\<exists>post. escape_uri_loop (w @ x # old) (length w) (int sz - int (length w)) s =
      Some (w @ dav_escaped s @ NUL # post)"
  using assms
proof (induction s arbitrary: w x old)
  case Nil
  then show ?case by (auto simp: dav_escaped_def)
next
  case (Cons c s)
  have c: "1 \<le> schar c" using Cons.prems(1) by (simp add: ascii_def)
  let ?t = "dav_code c"
  have len: "length (take (length ?t + 1) (x # old)) = length (?t @ [NUL])"
    using Cons.prems dav_code_cases [OF c] by (simp add: dav_escaped_Cons)
  let ?old' = "drop (length ?t + 1) (x # old)"
  have wr: "c_write (w @ x # old) (length w) (?t @ [NUL]) = Some ((w @ ?t) @ NUL # ?old')"
    using c_write_append [OF len, of w ?old'] by (simp only: append_take_drop_id append_assoc append_Cons append_Nil)
  have sz: "\<not> int sz - int (length w) < 4" using Cons.prems(2) by simp
  have eq: "int sz - int (length w) - int (length ?t) = int sz - int (length (w @ ?t))" by simp
  have step: "escape_uri_loop (w @ x # old) (length w) (int sz - int (length w)) (c # s) =
      escape_uri_loop ((w @ ?t) @ NUL # ?old') (length (w @ ?t)) (int sz - int (length (w @ ?t))) s"
  proof (cases "plain_uri_char c")
    case True
    then have "?t = [c]" by (simp add: dav_code_def)
    with True wr sz eq show ?thesis by (simp add: algebra_simps)
  next
    case False
    obtain a b where ab: "?t = [CHR ''%'', a, b]" "hex_of_char c = [a, b]" using dav_code_ok [OF c False] by metis
    with False wr sz eq show ?thesis by (simp add: algebra_simps eval_nat_numeral)
  qed
  have "\<exists>post. escape_uri_loop ((w @ ?t) @ NUL # ?old') (length (w @ ?t)) (int sz - int (length (w @ ?t))) s =
      Some ((w @ ?t) @ dav_escaped s @ NUL # post)"
    using Cons.prems len by (intro Cons.IH) (auto simp: dav_escaped_Cons ascii_def)
  then show ?case unfolding step by (simp add: dav_escaped_Cons)
qed

lemma escape_uri_ok:
  assumes "ascii s" and "s \<noteq> []" and "length s \<le> 84" and "length m = URI_LEN"
  shows "\<exists>m'. escape_uri s m (int URI_LEN) = Some m' \<and> cstr m' 0 = Some (dav_escaped s)"
proof -
  obtain x old where m: "m = x # old" using assms(4) by (cases m) (auto simp: buffer_sizes)
  have "length (dav_escaped s) + 4 \<le> URI_LEN" using dav_escaped_length [OF assms(1)] assms(3) by (simp add: buffer_sizes)
  then obtain post where "escape_uri s m (int URI_LEN) = Some (dav_escaped s @ NUL # post)"
    using escape_uri_loop_ok [OF assms(1), of "[]" URI_LEN x old] assms(2,4) m by (auto simp: escape_uri_def)
  then show ?thesis using cstr_append [OF dav_escaped_no_NUL [OF assms(1)], of "[]" post] by simp
qed


subsection \<open>Lemmas: PROPFIND\<close>

lemma put_texts_ok:
  "int (length (out @ concat ss)) < B \<Longrightarrow>
   put_texts (out, B - int (length out)) ss = Some (out @ concat ss, B - int (length (out @ concat ss)))"
proof (induction ss arbitrary: out)
  case (Cons s ss)
  have "put_text (out, B - int (length out)) s = Some (out @ s, B - int (length (out @ s)))"
    using Cons.prems by (subst put_text_fits) auto
  then show ?case using Cons.IH [of "out @ s"] Cons.prems by simp
qed simp

definition response :: "(int \<Rightarrow> string) \<Rightarrow> dav_details \<Rightarrow> string \<Rightarrow> string \<Rightarrow> bool \<Rightarrow> stat \<Rightarrow> string" where
  "response date props pg name parent st =
     concat (prop_pieces date (dav_escaped pg) (dav_escaped name) props parent st None)"

definition short_name :: "string \<Rightarrow> bool" where
  "short_name s \<longleftrightarrow> ascii s \<and> s \<noteq> [] \<and> length s \<le> 84"

definition small_file :: "(int \<Rightarrow> string) \<Rightarrow> stat \<Rightarrow> bool" where
  "small_file date st \<longleftrightarrow> length (date (st_mtime st)) \<le> 100 \<and> \<bar>st_mtime st\<bar> < 10 ^ 20 \<and> \<bar>st_size st\<bar> < 10 ^ 20"

lemma response_length:
  assumes "short_name pg" and "short_name name" and "small_file date st"
  shows "length (response date props pg name parent st) \<le> 2000"
proof -
  have "length (dav_escaped pg) \<le> 252" "length (dav_escaped name) \<le> 252"
    using assms(1,2) dav_escaped_length [of pg] dav_escaped_length [of name] by (auto simp: short_name_def)
  moreover have "length (show_int (st_mtime st)) \<le> 21" "length (show_int (st_size st)) \<le> 21"
    using assms(3) show_int_length [of _ 20] by (auto simp: small_file_def)
  moreover have "length (date (st_mtime st)) \<le> 100" using assms(3) by (simp add: small_file_def)
  ultimately show ?thesis by (simp add: response_def prop_pieces_def tag_def)
qed

lemma printprops_ok:
  assumes w: "healthy w" and f: "resolve (fs w) (cwd w) file = Inr q" "lookup (fs w) q = Some i"
    and n: "short_name pg" "short_name name" "small_file date (stat_of i)" "\<not> getcontenttype props"
    and stk: "length (fst stk) = URI_LEN" "length (snd stk) = URI_LEN"
  shows "printprops magic date stk Client pg props file name parent w =
    Some (w\<lparr>sent := sent w @ response date props pg name parent (stat_of i)\<rparr>)"
proof -
  let ?d = "new_fd w"
  let ?w1 = "w\<lparr>fds := (?d, \<lparr>o_path = q, o_pos = 0\<rparr>) # fds w\<rparr>"
  let ?r = "response date props pg name parent (stat_of i)"
  have op: "sys_open_read file w = (Inr ?d, ?w1)"
    using w f by (simp add: sys_open_read_def on_path_def healthy_simps add_fd_def)
  have st: "sys_fstat ?d ?w1 = Some (stat_of i)" using f(2) by (simp add: sys_fstat_def fd_inode_def)
  obtain m1 m2 where e: "escape_uri name (fst stk) (int URI_LEN) = Some m1" "cstr m1 0 = Some (dav_escaped name)"
    "escape_uri pg (snd stk) (int URI_LEN) = Some m2" "cstr m2 0 = Some (dav_escaped pg)"
    using escape_uri_ok [of name "fst stk"] escape_uri_ok [of pg "snd stk"] n stk by (auto simp: short_name_def)
  have "length ?r \<le> 2000" by (rule response_length [OF n(1-3)])
  then have pt: "put_texts ([], int MAXSCRIPTOUT - 1)
      (prop_pieces date (dav_escaped pg) (dav_escaped name) props parent (stat_of i) None) =
      Some (?r, int MAXSCRIPTOUT - 1 - int (length ?r))"
    using put_texts_ok [of "[]" _ "int MAXSCRIPTOUT - 1"] by (simp add: response_def buffer_sizes)
  have w1: "healthy ?w1" using w by simp
  have "AList.delete ?d (fds w) = fds w" using new_fd_fresh by simp
  then have cl: "sys_close ?d (?w1\<lparr>sent := x\<rparr>) = w\<lparr>sent := x\<rparr>" for x by (simp add: sys_close_def)
  have len: "nat (int MAXSCRIPTOUT - 1 - (int MAXSCRIPTOUT - 1 - int (length ?r))) = length ?r" by simp
  have rd: "read_image ?r (length ?r) = Some ?r" by (simp add: read_image_def)
  show ?thesis
    unfolding printprops_def op prod.case sum.case st bind.bind_lunit e healthy_simps [OF w1]
    using n(4) cl by (simp add: pt rd myio_write_def healthy_simps [OF w1])
qed

definition child_stat :: "fsys \<Rightarrow> path \<Rightarrow> string \<Rightarrow> stat" where
  "child_stat tr p e = (case lookup tr (p @ [e]) of None \<Rightarrow> stat_of a_dir | Some i \<Rightarrow> stat_of i)"

lemma names_path_slash:
  assumes "names_path dir p" and "last dir = CHR ''/''" and "proper e"
  shows "names_path (dir @ e) (p @ [e])"
proof -
  obtain d where d: "dir = d @ ''/''" using assms(1,2) by (metis append_butlast_last_id names_path_def)
  have "names_path (d @ ''/'' @ e) (p @ [e])"
    using assms(1,3) d
    by (auto simp: names_path_def split_slash_append split_slash_plain proper_def hd_append split: if_splits)
  then show ?thesis using d by simp
qed

lemma printprops_entries_ok:
  assumes w: "healthy w" "fs_ok (fs w)" "names_path dir p" "last dir = CHR ''/''"
    and stk: "length (fst stk) = URI_LEN" "length (snd stk) = URI_LEN"
    and pg: "short_name pg" "\<not> getcontenttype props"
    and es: "\<forall>e \<in> set es. visible e \<longrightarrow> p @ [e] \<in> fst ` set (fs w) \<and> short_name e \<and>
      small_file date (child_stat (fs w) p e) \<and> length (dir @ e) < URI_LEN"
  shows "printprops_entries magic date stk Client pg props dir es w =
    Some (w\<lparr>sent := sent w @
      concat (map (\<lambda>e. response date props pg e False (child_stat (fs w) p e)) (filter visible es))\<rparr>)"
  using w(1,2) es
proof (induction es arbitrary: w)
  case (Cons e es)
  show ?case
  proof (cases "visible e")
    case True
    then have e: "p @ [e] \<in> fst ` set (fs w)" "short_name e" "small_file date (child_stat (fs w) p e)"
      "take (URI_LEN - 1) (dir @ e) = dir @ e" using Cons.prems(3) by auto
    then obtain i where i: "lookup (fs w) (p @ [e]) = Some i" using lookup_iff [of "fs w" "p @ [e]"] by auto
    have pr: "proper e" using fs_ok_proper [OF Cons.prems(2), of p "[e]"] e(1) by simp
    then have "last (dir @ e) \<noteq> CHR ''/''" by (metis append_is_Nil_conv last_appendR last_in_set proper_def)
    then have r: "resolve (fs w) (cwd w) (dir @ e) = Inr (p @ [e])"
      using Cons.prems(2) names_path_slash [OF w(3,4) pr] e(1) by (intro resolve_names) auto
    have cs: "child_stat (fs w) p e = stat_of i" using i by (simp add: child_stat_def)
    let ?w1 = "w\<lparr>sent := sent w @ response date props pg e False (child_stat (fs w) p e)\<rparr>"
    have "printprops magic date stk Client pg props (dir @ e) e False w = Some ?w1"
      using printprops_ok [OF Cons.prems(1) r i pg(1) e(2) _ pg(2) stk] e(3) cs by simp
    then show ?thesis using True e(4) Cons.IH [of ?w1] Cons.prems by (simp add: visible_def)
  next
    case False
    then show ?thesis using Cons by (simp add: visible_def)
  qed
qed (cases w, simp)


definition all_props :: dav_details where
  "all_props = \<lparr>getetag = True, getcontentlength = True, resourcetype = True, getlastmodified = True,
     getcontenttype = False, deep = True\<rparr>"

definition propfind_xml :: "(int \<Rightarrow> string) \<Rightarrow> string \<Rightarrow> inode \<Rightarrow> fsys \<Rightarrow> path \<Rightarrow> string" where
  "propfind_xml date pg i tr p =
     XML_START @ response date all_props pg pg True (stat_of i) @
     concat (map (\<lambda>e. response date all_props pg e False (child_stat tr p e)) (filter visible (children tr p))) @
     XML_END"

lemma send_xml_ok:
  assumes w: "healthy w" "fs_ok (fs w)" "names_path dir p" "last dir = CHR ''/''"
    and i: "lookup (fs w) p = Some i" "is_dir i" "small_file date (stat_of i)"
    and stk: "length (fst stk) = URI_LEN" "length (snd stk) = URI_LEN" and pg: "short_name pg"
    and es: "\<forall>e \<in> set (children (fs w) p). visible e \<longrightarrow> short_name e \<and>
      small_file date (child_stat (fs w) p e) \<and> length (dir @ e) < URI_LEN"
  shows "send_xml magic date stk Client all_props pg dir w =
    Some (True, w\<lparr>sent := sent w @ propfind_xml date pg i (fs w) p\<rparr>)"
proof -
  have d: "dir_at (fs w) p" using i by (simp add: dir_at_def)
  then have r: "resolve (fs w) (cwd w) dir = Inr p" using w dir_atD by (intro resolve_names) auto
  let ?w1 = "w\<lparr>sent := sent w @ XML_START\<rparr>"
  let ?w2 = "w\<lparr>sent := sent w @ XML_START @ response date all_props pg pg True (stat_of i)\<rparr>"
  have p1: "printprops magic date stk Client pg all_props dir pg True ?w1 = Some ?w2"
    using printprops_ok [of ?w1 dir p i pg pg date all_props stk magic True] w(1) r i pg stk
    by (simp add: all_props_def)
  have op: "sys_opendir dir ?w2 = (Inr (''.'' # ''..'' # children (fs w) p), ?w2)"
    using sys_opendir_ok [of ?w2 dir p] w(1) r d by simp
  have "\<forall>e \<in> set (''.'' # ''..'' # children (fs w) p). visible e \<longrightarrow> p @ [e] \<in> fst ` set (fs w) \<and> short_name e \<and>
      small_file date (child_stat (fs w) p e) \<and> length (dir @ e) < URI_LEN"
    using es by (auto simp: visible_def set_children)
  then have p2: "printprops_entries magic date stk Client pg all_props dir (''.'' # ''..'' # children (fs w) p) ?w2 =
      Some (?w2\<lparr>sent := sent ?w2 @ concat (map (\<lambda>e. response date all_props pg e False (child_stat (fs w) p e))
        (filter visible (children (fs w) p)))\<rparr>)"
    using printprops_entries_ok [of ?w2 dir p stk pg all_props "''.'' # ''..'' # children (fs w) p" date magic] w stk pg
    by (simp add: all_props_def visible_def)
  show ?thesis
    using w(1) unfolding send_xml_def myio_write_def fd_t.case Let_def healthy_simps [OF w(1)] snd_conv p1 bind.bind_lunit
      op prod.case sum.case p2
    by (simp add: healthy_simps all_props_def [THEN arg_cong [where f = deep]] propfind_xml_def)
qed

lemma propfind_ok:
  assumes a: "authsock conf \<noteq> None" and w: "healthy w" "fs_ok (fs w)" "names_path dir p" "last dir = CHR ''/''"
    and c: "strfile c = dir @ NUL # junk" "NUL \<notin> set dir" "strfile_len c = length dir"
      "cstr (buf c) (page c) = Some pg" "short_name pg"
    and h: "get_param_value (buf c) (http_param c) ''Depth'' 4 5 = Some (Some ''1'')" "len post = 0"
    and i: "lookup (fs w) p = Some i" "is_dir i" "small_file date (stat_of i)"
    and stk: "length (fst stk) = URI_LEN" "length (snd stk) = URI_LEN"
    and es: "\<forall>e \<in> set (children (fs w) p). visible e \<longrightarrow> short_name e \<and>
      small_file date (child_stat (fs w) p e) \<and> length (dir @ e) < URI_LEN"
  shows "\<exists>h ls. propfind magic date conf None stk tail c post w =
      Some (0, c\<lparr>strfile_stat := stat_of i, keep_alive := False, status_code := 207\<rparr>,
        w\<lparr>sent := sent w @ h @ propfind_xml date pg i (fs w) p\<rparr>) \<and>
    read_head (h @ propfind_xml date pg i (fs w) p) = Some (ls, propfind_xml date pg i (fs w) p) \<and>
    status_of ls = 207"
proof -
  let ?c = "c\<lparr>strfile_stat := stat_of i, keep_alive := False\<rparr>"
  let ?l = "''Content-Type: text/xml; charset='' @ QUOTE @ ''utf-8'' @ QUOTE"
  let ?ls = "head_lines 207 None [?l] False (-1) ?c"
  have d: "dir_at (fs w) p" using i by (simp add: dir_at_def)
  then have r: "resolve (fs w) (cwd w) dir = Inr p" using w dir_atD by (intro resolve_names) auto
  have st: "sys_stat dir w = (Inr (stat_of i), w)"
    using w(1) r i by (simp add: sys_stat_def on_path_def healthy_simps)
  have sd: "S_ISDIR (st_mode (stat_of i))" using i(2) by (simp add: stat_of_def is_dir_def)
  have cs: "cstr (strfile c) 0 = Some dir" using cstr_append [OF c(2), of "[]" junk] c(1) by simp
  have "dir \<noteq> []" using w(3) by (simp add: names_path_def)
  then have "cstr (strfile c) (length dir - 1) = Some ''/''"
    using cstr_suffix [OF cs, of "length dir - 1"] w(4)
    by (metis add_0 append_butlast_last_id append_eq_conv_conj diff_le_self length_butlast)
  then have sl: "endsWith (strfile ?c) 0 ''/'' (strfile_len ?c) 1 = Some True"
    using c(3) \<open>dir \<noteq> []\<close> by (simp add: endsWith_def)
  have gp: "get_props tail (c\<lparr>strfile_stat := stat_of i\<rparr>) post no_props = Some (0, all_props)"
    using h by (simp add: get_props_def no_props_def all_props_def)
  have good: "list_all good_line [?l]" by (simp add: good_line_def QUOTE_def)
  have hd: "send_http_header 207 None (Some (?l @ CRLF)) False (-1) ?c w =
      Some (0, ?c\<lparr>status_code := 207\<rparr>, w\<lparr>sent := sent w @ http_head ?ls\<rparr>)"
    using w(1) by (intro send_http_header_ok head_lines_short) (auto simp: header_text_def QUOTE_def)
  let ?w1 = "w\<lparr>sent := sent w @ http_head ?ls\<rparr>"
  have xml: "send_xml magic date stk Client all_props pg dir ?w1 =
      Some (True, ?w1\<lparr>sent := sent ?w1 @ propfind_xml date pg i (fs w) p\<rparr>)"
    using send_xml_ok [of ?w1 dir p i date stk pg magic] w i stk c(5) es by simp
  have "propfind magic date conf None stk tail c post w =
      Some (0, ?c\<lparr>status_code := 207\<rparr>, ?w1\<lparr>sent := sent ?w1 @ propfind_xml date pg i (fs w) p\<rparr>)"
    using a c(4) cs st sd sl gp hd xml
    by (simp add: propfind_def cache_is_enabled_def cache_get_item_fd_def cache_get_item_fd_wr_def)
  moreover have "read_head (http_head ?ls @ propfind_xml date pg i (fs w) p) = Some (?ls, propfind_xml date pg i (fs w) p)"
    by (rule read_head_http_head [OF head_lines_good [OF good]])
  ultimately show ?thesis using status_of_head_lines [of 207 None "[?l]" False "-1" ?c]
    by (intro exI [of _ "http_head ?ls"] exI [of _ ?ls]) simp
qed


subsection \<open>Lemmas: COPY\<close>

definition asks_copy :: "connection_t \<Rightarrow> string \<Rightarrow> string option \<Rightarrow> bool" where
  "asks_copy c d ov \<longleftrightarrow> method_id c = COPY \<and> take 1 d = ''/'' \<and>
     (\<exists>h. get_param_value (buf c) (http_param c) ''Host'' PATH_LEN 4 = Some h) \<and>
     get_param_value (buf c) (http_param c) ''Destination'' PATH_LEN 11 = Some (Some d) \<and>
     get_param_value (buf c) (http_param c) ''Overwrite'' PATH_LEN 9 = Some ov"

lemma file_exists_ok:
  assumes "healthy w" and "resolve (fs w) (cwd w) s = Inr q"
  shows "file_exists s w = (lookup (fs w) q \<noteq> None, w)"
  using assms by (cases "lookup (fs w) q")
    (simp_all add: file_exists_def sys_access_def sys_stat_def on_path_def healthy_simps)

lemma copy_move_file:
  assumes w: "healthy w" and c: "asks_copy c d ov" "cstr (strfile c) 0 = Some file"
    and src: "resolve (fs w) (cwd w) file = Inr p" "lookup (fs w) p = Some i" "\<not> is_dir i"
    and dst: "resolve (fs w) (cwd w) (basedir c @ d) = Inr q" "p \<noteq> q" "\<not> dir_at (fs w) q"
      "length (basedir c @ d) < PATH_LEN"
    and ov: "ov = None \<or> ov = Some ''F'' \<or> ov = Some ''T'' \<and> lookup (fs w) q = None"
  shows "\<exists>n. copy_move k stk st0 c w = Some (if lookup (fs w) q = None then OK_CREATED else OK_NOCONTENT,
    w\<lparr>fs := copied q (i_data i) w, next_ino := n\<rparr>)"
proof -
  obtain n where cp: "file_copy file (basedir c @ d) w = Some (0, w\<lparr>fs := copied q (i_data i) w, next_ino := n\<rparr>)"
    using file_copy_ok [OF w src dst(1-3)] by blast
  have neq: "file \<noteq> basedir c @ d" using src(1) dst(1,2) by auto
  have tk: "take (PATH_LEN - Suc 0) (basedir c @ d) = basedir c @ d" using dst(4) by simp
  have ex: "file_exists (basedir c @ d) w = (lookup (fs w) q \<noteq> None, w)" using w dst(1) by (rule file_exists_ok)
  have st: "sys_stat file w = (Inr (stat_of i), w)"
    using w src by (simp add: sys_stat_def on_path_def healthy_simps)
  have nd: "\<not> S_ISDIR (st_mode (stat_of i))" using src(3) by (simp add: stat_of_def is_dir_def)
  show ?thesis
    using c ov nd neq unfolding asks_copy_def copy_move_def healthy_simps [OF w] prod.case
    by (elim conjE exE) (auto simp: Let_def tk ex st cp simp del: take_append)
qed

text \<open>
  The test of \<open>Overwrite\<close> is the wrong way round: RFC 4918 asks for 412 when the destination
  exists and the header is \<open>F\<close>; the code refuses \<open>T\<close> and overwrites for \<open>F\<close>.
\<close>

lemma overwrite_T_is_refused:
  assumes "healthy w" and "asks_copy c d (Some ''T'')" and "cstr (strfile c) 0 = Some file"
    and "file \<noteq> basedir c @ d" and "resolve (fs w) (cwd w) (basedir c @ d) = Inr q" and "lookup (fs w) q = Some j"
    and "length (basedir c @ d) < PATH_LEN"
  shows "copy_move k stk st0 c w = Some (ERR_PRECONDITION_FAILED, w)"
proof -
  have tk: "take (PATH_LEN - Suc 0) (basedir c @ d) = basedir c @ d" using assms(7) by simp
  have ex: "file_exists (basedir c @ d) w = (True, w)" using file_exists_ok [OF assms(1,5)] assms(6) by simp
  show ?thesis
    using assms(2-4) unfolding asks_copy_def copy_move_def healthy_simps [OF assms(1)] prod.case
    by (elim conjE exE) (auto simp: Let_def tk ex simp del: take_append)
qed

subsection \<open>Properties\<close>


definition dav_connection :: connection_t where
  "dav_connection = (asking ''Depth: 1'')\<lparr>strfile := ''/srv/d/'' @ [NUL], strfile_len := 7\<rparr>"



definition copy_connection :: connection_t where
  "copy_connection = (asking ''Destination: /d/c'')\<lparr>method_id := COPY\<rparr>"


text \<open>
  The body of a PROPFIND request is searched as a C string, but it is not terminated: unless
  the bytes that follow the block happen to hold a zero, the search runs past the memory.
\<close>

lemma propfind_body_overruns:
  assumes "get_param_value (buf c) (http_param c) ''Depth'' 4 5 \<noteq> None" and "len post = length s" and "s \<noteq> []"
    and "data post = Some s" and "NUL \<notin> set s"
  shows "get_props [] c post props = None"
  using assms by (auto simp: get_props_def c_strstr_def cstr_def)

text \<open>
  A byte above 127 prints eight digits, although the code makes room for two: the others
  stay in the text or run past the end of the array.
\<close>

lemma escape_uri_breaks_utf8: "length (hex_of_char (CHR 0xC3)) = 8"
  by (simp add: hex_of_char_def schar_def show_02x_def show_base.simps)


end
