(* ===== verification/Cgi.thy ===== *)
theory Cgi
  imports Http Utils
begin

section \<open>cgi.c: running a script\<close>

text \<open>
  The environment that the child process gets, what it is started with, and how the parent
  turns its output into a response. The script itself is a parameter: a function from
  the invocation to the results of the \<open>read\<close> calls on its output, \<open>None\<close> for a failed one;
  when the list is used up \<open>read\<close> returns 0. The child works on its copy of the memory, so
  nothing it does to the header is seen by the parent.
\<close>

subsection \<open>The environment\<close>

type_synonym environment = "(string \<times> string) list"

text \<open>\<open>setenv(name, value, true)\<close>: a name that is empty or has an equals sign is refused.\<close>

definition sys_setenv :: "string \<Rightarrow> string \<Rightarrow> environment \<Rightarrow> environment" where
  "sys_setenv name val ev =
     (if name = [] \<or> CHR ''='' \<in> set name then ev else AList.update name val ev)"

text \<open>
  One header line of \<open>p_len\<close> bytes: the name is cut at the first colon followed by a space,
  turned into upper case with underscores, and copied to \<open>hparam\<close>, which has room for 195
  bytes; a longer name leaves it without a terminator.
\<close>

definition http_env_var :: "cmem \<Rightarrow> nat \<Rightarrow> nat \<Rightarrow> environment \<Rightarrow> (cmem \<times> environment) option" where
  "http_env_var m param p_len ev =
     (case find (\<lambda>i. m ! (param + i) = CHR '':'' \<and> m ! (param + i + 1) = CHR '' '') [0..<p_len] of
        None \<Rightarrow> Some (m, ev)
      | Some i \<Rightarrow> do {
          m1 \<leftarrow> c_poke m (param + i) NUL;
          m2 \<leftarrow> strToUpper m1 param;
          m3 \<leftarrow> strReplace m2 param ''-'' (CHR ''_'');
          name \<leftarrow> cstr m3 param;
          val \<leftarrow> cstr m3 (param + i + 2);
          if 195 \<le> length name then None
          else Some (m3, sys_setenv (''HTTP_'' @ name) val ev)
        })"

lemma strToUpper_length: "strToUpper m p = Some m' \<Longrightarrow> length m' = length m"
proof (induction m p rule: strToUpper.induct)
  case (1 m p)
  then show ?case
    by (subst (asm) strToUpper.simps) (auto simp: bind_Some_iff split: if_splits dest: c_poke_length)
qed

lemma strReplace_length:
  assumes "strReplace m p s c = Some m'" shows "length m' = length m"
proof (rule strReplace.raw_induct [where P = "\<lambda>m p s c m'. length m' = length m", OF _ assms])
  fix rec m p s c m'
  assume IH: "\<And>m p s c m'. rec m p s c = Some m' \<Longrightarrow> length m' = length m"
    and r: "do {
        r \<leftarrow> c_strstr m p s;
        case r of
          None \<Rightarrow> Some m
        | Some pointer \<Rightarrow> do {
            m1 \<leftarrow> delChar m pointer 0 (length s - 1);
            m2 \<leftarrow> c_poke m1 pointer c;
            rec m2 pointer s c
          }
      } = Some m'"
  then show "length m' = length m"
    by (auto simp: bind_Some_iff split: option.split_asm dest!: c_poke_length delChar_length IH)
qed

lemma http_env_var_length: "http_env_var m param n ev = Some (m', ev') \<Longrightarrow> length m' = length m"
  by (auto simp: http_env_var_def bind_Some_iff split: option.splits if_splits
      dest!: strToUpper_length strReplace_length c_poke_length)

lemma strtok_progress:
  assumes "c_strtok_r m p d = Some (m', Some t, l)"
  shows "length m' = length m \<and> p \<le> t \<and> t < l \<and> l \<le> length m \<and> p < length m"
proof -
  obtain s where s: "cstr m p = Some s" using assms by (auto simp: c_strtok_r_def bind_Some_iff)
  define sk where "sk = takeWhile (\<lambda>c. c \<in> set d) s"
  define rest where "rest = drop (length sk) s"
  define tok where "tok = takeWhile (\<lambda>c. c \<notin> set d) rest"
  have len: "length sk + length rest = length s" "length tok \<le> length rest"
    unfolding tok_def by (simp add: rest_def sk_def length_takeWhile_le) (rule length_takeWhile_le)
  have "rest \<noteq> []"
    using assms unfolding c_strtok_r_def s bind.bind_lunit Let_def sk_def [symmetric] rest_def [symmetric] by auto
  then have "hd rest \<notin> set d"
    unfolding rest_def sk_def using hd_dropWhile [of "\<lambda>c. c \<in> set d" s] by (metis dropWhile_eq_drop)
  then have "tok \<noteq> []" using \<open>rest \<noteq> []\<close> by (cases rest) (auto simp: tok_def)
  then show ?thesis
    using assms cstr_length [OF s] len \<open>rest \<noteq> []\<close>
    unfolding c_strtok_r_def s bind.bind_lunit Let_def sk_def [symmetric] rest_def [symmetric] tok_def [symmetric]
    by (auto simp: bind_Some_iff split: if_splits dest!: c_poke_length)
qed

function http_env_loop :: "cmem \<Rightarrow> nat \<Rightarrow> environment \<Rightarrow> environment option" where
  "http_env_loop m lasts ev =
     (case c_strtok_r m lasts CRLF of
        None \<Rightarrow> None
      | Some (m1, None, _) \<Rightarrow> Some ev
      | Some (m1, Some param, lasts1) \<Rightarrow>
          (case http_env_var m1 param (lasts1 - param - 1) ev of
             None \<Rightarrow> None
           | Some (m2, ev2) \<Rightarrow> http_env_loop m2 lasts1 ev2))"
  by pat_completeness auto
termination
  by (relation "measure (\<lambda>(m, lasts, _). length m - lasts)")
    (auto dest!: strtok_progress http_env_var_length)

declare http_env_loop.simps [simp del]

definition cgi_set_http_env_vars :: "cmem \<Rightarrow> nat \<Rightarrow> environment \<Rightarrow> environment option" where
  "cgi_set_http_env_vars m hp ev = do {
     (m1, param, lasts) \<leftarrow> c_strtok_r m hp CRLF;
     q \<leftarrow> param;
     proto \<leftarrow> cstr m1 q;
     http_env_loop m1 lasts (sys_setenv ''SERVER_PROTOCOL'' proto ev)
   }"

definition cgi_set_SERVER_ADDR_PORT :: "weborf_configuration_t \<Rightarrow> string \<Rightarrow> environment \<Rightarrow> environment" where
  "cgi_set_SERVER_ADDR_PORT conf loc_addr ev =
     sys_setenv ''SERVER_PORT'' (conf_port conf) (sys_setenv ''SERVER_ADDR'' loc_addr ev)"

definition cgi_set_env_vars :: "connection_t \<Rightarrow> string \<Rightarrow> environment \<Rightarrow> environment option" where
  "cgi_set_env_vars c real_basedir ev = do {
     meth \<leftarrow> cstr (buf c) (req_method c);
     file \<leftarrow> cstr (strfile c) 0;
     pg \<leftarrow> cstr (buf c) (page c);
     let ev1 = sys_setenv ''SCRIPT_NAME'' pg (sys_setenv ''REMOTE_ADDR'' (ip_addr c)
       (sys_setenv ''DOCUMENT_ROOT'' real_basedir (sys_setenv ''SCRIPT_FILENAME'' file
         (sys_setenv ''REDIRECT_STATUS'' ''Ciao'' (sys_setenv ''REQUEST_METHOD'' meth
           (sys_setenv ''GATEWAY_INTERFACE'' ''CGI/1.1'' (sys_setenv ''SERVER_SOFTWARE'' SIGNATURE
             (sys_setenv ''SERVER_SIGNATURE'' SIGNATURE ev))))))));
     let ev2 = (case map_of ev1 ''HTTP_HOST'' of None \<Rightarrow> ev1 | Some h \<Rightarrow> sys_setenv ''SERVER_NAME'' h ev1);
     case get_params c of
       None \<Rightarrow> Some (sys_setenv ''QUERY_STRING'' '''' (sys_setenv ''REQUEST_URI'' pg ev2))
     | Some q \<Rightarrow> do {
         query \<leftarrow> cstr (buf c) q;
         m1 \<leftarrow> c_poke (buf c) (page c + page_len c) (CHR ''?'');
         uri \<leftarrow> cstr m1 (page c);
         Some (sys_setenv ''REQUEST_URI'' uri (sys_setenv ''QUERY_STRING'' query ev2))
       }
   }"

definition cgi_set_env_content_length :: "environment \<Rightarrow> environment" where
  "cgi_set_env_content_length ev =
     (case (map_of ev ''HTTP_CONTENT_LENGTH'', map_of ev ''HTTP_CONTENT_TYPE'') of
        (Some l, Some ty) \<Rightarrow> sys_setenv ''CONTENT_TYPE'' ty (sys_setenv ''CONTENT_LENGTH'' l ev)
      | _ \<Rightarrow> ev)"

subsection \<open>The child\<close>

record invocation =
  inv_program :: string
  inv_argument :: string
  inv_dir :: string
  inv_env :: environment
  inv_stdin :: "string option"

text \<open>The directory and the name of the script; without a slash \<open>rindex\<close> returns null.\<close>

definition cgi_child_chdir :: "string \<Rightarrow> (string \<times> string) option" where
  "cgi_child_chdir file =
     (let name = rev (takeWhile (\<lambda>ch. ch \<noteq> CHR ''/'') (rev file)) in
      if name = file then None else Some (take (length file - length name - 1) file, name))"

definition cgi_execute_child :: "weborf_configuration_t \<Rightarrow> string \<Rightarrow> connection_t \<Rightarrow> string_t \<Rightarrow> string \<Rightarrow> string \<Rightarrow>
    invocation option" where
  "cgi_execute_child conf loc_addr c post_param executor real_basedir = do {
     file \<leftarrow> cstr (strfile c) 0;
     ev1 \<leftarrow> cgi_set_http_env_vars (buf c) (http_param c) [];
     ev2 \<leftarrow> cgi_set_env_vars c real_basedir (cgi_set_SERVER_ADDR_PORT conf loc_addr ev1);
     (dir, name) \<leftarrow> cgi_child_chdir file;
     Some \<lparr>inv_program = if executor = [] then file else executor, inv_argument = name, inv_dir = dir,
       inv_env = cgi_set_env_content_length ev2, inv_stdin = data post_param\<rparr>
   }"

subsection \<open>The parent\<close>

text \<open>Copying the rest of the output; a failed \<open>read\<close> passes the length \<open>-1\<close> to the write.\<close>

fun cgi_copy_loop :: "string option list \<Rightarrow> world \<Rightarrow> world option" where
  "cgi_copy_loop [] w = Some w"
| "cgi_copy_loop (None # rs) w = None"
| "cgi_copy_loop (Some s # rs) w =
     (if s = [] then Some w
      else if MAXSCRIPTOUT + HEADBUF < length s then None
      else (case client_write s w of
              (r, w1) \<Rightarrow> if r \<noteq> int (length s) then Some w1 else cgi_copy_loop rs w1))"

text \<open>
  \<open>strtoul\<close>: saturation at the largest value, and a minus sign negates modulo \<open>2\<^sup>6\<^sup>4\<close>. The status
  is truncated to \<open>unsigned int\<close> and passed as an \<open>int\<close>.
\<close>

definition c_strtoul :: "nat \<Rightarrow> string \<Rightarrow> 64 word" where
  "c_strtoul base s =
     (let s1 = dropWhile c_isspace s;
          neg = (s1 \<noteq> [] \<and> hd s1 = CHR ''-'');
          s2 = (if s1 \<noteq> [] \<and> (hd s1 = CHR ''-'' \<or> hd s1 = CHR ''+'') then tl s1 else s1);
          (b, s3) = strtol_base base s2;
          v = digits_value b (takeWhile (is_digit_in b) s3)
      in if 18446744073709551615 < v then -1 else if neg then - of_nat v else of_nat v)"

definition cgi_status :: "string \<Rightarrow> int" where
  "cgi_status header =
     (case find_sub ''Status: '' header of
        None \<Rightarrow> 200
      | Some i \<Rightarrow> sint (ucast (c_strtoul 0 (drop (i + 8) header)) :: 32 word))"

text \<open>
  \<open>reads\<close> are the results of \<open>read\<close> on the pipe. The output is cut at the first empty line of
  what the first call returned; what comes before it, with its line end, is printed into the
  response header.
\<close>

definition cgi_waitfor_child :: "connection_t \<Rightarrow> string option list \<Rightarrow> world \<Rightarrow> (int \<times> connection_t \<times> world) option" where
  "cgi_waitfor_child c reads w =
     (case malloc w of
        (ok, w1) \<Rightarrow>
          if \<not> ok then Some (ERR_NOMEM, c, w1)
          else do {
            out \<leftarrow> (case reads of [] \<Rightarrow> Some [] | r # _ \<Rightarrow> r);
            if MAXSCRIPTOUT + HEADBUF \<le> length out then None
            else do {
              text \<leftarrow> cstr (out @ [NUL]) 0;
              case find_sub (CRLF @ CRLF) text of
                None \<Rightarrow> do {
                  (_, c1, w2) \<leftarrow> send_err c 500 ''Internal server error'' w1;
                  Some (0, c1, w2)
                }
              | Some i \<Rightarrow> do {
                  let header = take (i + 2) text;
                  let content = drop (i + 4) out;
                  (_, c1, w2) \<leftarrow> send_http_header (cgi_status header) None (Some header) True (-1)
                    (c\<lparr>keep_alive := False\<rparr>) w1;
                  let w3 = (if content = [] then w2 else snd (client_write content w2));
                  w4 \<leftarrow> cgi_copy_loop (tl reads) w3;
                  Some (0, c1, w4)
                }
            }
          })"

text \<open>\<open>exec_page\<close>: two calls of \<open>pipe\<close>, the first only with a request body, then \<open>fork\<close>.\<close>

definition exec_page :: "(invocation \<Rightarrow> string option list) \<Rightarrow> weborf_configuration_t \<Rightarrow> string \<Rightarrow> string \<Rightarrow> string_t \<Rightarrow>
    string \<Rightarrow> connection_t \<Rightarrow> world \<Rightarrow> (int \<times> connection_t \<times> world) option" where
  "exec_page script conf loc_addr executor post_param real_basedir c w =
     (let (f1, w1) = (if data post_param \<noteq> None then next_fault w else (None, w)) in
      if f1 \<noteq> None then Some (ERR_NOMEM, c, w1)
      else (case next_fault w1 of
              (Some _, w2) \<Rightarrow> Some (ERR_NOMEM, c, w2)
            | (None, w2) \<Rightarrow>
                (case next_fault w2 of
                   (Some _, w3) \<Rightarrow> Some (ERR_NOMEM, c, w3)
                 | (None, w3) \<Rightarrow>
                     do {
                       call \<leftarrow> cgi_execute_child conf loc_addr c post_param executor real_basedir;
                       cgi_waitfor_child c (script call) w3
                     })))"

subsection \<open>Lemmas: the environment\<close>

definition http_name :: "string \<Rightarrow> bool" where
  "http_name n \<longleftrightarrow> prefix ''HTTP_'' n"

text \<open>The variables that the server sets itself.\<close>

definition server_names :: "string list" where
  "server_names = [''SERVER_PROTOCOL'', ''SERVER_ADDR'', ''SERVER_PORT'', ''SERVER_SIGNATURE'', ''SERVER_SOFTWARE'',
     ''GATEWAY_INTERFACE'', ''REQUEST_METHOD'', ''REDIRECT_STATUS'', ''SCRIPT_FILENAME'', ''DOCUMENT_ROOT'',
     ''REMOTE_ADDR'', ''SCRIPT_NAME'', ''SERVER_NAME'', ''REQUEST_URI'', ''QUERY_STRING'', ''CONTENT_LENGTH'',
     ''CONTENT_TYPE'']"

definition names_ok :: "environment \<Rightarrow> bool" where
  "names_ok ev \<longleftrightarrow> (\<forall>n. map_of ev n \<noteq> None \<longrightarrow> http_name n \<or> n \<in> set server_names)"

lemma server_names_mem:
  "''SERVER_PROTOCOL'' \<in> set server_names" "''SERVER_ADDR'' \<in> set server_names" "''SERVER_PORT'' \<in> set server_names"
  "''SERVER_SIGNATURE'' \<in> set server_names" "''SERVER_SOFTWARE'' \<in> set server_names"
  "''GATEWAY_INTERFACE'' \<in> set server_names" "''REQUEST_METHOD'' \<in> set server_names"
  "''REDIRECT_STATUS'' \<in> set server_names" "''SCRIPT_FILENAME'' \<in> set server_names"
  "''DOCUMENT_ROOT'' \<in> set server_names" "''REMOTE_ADDR'' \<in> set server_names" "''SCRIPT_NAME'' \<in> set server_names"
  "''SERVER_NAME'' \<in> set server_names" "''REQUEST_URI'' \<in> set server_names" "''QUERY_STRING'' \<in> set server_names"
  "''CONTENT_LENGTH'' \<in> set server_names" "''CONTENT_TYPE'' \<in> set server_names"
  by (simp_all add: server_names_def)

lemma map_of_setenv:
  "n \<noteq> [] \<Longrightarrow> CHR ''='' \<notin> set n \<Longrightarrow> map_of (sys_setenv n v ev) k = (if k = n then Some v else map_of ev k)"
  by (simp add: sys_setenv_def update_conv)

lemma names_ok_setenv:
  "names_ok ev \<Longrightarrow> http_name n \<or> n \<in> set server_names \<Longrightarrow> names_ok (sys_setenv n v ev)"
  by (auto simp: names_ok_def sys_setenv_def update_conv)

lemma http_env_var_names:
  assumes "names_ok ev" and "http_env_var m q n ev = Some (m', ev')" shows "names_ok ev'"
proof -
  have "http_name (''HTTP_'' @ s)" for s by (simp add: http_name_def)
  then show ?thesis using assms
    by (auto simp: http_env_var_def bind_Some_iff split: option.splits if_splits intro!: names_ok_setenv)
qed

lemma http_env_loop_names: "names_ok ev \<Longrightarrow> http_env_loop m l ev = Some ev' \<Longrightarrow> names_ok ev'"
proof (induction m l ev rule: http_env_loop.induct)
  case (1 m l ev)
  show ?case
  proof (cases "\<exists>m1 q l1. c_strtok_r m l CRLF = Some (m1, Some q, l1)")
    case True
    then obtain m1 q l1 where t: "c_strtok_r m l CRLF = Some (m1, Some q, l1)" by blast
    then obtain m2 ev2 where v: "http_env_var m1 q (l1 - q - 1) ev = Some (m2, ev2)"
      using 1(3) by (subst (asm) http_env_loop.simps) (auto split: option.splits)
    then have "http_env_loop m2 l1 ev2 = Some ev'"
      using 1(3) t by (subst (asm) http_env_loop.simps) simp
    then show ?thesis using "1.IH" [OF t refl refl refl v refl] http_env_var_names [OF 1(2) v] by simp
  next
    case False
    then show ?thesis using 1(2,3) by (subst (asm) http_env_loop.simps) (auto split: option.splits)
  qed
qed

lemma cgi_set_http_env_vars_names:
  assumes "cgi_set_http_env_vars m hp [] = Some ev" shows "names_ok ev"
proof -
  have "names_ok (sys_setenv ''SERVER_PROTOCOL'' p [])" for p
    by (rule names_ok_setenv) (simp_all add: names_ok_def server_names_mem)
  then show ?thesis using assms
    by (auto simp: cgi_set_http_env_vars_def bind_Some_iff elim!: http_env_loop_names [rotated])
qed

lemma cgi_set_env_vars_names:
  assumes "cgi_set_env_vars c bd ev = Some ev'" and "names_ok ev"
  shows "names_ok ev'"
  using assms(1)
  by (auto simp: cgi_set_env_vars_def bind_Some_iff Let_def names_ok_setenv server_names_mem assms(2)
      split: option.splits)

lemma server_values:
  assumes "cgi_set_env_vars c bd ev = Some ev'"
  shows "map_of ev' ''REQUEST_METHOD'' = cstr (buf c) (req_method c)" and
    "map_of ev' ''SCRIPT_FILENAME'' = cstr (strfile c) 0" and
    "map_of ev' ''REMOTE_ADDR'' = Some (ip_addr c)" and "map_of ev' ''DOCUMENT_ROOT'' = Some bd"
  using assms
  by (auto simp: cgi_set_env_vars_def bind_Some_iff Let_def map_of_setenv split: option.splits)

lemma content_length_keeps:
  "names_ok ev \<Longrightarrow> names_ok (cgi_set_env_content_length ev)"
  "k \<noteq> ''CONTENT_LENGTH'' \<Longrightarrow> k \<noteq> ''CONTENT_TYPE'' \<Longrightarrow> map_of (cgi_set_env_content_length ev) k = map_of ev k"
  by (auto simp: cgi_set_env_content_length_def names_ok_setenv server_names_mem map_of_setenv split: option.split)

subsection \<open>Lemmas: the output\<close>

lemma find_sub_skip:
  "c \<notin> set l \<Longrightarrow> find_sub (c # pat) (l @ r) = map_option ((+) (length l)) (find_sub (c # pat) r)"
  by (induction l; cases "find_sub (c # pat) r") auto

lemma find_empty_line:
  assumes "list_all good_line ls" and "ls \<noteq> []"
  shows "find_sub (CRLF @ CRLF) (header_text ls @ CRLF @ body) = Some (length (header_text ls) - 2)"
  using assms
proof (induction ls)
  case (Cons l ls)
  have l: "l \<noteq> []" "CR \<notin> set l" using Cons.prems by (auto simp: good_line_def)
  show ?case
  proof (cases "ls = []")
    case True
    then show ?thesis using find_sub_skip [OF l(2), of "LF # CR # [LF]" "CR # LF # CR # LF # body"]
      by (simp add: header_text_def)
  next
    case False
    have IH: "find_sub (CRLF @ CRLF) (header_text ls @ CRLF @ body) = Some (length (header_text ls) - 2)"
      using Cons False by simp
    obtain x r where x: "header_text ls = x # r" "x \<noteq> CR"
      using False Cons.prems by (cases ls; cases "hd ls") (auto simp: header_text_def good_line_def)
    have "2 \<le> length (header_text ls)" using False by (cases ls) (auto simp: header_text_def)
    then show ?thesis
      using find_sub_skip [OF l(2), of "LF # CR # [LF]" "CR # LF # header_text ls @ CR # LF # body"] IH x
      by (force simp: header_text_def)
  qed
qed simp


lemma cgi_copy_loop_ok:
  assumes "healthy w" and "\<forall>s \<in> set chunks. s \<noteq> [] \<and> length s \<le> MAXSCRIPTOUT + HEADBUF"
  shows "cgi_copy_loop (map Some chunks) w = Some (w\<lparr>sent := sent w @ concat chunks\<rparr>)"
  using assms by (induction chunks arbitrary: w) (simp_all add: healthy_simps)

lemma header_text_no_NUL: "\<forall>l \<in> set ls. NUL \<notin> set l \<Longrightarrow> NUL \<notin> set (header_text ls)"
  by (induction ls) (auto simp: header_text_def)

lemma cgi_waitfor_child_ok:
  assumes w: "healthy w" and ls: "list_all good_line ls" "ls \<noteq> []" "\<forall>l \<in> set ls. NUL \<notin> set l"
    and fits: "length (header_text ls) \<le> 800" "length body \<le> MAXSCRIPTOUT"
    and code: "\<bar>cgi_status (header_text ls)\<bar> < 1000" and body: "NUL \<notin> set body"
    and chunks: "\<forall>s \<in> set chunks. s \<noteq> [] \<and> length s \<le> MAXSCRIPTOUT + HEADBUF"
  defines "code \<equiv> cgi_status (header_text ls)"
  shows "cgi_waitfor_child c (Some (header_text ls @ CRLF @ body) # map Some chunks) w =
    Some (0, c\<lparr>keep_alive := False, status_code := code\<rparr>,
      w\<lparr>sent := sent w @ http_head (head_lines code None ls True (-1) (c\<lparr>keep_alive := False\<rparr>)) @ body @ concat chunks\<rparr>)"
proof -
  let ?c = "c\<lparr>keep_alive := False\<rparr>"
  let ?out = "header_text ls @ CRLF @ body"
  let ?h = "http_head (head_lines code None ls True (-1) ?c)"
  have two: "2 \<le> length (header_text ls)" using ls(2) by (cases ls) (auto simp: header_text_def)
  have str: "cstr (?out @ [NUL]) 0 = Some ?out"
    using cstr_append [of ?out "[]" "[]"] header_text_no_NUL [OF ls(3)] body by simp
  have short: "\<not> MAXSCRIPTOUT + HEADBUF \<le> length ?out" using fits by (simp add: HEADBUF_def)
  have parts: "take (length (header_text ls) - 2 + 2) ?out = header_text ls"
    "drop (length (header_text ls) - 2 + 4) ?out = body"
    using two by simp_all
  have head: "send_http_header code None (Some (header_text ls)) True (-1) ?c w =
      Some (0, ?c\<lparr>status_code := code\<rparr>, w\<lparr>sent := sent w @ ?h\<rparr>)"
    using w fits(1) assms(7) by (intro send_http_header_ok head_lines_short) (auto simp: code_def)
  have loop: "cgi_copy_loop (map Some chunks) (w\<lparr>sent := (sent w @ ?h) @ body\<rparr>) =
      Some (w\<lparr>sent := ((sent w @ ?h) @ body) @ concat chunks\<rparr>)"
    using cgi_copy_loop_ok [OF _ chunks, of "w\<lparr>sent := (sent w @ ?h) @ body\<rparr>"] w by simp
  have send: "(if body = [] then w\<lparr>sent := sent w @ ?h\<rparr> else snd (client_write body (w\<lparr>sent := sent w @ ?h\<rparr>))) =
      w\<lparr>sent := (sent w @ ?h) @ body\<rparr>" using w by (simp add: healthy_simps)
  show ?thesis
    unfolding cgi_waitfor_child_def healthy_simps [OF w] prod.case list.case option.case bind.bind_lunit str
      find_empty_line [OF ls(1,2)] Let_def parts code_def [symmetric] head send list.sel loop if_not_P [OF short]
    by simp
qed

subsection \<open>Properties\<close>




definition script_connection :: connection_t where
  "script_connection = (small_connection
     \<lparr>buf := ''GET'' @ [NUL] @ ''/a.py'' @ [NUL] @ ''HTTP/1.1'' @ CRLF @ ''Path: /tmp'' @ CRLF @ ''Remote-Addr: me'' @ CRLF @ CRLF @ [NUL],
      req_method := 0, page := 4, page_len := 5, http_param := 10, get_params := None,
      strfile := ''/srv/a.py'' @ [NUL]\<rparr>)"

declare strReplace.simps [code]

lemma script_connection_call:
  "\<exists>call. cgi_execute_child small_conf ''127.0.0.1'' script_connection \<lparr>len = 0, data = None\<rparr> ''/usr/bin/python'' ''/srv'' = Some call"
proof -
  have "cgi_execute_child small_conf ''127.0.0.1'' script_connection \<lparr>len = 0, data = None\<rparr> ''/usr/bin/python'' ''/srv'' \<noteq> None"
    by code_simp
  then show ?thesis by auto
qed



end
