(* ===== verification/Instance.thy ===== *)
theory Instance
  imports Webdav Cgi Config Request Mime
begin

section \<open>instance.c: the methods and the connection\<close>

text \<open>
  The handlers of PUT and DELETE, the choice between files, scripts, directories and archives
  for GET and POST, \<open>send_page\<close>, and the loop of \<open>handle_requests\<close> over the requests of one
  connection, put together from the other theories. What the server calls but does not
  contain (the authentication provider, the scripts, tar, the type guesser, the text of a
  date) and the uninitialised memory of the routines are the fields of one record. The lemmas
  follow a request from the connection to the file tree and back.
\<close>

record platform =
  p_magic :: "string \<Rightarrow> string"
  p_date :: "int \<Rightarrow> string"
  p_provider :: "string \<Rightarrow> int"
  p_script :: "invocation \<Rightarrow> string option list"
  p_tar :: "string \<Rightarrow> string \<times> int"
  p_loc_addr :: string
  p_cachedir :: "string option"
  p_depth :: nat
  p_auth_stk :: "cmem \<times> cmem"
  p_dir_stat :: stat
  p_dir_blocks :: "cmem \<times> cmem"
  p_dav_stk :: "cmem \<times> cmem"
  p_body_tail :: string
  p_move_stk :: "string \<times> string"
  p_move_stat :: stat

subsection \<open>PUT\<close>

text \<open>
  The loop does not look whether the connection was closed: then nothing is read, nothing is
  written, and it goes on forever, the value \<open>None\<close>.
\<close>

partial_function (option) read_file_loop :: "int \<Rightarrow> int \<Rightarrow> int \<Rightarrow> int \<Rightarrow> world \<Rightarrow> (int \<times> world) option" where
  "read_file_loop fd content_l tot_read retval w =
     (if 0 < min (int FILEBUF) (content_l - tot_read)
      then (case client_read (nat (min (int FILEBUF) (content_l - tot_read))) w of
              (s, w1) \<Rightarrow>
                (case sys_write fd s w1 of
                   (wrote, w2) \<Rightarrow>
                     if wrote \<noteq> int (length s) then Some (ERR_BRKPIPE, w2)
                     else read_file_loop fd content_l (tot_read + int (length s)) retval w2))
      else Some (retval, w))"

definition read_file :: "weborf_configuration_t \<Rightarrow> connection_t \<Rightarrow> world \<Rightarrow> (int \<times> world) option" where
  "read_file conf c w =
     (if authsock conf = None then Some (ERR_FORBIDDEN, w)
      else do {
        r \<leftarrow> get_param_value (buf c) (http_param c) ''Content-Length'' NBUFFER 14;
        case r of
          None \<Rightarrow> Some (ERR_NODATA, w)
        | Some a \<Rightarrow> do {
            file \<leftarrow> cstr (strfile c) 0;
            let content_l = c_strtol 0 a;
            let (there, w1) = file_exists file w;
            let retval = (if there then OK_NOCONTENT else OK_CREATED);
            case sys_open_creat file w1 of
              (Inl _, w2) \<Rightarrow> Some (ERR_FILENOTFOUND, w2)
            | (Inr fd, w2) \<Rightarrow>
                (case sys_ftruncate fd content_l w2 of
                   (Inl _, w3) \<Rightarrow> Some (ERR_NOMEM, sys_close fd w3)
                 | (Inr _, w3) \<Rightarrow>
                     (case malloc w3 of
                        (ok, w4) \<Rightarrow>
                          if \<not> ok then Some (ERR_NOMEM, sys_close fd w4)
                          else do {
                            (res, w5) \<leftarrow> read_file_loop fd content_l 0 retval w4;
                            Some (res, sys_close fd w5)
                          }))
          }
      })"

subsection \<open>DELETE\<close>

definition delete_file :: "nat \<Rightarrow> weborf_configuration_t \<Rightarrow> connection_t \<Rightarrow> world \<Rightarrow> (int \<times> world) option" where
  "delete_file k conf c w =
     (if authsock conf = None then Some (ERR_FORBIDDEN, w)
      else do {
        file \<leftarrow> cstr (strfile c) 0;
        case sys_stat file w of
          (Inl _, w1) \<Rightarrow> Some (ERR_FILENOTFOUND, w1)
        | (Inr stat_d, w1) \<Rightarrow> do {
            (ret, w2) \<leftarrow> (if S_ISDIR (st_mode stat_d) then dir_remove k file w1
                          else (case sys_unlink file w1 of
                                  (Inl _, w2) \<Rightarrow> Some (-1, w2)
                                | (Inr _, w2) \<Rightarrow> Some (0, w2)));
            Some (if ret \<noteq> 0 then ERR_FORBIDDEN else OK_NOCONTENT, w2)
          }
      })"

subsection \<open>GET and POST\<close>

text \<open>
  \<open>tar_send_dir\<close>: the last character of the name is cut off. The child writes to the socket
  itself; the archive and the exit status are \<open>p_tar\<close> of the name.
\<close>

definition tar_send_dir :: "platform \<Rightarrow> connection_t \<Rightarrow> world \<Rightarrow> (int \<times> connection_t \<times> world) option" where
  "tar_send_dir P c w =
     (let c1 = c\<lparr>keep_alive := False\<rparr> in
      case malloc w of
        (ok, w1) \<Rightarrow>
          if \<not> ok then Some (ERR_NOMEM, c1, w1)
          else if strfile_len c1 = 0 then None
          else do {
            m \<leftarrow> c_poke (strfile c1) (strfile_len c1 - 1) NUL;
            let c2 = c1\<lparr>strfile := m, strfile_len := strfile_len c1 - 1\<rparr>;
            file \<leftarrow> cstr m 0;
            (_, name) \<leftarrow> cgi_child_chdir file;
            let headers = take (HEADBUF - 1) (''Content-Type: application/x-gzip'' @ CRLF @
              ''Content-Disposition: attachment; filename='' @ QUOTE @ name @ ''.tar.gz'' @ QUOTE @ CRLF);
            (_, c3, w2) \<leftarrow> send_http_header 200 None (Some headers) True (-1) c2 w1;
            case next_fault w2 of
              (Some _, w3) \<Rightarrow> Some (ERR_NOMEM, c3, w3)
            | (None, w3) \<Rightarrow>
                (case p_tar P file of
                   (archive, status) \<Rightarrow>
                     Some (if status \<noteq> 0 then ERR_BRKPIPE else 0, c3, w3\<lparr>sent := sent w3 @ archive\<rparr>))
          })"

text \<open>The index files are tried at the end of the file name, in the same buffer.\<close>

fun find_index :: "string list \<Rightarrow> connection_t \<Rightarrow> world \<Rightarrow> (string option \<times> connection_t \<times> world) option" where
  "find_index [] c w = Some (None, c, w)"
| "find_index (x # xs) c w = do {
     m \<leftarrow> c_write (strfile c) (strfile_len c) (take (INDEXMAXLEN - 1) x @ [NUL]);
     file \<leftarrow> cstr m 0;
     case file_exists file w of
       (there, w1) \<Rightarrow>
         if there then Some (Some x, c\<lparr>strfile := m\<rparr>, w1) else find_index xs (c\<lparr>strfile := m\<rparr>) w1
   }"

text \<open>The program for a script: the outer \<open>None\<close> is an access outside of the arrays.\<close>

fun find_cgi :: "string list \<Rightarrow> connection_t \<Rightarrow> string option option" where
  "find_cgi [] c = Some None"
| "find_cgi (ext # rest) c =
     (if page c + page_len c < length ext then None
      else do {
        e \<leftarrow> endsWith (buf c) (page c + page_len c - length ext) ext (length ext) (length ext);
        if e then (case rest of [] \<Rightarrow> None | executor # _ \<Rightarrow> Some (Some executor))
        else (case rest of [] \<Rightarrow> Some None | _ # others \<Rightarrow> find_cgi others c)
      })"

definition get_or_post :: "platform \<Rightarrow> weborf_configuration_t \<Rightarrow> string_t \<Rightarrow> connection_t \<Rightarrow> world \<Rightarrow>
    (int \<times> connection_t \<times> world) option" where
  "get_or_post P conf post_param c w =
     (if S_ISDIR (st_mode (strfile_stat c)) then
        if tar_directory conf then tar_send_dir P c w
        else do {
          pg \<leftarrow> cstr (buf c) (page c);
          slash \<leftarrow> endsWith (strfile c) 0 ''/'' (strfile_len c) 1;
          if \<not> slash then do {
            (_, c1, w1) \<leftarrow> send_http_header 301 (Some 0) (Some (location_line (pg @ ''/''))) True (-1) c w;
            Some (0, c1, w1)
          }
          else do {
            (found, c1, w1) \<leftarrow> find_index (indexes conf) c w;
            case found of
              Some x \<Rightarrow> do {
                (_, c2, w2) \<leftarrow> send_http_header 303 (Some 0) (Some (location_line (pg @ x))) True (-1) c1 w1;
                Some (0, c2, w2)
              }
            | None \<Rightarrow> do {
                m \<leftarrow> c_poke (strfile c1) (strfile_len c1) NUL;
                write_dir (p_magic P) (p_date P) conf (p_cachedir P) (p_dir_stat P) (p_dir_blocks P) (basedir c1)
                  (c1\<lparr>strfile := m\<rparr>) w1
              }
          }
        }
      else do {
        prog \<leftarrow> (if exec_script conf then find_cgi (cgi_paths conf) c else Some None);
        case prog of
          Some executor \<Rightarrow> exec_page (p_script P) conf (p_loc_addr P) executor post_param (basedir c) c w
        | None \<Rightarrow> write_file (p_magic P) conf c w
      })"

subsection \<open>A request\<close>

definition with_connection :: "connection_t \<Rightarrow> (int \<times> world) option \<Rightarrow> (int \<times> connection_t \<times> world) option" where
  "with_connection c r = map_option (\<lambda>(n, w). (n, c, w)) r"

definition other_method :: "platform \<Rightarrow> weborf_configuration_t \<Rightarrow> connection_t \<Rightarrow> world \<Rightarrow>
    (int \<times> connection_t \<times> world) option" where
  "other_method P conf c w =
     (if method_id c = PUT then with_connection c (read_file conf c w)
      else if method_id c = DELETE then with_connection c (delete_file (p_depth P) conf c w)
      else if method_id c = OPTIONS then options c w
      else if method_id c = PROPFIND then do {
        (body, w1) \<leftarrow> read_post_data c w;
        propfind (p_magic P) (p_date P) conf (p_cachedir P) (p_dav_stk P) (p_body_tail P) c body w1
      }
      else if method_id c = MKCOL then with_connection c (mkcol conf c w)
      else if method_id c = COPY \<or> method_id c = MOVE
        then with_connection c (copy_move (p_depth P) (p_move_stk P) (p_move_stat P) c w)
      else Some (0, c, w))"

text \<open>\<open>send_page\<close> between the check of the credentials and the label \<open>escape\<close>.\<close>

definition serve_page :: "platform \<Rightarrow> weborf_configuration_t \<Rightarrow> connection_t \<Rightarrow> world \<Rightarrow>
    (int \<times> connection_t \<times> world) option" where
  "serve_page P conf c w = do {
     pg \<leftarrow> cstr (buf c) (page c);
     m \<leftarrow> c_write (strfile c) 0 (take (URI_LEN - 1) (basedir c @ pg) @ [NUL]);
     let c1 = c\<lparr>strfile := m, strfile_len := length (basedir c @ pg)\<rparr>;
     if PUT \<le> method_id c1 then other_method P conf c1 w
     else do {
       (body, w1) \<leftarrow> (if method_id c1 = POST then read_post_data c1 w else Some (\<lparr>len = 0, data = None\<rparr>, w));
       file \<leftarrow> cstr m 0;
       case sys_open_read file w1 of
         (Inl _, w2) \<Rightarrow> Some (ERR_FILENOTFOUND, c1\<lparr>strfile_fd := -1\<rparr>, w2)
       | (Inr d, w2) \<Rightarrow> do {
           st \<leftarrow> sys_fstat d w2;
           get_or_post P conf body (c1\<lparr>strfile_fd := d, strfile_stat := st\<rparr>) w2
         }
     }
   }"

text \<open>
  A refused GET or POST closes the descriptor of the request before it, or the one that
  uninitialised memory names.
\<close>

definition send_page :: "platform \<Rightarrow> weborf_configuration_t \<Rightarrow> connection_t \<Rightarrow> world \<Rightarrow>
    (int \<times> connection_t \<times> world) option" where
  "send_page P conf c w = do {
     (auth, w1) \<leftarrow> auth_check_request (p_provider P) conf (p_auth_stk P) c w;
     (retval, c1, w2) \<leftarrow>
       (if auth \<noteq> 0 then do { (_, w2) \<leftarrow> read_post_data c w1; Some (ERR_NOAUTH, c, w2) }
        else serve_page P conf c w1);
     send_error_header retval c1
       (if (method_id c1 = GET \<or> method_id c1 = POST) \<and> 0 \<le> strfile_fd c1 then sys_close (strfile_fd c1) w2 else w2)
   }"

subsection \<open>A connection\<close>

text \<open>The code 400 is not a result of the handlers, so this sends nothing.\<close>

definition bad_request :: "cmem \<Rightarrow> nat \<Rightarrow> connection_t \<Rightarrow> world \<Rightarrow> (cmem \<times> nat \<times> connection_t \<times> world) option" where
  "bad_request m bufFull c w = do { (_, c1, w1) \<leftarrow> send_error_header 400 c w; Some (m, bufFull, c1, w1) }"

partial_function (option) handle_requests :: "platform \<Rightarrow> weborf_configuration_t \<Rightarrow> (string \<times> string) list \<Rightarrow> cmem \<Rightarrow> nat \<Rightarrow>
    connection_t \<Rightarrow> world \<Rightarrow> (cmem \<times> nat \<times> connection_t \<times> world) option" where
  "handle_requests pl conf ev m bufFull c w = do {
     (r, m1, full1, w1) \<leftarrow> read_header (clear_request m bufFull) 0 0 w;
     case r of
       header_result.Closed \<Rightarrow> Some (m1, full1, c, w1)
     | Full \<Rightarrow> bad_request m1 full1 c w1
     | Header e from \<Rightarrow> do {
         (m2, full2, w2) \<leftarrow> finish_header e from m1 full1 w1;
         parsed \<leftarrow> parse_request m2 c;
         case parsed of
           None \<Rightarrow> bad_request m2 full2 c w2
         | Some c1 \<Rightarrow> do {
             c2 \<leftarrow> set_connection_props conf ev c1;
             (res, c3, w3) \<leftarrow> send_page pl conf c2 w2;
             if res < 0 \<or> \<not> keep_alive c3 then Some (buf c3, full2, c3, w3)
             else handle_requests pl conf ev (buf c3) full2 c3 w3
           }
       }
   }"

text \<open>What a thread does with one socket: the buffers are kept for the next one.\<close>

definition serve_connection :: "platform \<Rightarrow> weborf_configuration_t \<Rightarrow> (string \<times> string) list \<Rightarrow> string \<Rightarrow> cmem \<Rightarrow> nat \<Rightarrow>
    connection_t \<Rightarrow> world \<Rightarrow> (cmem \<times> nat \<times> connection_t \<times> world) option" where
  "serve_connection P conf ev ip m bufFull c w = do {
     (m1, full1, c1, w1) \<leftarrow> handle_requests P conf ev m bufFull (c\<lparr>ip_addr := ip\<rparr>) w;
     Some (m1, full1, c1, w1\<lparr>reader := buffer_reset (reader w1)\<rparr>)
   }"

text \<open>
  \<open>inetd\<close>: one connection on descriptor 0, then the exit status. \<open>block\<close> and \<open>name\<close> are the
  bytes of the two blocks that are not cleared, \<open>c\<close> the uninitialised structure.
\<close>

definition inetd :: "platform \<Rightarrow> weborf_configuration_t \<Rightarrow> (string \<times> string) list \<Rightarrow> int \<Rightarrow> string \<Rightarrow> cmem \<Rightarrow> cmem \<Rightarrow>
    connection_t \<Rightarrow> world \<Rightarrow> (int \<times> world) option" where
  "inetd P conf ev mime_res ip block name c w =
     (let (ok1, w1) = malloc w; (ok2, w2) = malloc w1 in
      if mime_res \<noteq> 0 then Some (1, w2)
      else
        (let (ok3, w3) = malloc w2;
             (res, b) = buffer_init BUFFERED_READER_SIZE (if ok3 then Some block else None)
         in if res \<noteq> 0 \<or> \<not> ok1 \<or> \<not> ok2 then Some (1, w3)
            else do {
              (_, _, _, w4) \<leftarrow> handle_requests P conf ev (replicate (INBUFFER + 1) NUL) 0
                (c\<lparr>ip_addr := ip, strfile := name\<rparr>) (w3\<lparr>reader := b\<rparr>);
              Some (0, w4)
            }))"

subsection \<open>Lemmas: PUT\<close>

lemma read_file_loop_ok:
  assumes "healthy w" and "reader_ok w" and "map_of (fds w) d = Some f"
    and "lookup (fs w) (o_path f) = Some j" and "o_pos f \<le> length (i_data j)" and "n \<le> length (incoming w)"
  shows "\<exists>X b evs. read_file_loop d (int (tot + n)) (int tot) ret w =
      Some (ret, w\<lparr>fs := fs_set_data (o_path f) (\<lambda>old. overwrite old (o_pos f) (take n (incoming w))) (fs w),
        fds := X, reader := b, input := evs\<rparr>) \<and>
    AList.delete d X = AList.delete d (fds w) \<and> stream (b, evs) = drop n (incoming w) \<and> reader_inv (b, evs)"
  using assms
proof (induction n arbitrary: tot w f j rule: less_induct)
  case (less n)
  show ?case
  proof (cases "n = 0")
    case True
    have "fs_set_data (o_path f) (\<lambda>old. overwrite old (o_pos f) []) (fs w) = fs w"
      using less.prems by (intro set_data_id) (simp add: overwrite_nil)
    then show ?thesis using True less.prems(2)
      by (subst read_file_loop.simps)
        (auto simp: incoming_def reader_ok_def intro!: exI [of _ "fds w"] exI [of _ "reader w"] exI [of _ "input w"])
  next
    case False
    define k where "k = min FILEBUF n"
    have k: "0 < k" "k \<le> n" "nat (min (int FILEBUF) (int (tot + n) - int tot)) = k"
      "0 < min (int FILEBUF) (int (tot + n) - int tot)"
      using False by (auto simp: k_def FILEBUF_def)
    have kin: "k \<le> length (incoming w)" using k less.prems(6) by simp
    obtain w1 where w1: "client_read k w = (take k (incoming w), w1)" "incoming w1 = drop k (incoming w)"
      "reader_ok w1" "\<exists>b evs. w1 = w\<lparr>reader := b, input := evs\<rparr>"
      using client_read_ok [OF less.prems(2) kin] by blast
    let ?s = "take k (incoming w)"
    have ls: "length ?s = k" using kin by simp
    let ?g = "\<lambda>old. overwrite old (o_pos f) ?s"
    let ?f = "f\<lparr>o_pos := o_pos f + k\<rparr>"
    let ?w2 = "w1\<lparr>fs := fs_set_data (o_path f) ?g (fs w1), fds := AList.update d ?f (fds w1)\<rparr>"
    have fr: "fs w1 = fs w" "fds w1 = fds w" "healthy w1" using w1(4) less.prems(1) by auto
    have wr: "sys_write d ?s w1 = (int k, ?w2)"
      using sys_write_ok [OF fr(3), of d f ?s] less.prems(3) fr ls by simp
    have in2: "incoming ?w2 = drop k (incoming w)" using w1(2) by (simp add: incoming_def)
    let ?j = "j\<lparr>i_data := ?g (i_data j)\<rparr>"
    have pre: "n - k < n" "healthy ?w2" "reader_ok ?w2" "map_of (fds ?w2) d = Some ?f"
      "lookup (fs ?w2) (o_path ?f) = Some ?j" "o_pos ?f \<le> length (i_data ?j)" "n - k \<le> length (incoming ?w2)"
      using k(1,2) fr(3) w1(3) less.prems(4-6) fr(1) ls in2
      by (simp_all add: reader_ok_def update_conv lookup_set_data overwrite_def)
    obtain X b evs where X: "read_file_loop d (int ((tot + k) + (n - k))) (int (tot + k)) ret ?w2 =
        Some (ret, ?w2\<lparr>fs := fs_set_data (o_path ?f) (\<lambda>old. overwrite old (o_pos ?f) (take (n - k) (incoming ?w2))) (fs ?w2),
          fds := X, reader := b, input := evs\<rparr>)"
      "AList.delete d X = AList.delete d (fds ?w2)" "stream (b, evs) = drop (n - k) (incoming ?w2)" "reader_inv (b, evs)"
      using less.IH [OF pre, of "tot + k"] by blast
    have tk: "take k (incoming w) @ take (n - k) (drop k (incoming w)) = take n (incoming w)"
      using k(2) by (metis le_add_diff_inverse take_add)
    have fs2: "fs_set_data (o_path ?f) (\<lambda>old. overwrite old (o_pos ?f) (take (n - k) (incoming ?w2))) (fs ?w2) =
        fs_set_data (o_path f) (\<lambda>old. overwrite old (o_pos f) (take n (incoming w))) (fs w)"
      using overwrite_append [of _ "o_pos f" ?s "take (n - k) (drop k (incoming w))"] ls tk fr(1) in2
      by (simp add: set_data_twice)
    have "read_file_loop d (int (tot + n)) (int tot) ret w =
        read_file_loop d (int ((tot + k) + (n - k))) (int (tot + k)) ret ?w2"
    proof -
      have tot: "int tot + int k = int (tot + k)" "tot + k + (n - k) = tot + n" using k(2) by simp_all
      show ?thesis
        unfolding tot(2) using k(4)
        by (subst read_file_loop.simps) (simp only: if_True k(3) w1(1) prod.case wr ls tot(1) simp_thms if_False)
    qed
    moreover have "stream (b, evs) = drop n (incoming w)" using X(3) in2 k(2) by simp
    ultimately show ?thesis using X(1,2,4) fs2 w1(4)
      by (auto simp: delete_update_same fr(2) intro!: exI [of _ X] exI [of _ b] exI [of _ evs])
  qed
qed

lemma truncated_overwrite: "length s = n \<Longrightarrow> overwrite (truncated old n) 0 s = s"
  by (simp add: overwrite_def truncated_def)

lemma read_file_ok:
  assumes w: "healthy w" "reader_ok w" and auth: "authsock conf \<noteq> None"
    and cl: "get_param_value (buf c) (http_param c) ''Content-Length'' NBUFFER 14 = Some (Some (show_nat n))"
    and n: "n \<le> length (incoming w)" "n < 2 ^ 63"
    and p: "cstr (strfile c) 0 = Some file" "resolve (fs w) (cwd w) file = Inr p" "\<not> dir_at (fs w) p"
  shows "\<exists>w' j. read_file conf c w = Some (if lookup (fs w) p \<noteq> None then OK_NOCONTENT else OK_CREATED, w') \<and>
    lookup (fs w') p = Some j \<and> \<not> is_dir j \<and> i_data j = take n (incoming w) \<and>
    i_stat j = (case lookup (fs w) p of None \<Rightarrow> i_stat (new_inode (S_IFREG OR 0x180) p w) | Some i \<Rightarrow> i_stat i) \<and>
    (\<forall>q. q \<noteq> p \<longrightarrow> lookup (fs w') q = lookup (fs w) q) \<and> fds w' = fds w \<and> cwd w' = cwd w \<and> sent w' = sent w \<and>
    healthy w' \<and> reader_ok w' \<and> incoming w' = drop n (incoming w)"
proof -
  let ?ret = "if lookup (fs w) p \<noteq> None then OK_NOCONTENT else OK_CREATED"
  let ?tr = "if lookup (fs w) p = None then AList.update p (new_inode (S_IFREG OR 0x180) p w) (fs w) else fs w"
  let ?i = "if lookup (fs w) p = None then next_ino w + 1 else next_ino w"
  let ?d = "new_fd w" and ?f = "\<lparr>o_path = p, o_pos = 0\<rparr>"
  let ?w1 = "w\<lparr>fs := ?tr, next_ino := ?i, fds := (?d, ?f) # fds w\<rparr>"
  let ?w2 = "?w1\<lparr>fs := fs_set_data p (\<lambda>s. truncated s n) ?tr\<rparr>"
  have v: "c_strtol 0 (show_nat n) = int n"
    using c_strtol_0_show [of n "[]"] below_LONG_MAX [OF n(2)] by simp
  note ex = file_exists_ok [OF w(1) p(2)]
  have op: "sys_open_creat file w = (Inr ?d, ?w1)"
    using w p by (auto simp: sys_open_creat_def on_path_def healthy_simps add_fd_def new_fd_def dir_at_def
        split: option.splits)
  have tc: "sys_ftruncate ?d (int n) ?w1 = (Inr (), ?w2)"
    using w(1) by (simp add: sys_ftruncate_def healthy_simps)
  obtain j where j: "lookup ?tr p = Some j" "\<not> is_dir j"
    "i_stat j = (case lookup (fs w) p of None \<Rightarrow> i_stat (new_inode (S_IFREG OR 0x180) p w) | Some i \<Rightarrow> i_stat i)"
    using p(3) by (cases "lookup (fs w) p") (auto simp: lookup_update dir_at_def)
  have "healthy ?w2" "reader_ok ?w2" "incoming ?w2 = incoming w"
    using w by (simp_all add: reader_ok_def incoming_def)
  then obtain X b evs where X: "read_file_loop ?d (int n) 0 ?ret ?w2 =
      Some (?ret, ?w2\<lparr>fs := fs_set_data p (\<lambda>old. overwrite old 0 (take n (incoming w))) (fs ?w2),
        fds := X, reader := b, input := evs\<rparr>)"
    "AList.delete ?d X = AList.delete ?d (fds ?w2)" "stream (b, evs) = drop n (incoming w)" "reader_inv (b, evs)"
    using read_file_loop_ok [of ?w2 ?d ?f "j\<lparr>i_data := truncated (i_data j) n\<rparr>" n 0 ?ret] n(1) j(1)
    by (auto simp: lookup_set_data)
  let ?w3 = "?w2\<lparr>fs := fs_set_data p (\<lambda>old. overwrite old 0 (take n (incoming w))) (fs ?w2),
        fds := AList.delete ?d X, reader := b, input := evs\<rparr>"
  have "?d \<notin> fst ` set (fds w)" by (rule new_fd_fresh)
  then have fd: "AList.delete ?d X = fds w" using X(2) by (simp add: delete_id)
  have run: "read_file conf c w = Some (?ret, ?w3)"
    unfolding read_file_def if_not_P [OF auth] cl bind.bind_lunit option.case p(1) Let_def ex prod.case op v tc sum.case
      healthy_simps(2) [OF \<open>healthy ?w2\<close>] not_True_eq_False if_False X(1) sys_close_def
    by simp
  show ?thesis
    using j fd X(3,4) w(1) n(1)
    by (intro exI [of _ ?w3] exI [of _ "j\<lparr>i_data := take n (incoming w)\<rparr>"] conjI)
      (auto simp: run lookup_set_data truncated_overwrite lookup_update is_dir_def reader_ok_def incoming_def)
qed


text \<open>When the client closes the connection before the end of the body, the loop never ends.\<close>

definition hung_up :: "world \<Rightarrow> bool" where
  "hung_up w \<longleftrightarrow> input w = [] \<and> rstart (reader w) = rend (reader w)"

lemma hung_up_read:
  assumes "hung_up w"
  shows "\<exists>b. client_read n w = ([], w\<lparr>reader := b\<rparr>) \<and> rstart b = rend b"
proof -
  have r: "rstart (reader w) = rend (reader w)" and i: "input w = []" using assms by (auto simp: hung_up_def)
  have "\<exists>b. buffer_read_loop [] (reader w) n [] = ([], b, []) \<and> rstart b = rend b"
    using r by (subst buffer_read_loop.simps) (auto simp: buffer_fill_def Let_def)
  then obtain b where b: "buffer_read_loop [] (reader w) n [] = ([], b, [])" "rstart b = rend b" by blast
  have "w\<lparr>reader := b, input := []\<rparr> = w\<lparr>reader := b\<rparr>" using i by (cases w) simp
  then have "client_read n w = ([], w\<lparr>reader := b\<rparr>)" using i b(1) by (simp only: client_read_def buffer_read_def fst_conv snd_conv prod.case)
  then show ?thesis using b(2) by blast
qed

lemma read_file_loop_never_ends:
  assumes "healthy w" and "hung_up w" and "map_of (fds w) d \<noteq> None" and "tot < content_l"
  shows "read_file_loop d content_l tot ret w = None"
proof -
  let ?P = "\<lambda>d content_l tot ret w (r :: int \<times> world). \<not> (healthy w \<and> hung_up w \<and> map_of (fds w) d \<noteq> None \<and> tot < content_l)"
  have "?P d content_l tot ret w r" if "read_file_loop d content_l tot ret w = Some r" for r
  proof (rule read_file_loop.raw_induct [where P = ?P, OF _ that], rule notI, elim conjE)
    fix rec :: "int \<Rightarrow> int \<Rightarrow> int \<Rightarrow> int \<Rightarrow> world \<Rightarrow> (int \<times> world) option" and d content_l tot ret w r
    assume IH: "\<And>d content_l tot ret w r. rec d content_l tot ret w = Some r \<Longrightarrow> ?P d content_l tot ret w r"
      and run: "(if 0 < min (int FILEBUF) (content_l - tot)
        then (case client_read (nat (min (int FILEBUF) (content_l - tot))) w of
              (s, w1) \<Rightarrow>
                (case sys_write d s w1 of
                   (wrote, w2) \<Rightarrow>
                     if wrote \<noteq> int (length s) then Some (ERR_BRKPIPE, w2)
                     else rec d content_l (tot + int (length s)) ret w2))
        else Some (ret, w)) = Some r"
      and w: "healthy w" "hung_up w" "map_of (fds w) d \<noteq> None" "tot < content_l"
    obtain b where b: "client_read (nat (min (int FILEBUF) (content_l - tot))) w = ([], w\<lparr>reader := b\<rparr>)" "rstart b = rend b"
      using hung_up_read [OF w(2)] by blast
    obtain f where f: "map_of (fds w) d = Some f" using w(3) by auto
    let ?w1 = "w\<lparr>reader := b\<rparr>"
    let ?w2 = "?w1\<lparr>fs := fs_set_data (o_path f) (\<lambda>old. overwrite old (o_pos f) []) (fs w),
        fds := AList.update d (f\<lparr>o_pos := o_pos f + 0\<rparr>) (fds w)\<rparr>"
    have "sys_write d [] ?w1 = (0, ?w2)" using sys_write_ok [of ?w1 d f "[]"] w(1) f by simp
    then have "rec d content_l tot ret ?w2 = Some r" using run b(1) w(4) by (simp add: FILEBUF_def)
    then have "?P d content_l tot ret ?w2 r" by (rule IH)
    then show False using w b(2) by (simp add: hung_up_def update_conv)
  qed
  then show ?thesis using assms by (cases "read_file_loop d content_l tot ret w") auto
qed

subsection \<open>Lemmas: DELETE\<close>

lemma delete_file_ok:
  assumes w: "healthy w" "fs_ok (fs w)" and auth: "authsock conf \<noteq> None"
    and p: "cstr (strfile c) 0 = Some file" "names_path file p" "p \<noteq> []" "p \<in> fst ` set (fs w)"
      "last file = CHR ''/'' \<Longrightarrow> dir_at (fs w) p" "dir_at (fs w) p \<Longrightarrow> fits k file p (fs w)"
  shows "delete_file k conf c w = Some (OK_NOCONTENT, w\<lparr>fs := without p (fs w)\<rparr>)"
proof -
  have res: "resolve (fs w) (cwd w) file = Inr p" using w(2) p by (intro resolve_names) auto
  obtain i where i: "lookup (fs w) p = Some i" using p(4) lookup_iff [of "fs w" p] by auto
  have st: "sys_stat file w = (Inr (stat_of i), w)"
    using w(1) res i by (simp add: sys_stat_def on_path_def healthy_simps)
  have mode: "S_ISDIR (st_mode (stat_of i)) \<longleftrightarrow> dir_at (fs w) p"
    using i by (simp add: stat_of_def dir_at_def is_dir_def)
  show ?thesis
  proof (cases "dir_at (fs w) p")
    case True
    then have "dir_remove k file w = Some (0, w\<lparr>fs := without p (fs w)\<rparr>)"
      using w p by (intro dir_remove_ok) auto
    then show ?thesis using auth p(1) st mode True by (simp add: delete_file_def)
  next
    case False
    then have "fs_unlink p (fs w) = Inr (without p (fs w))"
      using i delete_file_without [OF w(2) False] by (simp add: fs_unlink_def dir_at_def)
    then show ?thesis
      using auth p(1) st mode False sys_unlink_ok [OF w(1) res] by (simp add: delete_file_def with_fs_def)
  qed
qed

subsection \<open>Lemmas: a request\<close>

text \<open>The file that a request names, in a buffer that has room for it.\<close>

definition asks_for :: "connection_t \<Rightarrow> string \<Rightarrow> bool" where
  "asks_for c file \<longleftrightarrow> map_option ((@) (basedir c)) (cstr (buf c) (page c)) = Some file \<and>
     length (strfile c) = URI_LEN \<and> length file < URI_LEN \<and> NUL \<notin> set file"

lemma name_is_written:
  assumes "asks_for c file"
  obtains pg m where "cstr (buf c) (page c) = Some pg" and "file = basedir c @ pg"
    and "c_write (strfile c) 0 (take (URI_LEN - 1) file @ [NUL]) = Some m"
    and "cstr m 0 = Some file" and "length m = URI_LEN"
proof -
  obtain pg where pg: "cstr (buf c) (page c) = Some pg" "file = basedir c @ pg"
    using assms by (auto simp: asks_for_def)
  have t: "take (URI_LEN - 1) file = file"
    by (rule take_all) (use assms in \<open>simp add: asks_for_def URI_LEN_def\<close>)
  have "c_write (strfile c) 0 (file @ [NUL]) = Some ([] @ file @ NUL # drop (length file + 1) (strfile c))"
    using assms by (simp add: c_write_def asks_for_def)
  moreover have "cstr ([] @ file @ NUL # drop (length file + 1) (strfile c)) 0 = Some file"
    using assms cstr_append [of "file" "[]"] by (simp add: asks_for_def)
  moreover have "length ([] @ file @ NUL # drop (length file + 1) (strfile c)) = URI_LEN"
    using assms by (simp add: asks_for_def)
  ultimately show thesis using that pg t by metis
qed

lemma send_page_granted:
  assumes "auth_check_request (p_provider P) conf (p_auth_stk P) c w = Some (0, w1)"
    and "serve_page P conf c w1 = Some (r, c1, w2)"
  shows "send_page P conf c w = send_error_header r c1
       (if (method_id c1 = GET \<or> method_id c1 = POST) \<and> 0 \<le> strfile_fd c1 then sys_close (strfile_fd c1) w2 else w2)"
  using assms by (simp add: send_page_def)

lemma serve_page_other:
  assumes "asks_for c file" and "PUT \<le> method_id c"
  obtains m where "serve_page P conf c w = other_method P conf (c\<lparr>strfile := m, strfile_len := length file\<rparr>) w"
    and "cstr m 0 = Some file" and "length m = URI_LEN"
proof -
  obtain pg m where m: "cstr (buf c) (page c) = Some pg" "file = basedir c @ pg"
    "c_write (strfile c) 0 (take (URI_LEN - 1) file @ [NUL]) = Some m" "cstr m 0 = Some file" "length m = URI_LEN"
    by (rule name_is_written [OF assms(1)])
  show thesis
    using that [OF _ m(4,5)] assms(2) m(1,3)
    unfolding serve_page_def m(1) bind.bind_lunit m(2) [symmetric] m(3) Let_def by simp
qed

text \<open>The two answers without a body.\<close>

lemma short_answer:
  assumes "healthy w" and "r = OK_CREATED \<and> code = 201 \<or> r = OK_NOCONTENT \<and> code = 204"
  shows "\<exists>h ls. send_error_header r c w = Some (0, c\<lparr>status_code := code\<rparr>, w\<lparr>sent := sent w @ h\<rparr>) \<and>
    read_head h = Some (ls, []) \<and> status_of ls = code"
proof -
  let ?ls = "head_lines code None [] True (-1) c"
  have code: "0 \<le> code" "code < 1000" "\<bar>code\<bar> < 1000" using assms(2) by auto
  have "send_http_header code None None True (-1) c w =
      Some (0, c\<lparr>status_code := code\<rparr>, w\<lparr>sent := sent w @ http_head ?ls\<rparr>)"
    using assms(1) code by (intro send_http_header_ok head_lines_short) (simp_all add: header_text_def)
  moreover have "read_head (http_head ?ls) = Some (?ls, [])"
    using read_head_http_head [OF head_lines_good, of "[]" code None True "-1" c "[]"] by simp
  moreover have "status_of ?ls = code" using code by (intro status_of_head_lines)
  moreover have "send_error_header r c w = send_http_header code None None True (-1) c w"
    using assms(2) by (elim disjE conjE) (simp_all add: send_error_header_def)
  ultimately show ?thesis by metis
qed

lemma put_ok:
  assumes w: "healthy w" "reader_ok w" and auth: "authsock conf \<noteq> None"
      "auth_check_request (p_provider P) conf (p_auth_stk P) c w = Some (0, w)"
    and c: "asks_for c file" "method_id c = PUT"
    and cl: "get_param_value (buf c) (http_param c) ''Content-Length'' NBUFFER 14 = Some (Some (show_nat n))"
    and n: "n \<le> length (incoming w)" "n < 2 ^ 63"
    and p: "resolve (fs w) (cwd w) file = Inr p" "\<not> dir_at (fs w) p"
  shows "\<exists>h ls c' w' j. send_page P conf c w = Some (0, c', w') \<and> sent w' = sent w @ h \<and>
    read_head h = Some (ls, []) \<and> status_of ls = (if lookup (fs w) p \<noteq> None then 204 else 201) \<and>
    lookup (fs w') p = Some j \<and> \<not> is_dir j \<and> i_data j = take n (incoming w) \<and>
    i_stat j = (case lookup (fs w) p of None \<Rightarrow> i_stat (new_inode (S_IFREG OR 0x180) p w) | Some i \<Rightarrow> i_stat i) \<and>
    (\<forall>q. q \<noteq> p \<longrightarrow> lookup (fs w') q = lookup (fs w) q) \<and> fds w' = fds w \<and> cwd w' = cwd w \<and>
    healthy w' \<and> reader_ok w' \<and> incoming w' = drop n (incoming w)"
proof -
  let ?r = "if lookup (fs w) p \<noteq> None then OK_NOCONTENT else OK_CREATED"
  let ?code = "if lookup (fs w) p \<noteq> None then 204 else 201 :: int"
  have "PUT \<le> method_id c" using c(2) by simp
  then obtain m where m: "serve_page P conf c w = other_method P conf (c\<lparr>strfile := m, strfile_len := length file\<rparr>) w"
    "cstr m 0 = Some file" using serve_page_other [OF c(1)] by metis
  let ?c = "c\<lparr>strfile := m, strfile_len := length file\<rparr>"
  obtain w' j where w': "read_file conf ?c w = Some (?r, w')"
    "lookup (fs w') p = Some j" "\<not> is_dir j" "i_data j = take n (incoming w)"
    "i_stat j = (case lookup (fs w) p of None \<Rightarrow> i_stat (new_inode (S_IFREG OR 0x180) p w) | Some i \<Rightarrow> i_stat i)"
    "\<forall>q. q \<noteq> p \<longrightarrow> lookup (fs w') q = lookup (fs w) q" "fds w' = fds w" "cwd w' = cwd w" "sent w' = sent w" "healthy w'" "reader_ok w'"
    "incoming w' = drop n (incoming w)"
    using read_file_ok [OF w auth(1) _ n _ p, of ?c] cl m(2) by auto
  have "serve_page P conf c w = Some (?r, ?c, w')"
    using m(1) w'(1) c(2) by (simp add: other_method_def with_connection_def)
  then have sp: "send_page P conf c w = send_error_header ?r ?c w'"
    using send_page_granted [OF auth(2)] c(2) by simp
  obtain h ls where "send_error_header ?r ?c w' = Some (0, ?c\<lparr>status_code := ?code\<rparr>, w'\<lparr>sent := sent w' @ h\<rparr>)"
    "read_head h = Some (ls, [])" "status_of ls = ?code"
    using short_answer [OF w'(10), of ?r ?code ?c] by (cases "lookup (fs w) p") auto
  then show ?thesis
    using sp w'(2-12)
    by (intro exI [of _ h] exI [of _ ls] exI [of _ "?c\<lparr>status_code := ?code\<rparr>"] exI [of _ "w'\<lparr>sent := sent w' @ h\<rparr>"]
        exI [of _ j]) (simp add: reader_ok_def incoming_def)
qed


lemma delete_ok:
  assumes w: "healthy w" "fs_ok (fs w)" and auth: "authsock conf \<noteq> None"
      "auth_check_request (p_provider P) conf (p_auth_stk P) c w = Some (0, w)"
    and c: "asks_for c file" "method_id c = DELETE"
    and p: "names_path file p" "p \<noteq> []" "p \<in> fst ` set (fs w)"
      "last file = CHR ''/'' \<Longrightarrow> dir_at (fs w) p" "dir_at (fs w) p \<Longrightarrow> fits (p_depth P) file p (fs w)"
  shows "\<exists>h ls c'. send_page P conf c w = Some (0, c', w\<lparr>fs := without p (fs w), sent := sent w @ h\<rparr>) \<and>
    read_head h = Some (ls, []) \<and> status_of ls = 204"
proof -
  have "PUT \<le> method_id c" using c(2) by simp
  then obtain m where m: "serve_page P conf c w = other_method P conf (c\<lparr>strfile := m, strfile_len := length file\<rparr>) w"
    "cstr m 0 = Some file" using serve_page_other [OF c(1)] by metis
  let ?c = "c\<lparr>strfile := m, strfile_len := length file\<rparr>" and ?w = "w\<lparr>fs := without p (fs w)\<rparr>"
  have "delete_file (p_depth P) conf ?c w = Some (OK_NOCONTENT, ?w)"
    using w auth(1) p m(2) by (intro delete_file_ok) simp_all
  then have "serve_page P conf c w = Some (OK_NOCONTENT, ?c, ?w)"
    using m(1) c(2) by (simp add: other_method_def with_connection_def)
  then have "send_page P conf c w = send_error_header OK_NOCONTENT ?c ?w"
    using send_page_granted [OF auth(2)] c(2) by simp
  then show ?thesis using short_answer [of ?w OK_NOCONTENT 204 ?c] w(1) by auto
qed

text \<open>Without an authentication provider the methods that change files are refused.\<close>

lemma no_provider_no_writes:
  assumes "healthy w" and "authsock conf = None" and "asks_for c file"
    and "method_id c = PUT \<or> method_id c = DELETE \<or> method_id c = MKCOL"
  shows "\<exists>h c'. send_page P conf c w = Some (0, c', w\<lparr>sent := sent w @ h @ err_page 403 ''Forbidden''\<rparr>) \<and>
    parse_response (h @ err_page 403 ''Forbidden'' @ rest) = Some (403, err_page 403 ''Forbidden'', rest)"
proof -
  have "PUT \<le> method_id c" using assms(4) by auto
  then obtain m where m: "serve_page P conf c w = other_method P conf (c\<lparr>strfile := m, strfile_len := length file\<rparr>) w"
    using serve_page_other [OF assms(3)] by metis
  let ?c = "c\<lparr>strfile := m, strfile_len := length file\<rparr>"
  have "serve_page P conf c w = Some (ERR_FORBIDDEN, ?c, w)"
    using m assms(2,4) by (auto simp: other_method_def with_connection_def read_file_def delete_file_def mkcol_def)
  moreover have "auth_check_request (p_provider P) conf (p_auth_stk P) c w = Some (0, w)"
    using assms(2) by (simp add: auth_check_request_def)
  ultimately have "send_page P conf c w = send_error_header ERR_FORBIDDEN ?c w"
    using send_page_granted assms(4) by fastforce
  also have "\<dots> = send_err ?c 403 ''Forbidden'' w" by (simp add: send_error_header_def)
  finally show ?thesis using send_err_ok [OF assms(1), of 403 "''Forbidden''"] by auto
qed

text \<open>An unparsable request is answered by nothing: 400 is not one of the results that have an answer.\<close>

lemma bad_request_is_silent: "bad_request m n c w = Some (m, n, c, w)"
  by (simp add: bad_request_def send_error_header_def)

text \<open>
  The name of an index file is written behind the file name at the length that \<open>snprintf\<close>
  returned; when the name was longer than the buffer this is outside of it.
\<close>

lemma long_name_overruns:
  assumes "URI_LEN \<le> strfile_len c" and "length (strfile c) = URI_LEN"
  shows "find_index (x # xs) c w = None"
  using assms by (simp add: c_write_def)

lemma auth_granted:
  assumes "healthy w" and "cstr (buf c) (http_param c) = Some params" and "find_sub CREDENTIALS params = None"
    and "cstr (buf c) (page c) = Some pg" and "cstr (buf c) (req_method c) = Some meth"
    and "length (auth_text pg (ip_addr c) meth [] [] params) < AUTH_BUF" and "\<And>t. provider t = 0"
  shows "auth_check_request provider conf stk c w = Some (0, w)"
  using assms
  by (cases "authsock conf") (simp_all add: auth_check_request_def auth_credentials_def c_strstr_Some healthy_simps
      read_image_def snprintf_image_def)

subsection \<open>Examples\<close>

definition small_platform :: platform where
  "small_platform =
     \<lparr>p_magic = (\<lambda>_. ''text/plain''), p_date = (\<lambda>_. ''today''), p_provider = (\<lambda>_. 0), p_script = (\<lambda>_. []),
      p_tar = (\<lambda>_. ('''', 0)), p_loc_addr = ''::1'', p_cachedir = None, p_depth = 8,
      p_auth_stk = (replicate 600 NUL, replicate 600 NUL), p_dir_stat = stat_of a_dir,
      p_dir_blocks = ([], []), p_dav_stk = ([], []), p_body_tail = '''', p_move_stk = ('''', ''''),
      p_move_stat = stat_of a_dir\<rparr>"

definition auth_conf :: weborf_configuration_t where
  "auth_conf = small_conf\<lparr>authsock := Some ''/run/auth''\<rparr>"

text \<open>A connection with a request of this method and page, and one more header line.\<close>

definition request_for :: "int \<Rightarrow> string \<Rightarrow> string \<Rightarrow> string \<Rightarrow> connection_t" where
  "request_for mid meth pg line = small_connection
     \<lparr>buf := meth @ [NUL] @ pg @ [NUL] @ ''HTTP/1.1'' @ CRLF @ line @ CRLF @ [NUL],
      method_id := mid, page := length meth + 1, page_len := length pg, http_param := length meth + length pg + 2,
      strfile := replicate URI_LEN NUL\<rparr>"

subsection \<open>Properties\<close>

text \<open>
  Claim C10. A DELETE request that the provider grants is answered by 204 and removes exactly the
  file or the whole directory that it names, when its paths fit the buffers of the recursion.
\<close>

theorem delete_request_deletes:
  assumes "healthy w" and "fs_ok (fs w)" and "authsock conf \<noteq> None"
    and "auth_check_request (p_provider P) conf (p_auth_stk P) c w = Some (0, w)"
    and "asks_for c name" and "method_id c = DELETE"
    and "names_path name p" and "p \<noteq> []" and "p \<in> fst ` set (fs w)"
    and "last name = CHR ''/'' \<Longrightarrow> dir_at (fs w) p" and "dir_at (fs w) p \<Longrightarrow> fits (p_depth P) name p (fs w)"
  shows "\<exists>h ls c'. send_page P conf c w = Some (0, c', w\<lparr>fs := without p (fs w), sent := sent w @ h\<rparr>) \<and>
    read_head h = Some (ls, []) \<and> status_of ls = 204"
  using assms by (rule delete_ok)

theorem delete_request_deletes_witness:
  "\<exists>h ls c'. send_page small_platform auth_conf (request_for 3 ''DELETE'' ''/d'' ''X: y'') small_world =
      Some (0, c', small_world\<lparr>fs := without [''srv'', ''d''] (fs small_world), sent := sent small_world @ h\<rparr>) \<and>
    read_head h = Some (ls, []) \<and> status_of ls = 204"
proof (rule delete_request_deletes [where name = "''/srv/d''"])
  show "fs_ok (fs small_world)" by code_simp
  show "auth_check_request (p_provider small_platform) auth_conf (p_auth_stk small_platform)
      (request_for 3 ''DELETE'' ''/d'' ''X: y'') small_world = Some (0, small_world)"
    by (rule auth_granted [of _ _ "''HTTP/1.1'' @ CRLF @ ''X: y'' @ CRLF" "''/d''" "''DELETE''"])
      (simp_all add: request_for_def small_connection_def cstr_def CREDENTIALS_def auth_text_def AUTH_BUF_def
        HEADBUF_def PWDLIMIT_def small_platform_def)
  show "asks_for (request_for 3 ''DELETE'' ''/d'' ''X: y'') ''/srv/d''"
    by (simp add: asks_for_def request_for_def small_connection_def cstr_def URI_LEN_def)
  show "names_path ''/srv/d'' [''srv'', ''d'']" by code_simp
  show "[''srv'', ''d''] \<in> fst ` set (fs small_world)" by (simp add: small_world_def)
  show "fits (p_depth small_platform) ''/srv/d'' [''srv'', ''d''] (fs small_world)" by code_simp
qed (simp_all add: request_for_def auth_conf_def)


end
