(* ===== verification/Connection.thy ===== *)
theory Connection
  imports Instance
begin

section \<open>Connections: requests one after the other\<close>

text \<open>
  What a whole connection does. The first part is a frame: serving a file changes nothing but
  the bytes sent, its own descriptor and the outcome lists; checking and refusing a request
  changes no file. With it the second part composes reading, parsing, opening and sending into
  one statement about a pipelined connection, and the third is the rule that a client whom the
  provider refuses changes no file, whatever it sends.
\<close>

subsection \<open>The frame\<close>

lemma bind_SomeE: "Option.bind x f = Some y \<Longrightarrow> (\<And>a. x = Some a \<Longrightarrow> f a = Some y \<Longrightarrow> P) \<Longrightarrow> P"
  by (auto simp: bind_Some_iff)

text \<open>Nothing changes but what was sent, descriptor \<open>d\<close> and the lists of outcomes.\<close>

definition quiet :: "int \<Rightarrow> world \<Rightarrow> world \<Rightarrow> bool" where
  "quiet d w w' \<longleftrightarrow> fs w' = fs w \<and> cwd w' = cwd w \<and> env w' = env w \<and> reader w' = reader w \<and> input w' = input w \<and>
     AList.delete d (fds w') = AList.delete d (fds w) \<and> (healthy w \<longrightarrow> healthy w')"

text \<open>Nothing of the connection changes but the status.\<close>

definition same_request :: "connection_t \<Rightarrow> connection_t \<Rightarrow> bool" where
  "same_request c c' \<longleftrightarrow> (\<exists>n. c' = c\<lparr>status_code := n\<rparr>)"

lemma quiet_refl [simp]: "quiet d w w"
  by (simp add: quiet_def)

lemma quiet_trans [trans]: "quiet d w w' \<Longrightarrow> quiet d w' w'' \<Longrightarrow> quiet d w w''"
  by (simp add: quiet_def)

lemma same_request_refl [simp]: "same_request c c"
  unfolding same_request_def by (rule exI [of _ "status_code c"]) simp

lemma same_request_status [simp]: "same_request c (c\<lparr>status_code := n\<rparr>)"
  by (auto simp: same_request_def)

lemma same_request_trans [trans]: "same_request c c' \<Longrightarrow> same_request c' c'' \<Longrightarrow> same_request c c''"
  by (auto simp: same_request_def)

lemma same_request_fields:
  assumes "same_request c c'"
  shows "strfile_fd c' = strfile_fd c" and "buf c' = buf c" and "keep_alive c' = keep_alive c"
    and "method_id c' = method_id c" and "strfile c' = strfile c" and "ip_addr c' = ip_addr c"
  using assms by (auto simp: same_request_def)

named_theorems quiet_dests

lemma quiet_next_fault [quiet_dests]: "next_fault w = (f, w') \<Longrightarrow> quiet d w w'"
  by (auto simp: next_fault_def quiet_def healthy_def split: list.splits)

lemma quiet_malloc [quiet_dests]: "malloc w = (f, w') \<Longrightarrow> quiet d w w'"
  by (auto simp: malloc_def split: prod.splits dest: quiet_next_fault)

lemma quiet_next_write [quiet_dests]: "next_write n w = (r, w') \<Longrightarrow> quiet d w w'"
  by (auto simp: next_write_def quiet_def healthy_def split: list.splits)

lemma quiet_client_write [quiet_dests]: "client_write s w = (r, w') \<Longrightarrow> quiet d w w'"
  by (auto simp: client_write_def next_write_def quiet_def healthy_def split: list.splits)

lemma quiet_lseek [simp]: "quiet d w (sys_lseek d p w)"
  by (auto simp: sys_lseek_def quiet_def healthy_def delete_update_same split: option.splits)

lemma quiet_sys_read [quiet_dests]:
  assumes "sys_read d n w = (r, w')" shows "quiet d w w'"
proof -
  obtain f w1 where f: "next_fault w = (f, w1)" by fastforce
  then have "quiet d w w1" by (rule quiet_next_fault)
  moreover have "quiet d w1 w'"
    using assms f by (auto simp: sys_read_def Let_def split: option.splits if_splits)
  ultimately show ?thesis by (rule quiet_trans)
qed

lemma quiet_fd_copy_loop: "quiet d w (fd_copy_loop d Client cnt w)"
proof (induction "nat cnt" arbitrary: cnt w rule: less_induct)
  case less
  show ?case
  proof (cases "cnt \<le> 0")
    case False
    obtain r w1 where rd: "sys_read d (if int FILEBUF < cnt then FILEBUF else nat cnt) w = (r, w1)" by fastforce
    note q1 = quiet_sys_read [OF rd]
    show ?thesis
    proof (cases r)
      case (Some s)
      obtain n w2 where wr: "client_write s w1 = (n, w2)" by fastforce
      note q2 = quiet_trans [OF q1 quiet_client_write [OF wr]]
      have "s \<noteq> [] \<Longrightarrow> nat (cnt - int (length s)) < nat cnt" using False by (cases s) auto
      from less [OF this] have "s \<noteq> [] \<Longrightarrow> quiet d w2 (fd_copy_loop d Client (cnt - int (length s)) w2)" by blast
      then show ?thesis using q1 q2 quiet_trans [OF q2] False rd Some wr
        by (subst fd_copy_loop.simps) (simp add: myio_write_def)
    qed (use q1 False rd in \<open>subst fd_copy_loop.simps, simp\<close>)
  qed (simp add: fd_copy_loop.simps)
qed

lemma quiet_fd_copy [quiet_dests]: "fd_copy d Client cnt w = (r, w') \<Longrightarrow> quiet d w w'"
  using quiet_trans [OF quiet_malloc quiet_fd_copy_loop]
  by (fastforce simp: fd_copy_def split: prod.splits if_splits dest: quiet_malloc)

lemma quiet_send_http_header:
  assumes "send_http_header code sz hs content ts c w = Some (r, c', w')"
  shows "quiet d w w' \<and> same_request c c'"
proof -
  obtain ok w1 where ok: "malloc w = (ok, w1)" by fastforce
  note q = quiet_malloc [OF ok, of d]
  show ?thesis
  proof (cases ok)
    case False
    then have "c' = c\<lparr>status_code := code\<rparr>" "w' = w1" using assms ok by (auto simp: send_http_header_def)
    then show ?thesis using q by simp
  next
    case True
    then obtain bytes where "c' = c\<lparr>status_code := code\<rparr>" "w' = snd (client_write bytes w1)"
      using assms ok by (auto simp: send_http_header_def bind_Some_iff Let_def case_prod_beta)
    then show ?thesis using quiet_trans [OF q] quiet_client_write [OF prod.collapse [symmetric]] by simp
  qed
qed

lemma quiet_check_etag:
  assumes "check_etag c w = Some (r, c', w')" shows "quiet d w w' \<and> same_request c c'"
  using assms by (auto simp: check_etag_def bind_Some_iff Let_def split: option.split_asm if_split_asm
      dest!: quiet_send_http_header [where d = d])

lemma quiet_mime:
  assumes "mime_get_fd magic d sb w = Some (m, w')" shows "quiet d w w'"
proof -
  obtain r w2 where rd: "sys_read d 64 (sys_lseek d 0 w) = (r, w2)" by fastforce
  have "quiet d w (sys_lseek d p w2)" for p
    using quiet_trans [OF quiet_trans [OF quiet_lseek quiet_sys_read [OF rd]] quiet_lseek] .
  then show ?thesis
    using assms rd by (auto simp: mime_get_fd_def bind_Some_iff Let_def split: if_split_asm)
qed

lemma quiet_send_mime: "send_mime magic conf c hb w = Some (h, w') \<Longrightarrow> quiet (strfile_fd c) w w'"
  by (auto simp: send_mime_def bind_Some_iff split: if_splits dest: quiet_mime)

lemma quiet_bytes_to_send:
  assumes "bytes_to_send magic conf c w = Some (n, e, c', w')"
  shows "quiet (strfile_fd c) w w' \<and> same_request c c'"
proof -
  let ?d = "strfile_fd c"
  have step: "quiet ?d w w3 \<and> same_request c c3"
    if "quiet ?d w w1" and "send_mime magic conf c hb w1 = Some (h, w2)"
      and "send_http_header code sz hs True ts c w2 = Some (r, c3, w3)" for w1 w2 w3 c3 code sz hs ts r hb h
    using quiet_trans [OF quiet_trans [OF that(1) quiet_send_mime [OF that(2)]]] quiet_send_http_header [OF that(3), of ?d]
    by blast
  show ?thesis
    using assms unfolding bytes_to_send_def Let_def
    by (elim bind_SomeE) (auto elim!: bind_SomeE split: if_split_asm sum.split_asm
        intro: conjunct1 [OF step [OF quiet_lseek]] conjunct2 [OF step [OF quiet_lseek]]
          conjunct1 [OF step [OF quiet_refl]] conjunct2 [OF step [OF quiet_refl]])
qed

lemma quiet_write_file:
  assumes "write_file magic conf c w = Some (r, c', w')"
  shows "quiet (strfile_fd c) w w' \<and> same_request c c'"
proof -
  obtain r1 c1 w1 where e: "check_etag c w = Some (r1, c1, w1)" using assms by (auto simp: write_file_def bind_Some_iff)
  note q = quiet_check_etag [OF e, of "strfile_fd c"]
  show ?thesis
  proof (cases "r1 = 0")
    case False
    then obtain n err c2 w2 where b: "bytes_to_send magic conf c1 w1 = Some (n, err, c2, w2)"
      using assms e by (auto simp: write_file_def bind_Some_iff)
    have d1: "strfile_fd c1 = strfile_fd c" using q same_request_fields by blast
    note q2 = quiet_bytes_to_send [OF b, unfolded d1]
    have d2: "strfile_fd c2 = strfile_fd c" using q2 d1 same_request_fields by metis
    have "err = 0 \<Longrightarrow> fd_copy (strfile_fd c) Client (sint n) w2 = (r, w')" and "err \<noteq> 0 \<Longrightarrow> w' = w2" and "c' = c2"
      using assms e b False d2 by (auto simp: write_file_def split: prod.splits if_splits)
    then show ?thesis using q q2 quiet_fd_copy quiet_trans same_request_trans by (cases "err = 0") metis+
  qed (use assms e q in \<open>simp add: write_file_def\<close>)
qed

subsection \<open>GET\<close>

definition sendable :: "platform \<Rightarrow> inode \<Rightarrow> bool" where
  "sendable P i \<longleftrightarrow> \<not> is_dir i \<and> st_mode (i_stat i) AND S_IFREG \<noteq> 0 \<and> length (i_data i) < 2 ^ 63 \<and>
     good_line (p_magic P (take 64 (i_data i))) \<and> NUL \<notin> set (p_magic P (take 64 (i_data i))) \<and>
     length (p_magic P (take 64 (i_data i))) \<le> 20"

text \<open>A request without the fields that ask for something else than the whole file.\<close>

definition plain_request :: "connection_t \<Rightarrow> bool" where
  "plain_request c \<longleftrightarrow> get_param_value (buf c) (http_param c) ''If-None-Match'' RBUFFER 13 = Some None \<and>
     get_param_value (buf c) (http_param c) ''Range'' RBUFFER 5 = Some None"

lemma get_ok:
  assumes w: "healthy w" and auth: "auth_check_request (p_provider P) conf (p_auth_stk P) c w = Some (0, w)"
    and c: "asks_for c name" "method_id c = GET" "keep_alive c" "plain_request c"
    and p: "resolve (fs w) (cwd w) name = Inr p" "lookup (fs w) p = Some i" "sendable P i" and ex: "\<not> exec_script conf"
  shows "\<exists>h c' w'. send_page P conf c w = Some (0, c', w') \<and> sent w' = sent w @ h @ i_data i \<and>
    (\<forall>rest. parse_response (h @ i_data i @ rest) = Some (200, i_data i, rest)) \<and>
    quiet (-1) w w' \<and> buf c' = buf c \<and> keep_alive c' \<and> length (strfile c') = URI_LEN \<and>
    ip_addr c' = ip_addr c"
proof -
  obtain pg m where m: "cstr (buf c) (page c) = Some pg" "name = basedir c @ pg"
    "c_write (strfile c) 0 (take (URI_LEN - 1) name @ [NUL]) = Some m" "cstr m 0 = Some name" "length m = URI_LEN"
    by (rule name_is_written [OF c(1)])
  let ?d = "new_fd w"
  let ?w1 = "w\<lparr>fds := (?d, \<lparr>o_path = p, o_pos = 0\<rparr>) # fds w\<rparr>"
  let ?c = "c\<lparr>strfile := m, strfile_len := length name, strfile_fd := ?d, strfile_stat := stat_of i\<rparr>"
  have op: "sys_open_read name w = (Inr ?d, ?w1)"
    using w p by (simp add: sys_open_read_def on_path_def healthy_simps add_fd_def)
  have st: "sys_fstat ?d ?w1 = Some (stat_of i)" using p(2) by (simp add: sys_fstat_def fd_inode_def)
  have reg: "\<not> S_ISDIR (st_mode (stat_of i))" using p(3) by (simp add: stat_of_def sendable_def is_dir_def)
  have sv: "serves (p_magic P) ?c (i_data i) ?w1"
    using w c(3) p(2,3) by (simp add: serves_def fd_inode_def sendable_def stat_of_def)
  have aux: "\<exists>h c' w'. write_file (p_magic P) conf ?c ?w1 = Some (0, c', w') \<and>
      sent w' = sent w @ h @ i_data i \<and> parse_response (h @ i_data i @ rest) = Some (200, i_data i, rest)" for rest
    using write_file_whole_aux [OF sv, of conf rest] c(4) by (auto simp: plain_request_def)
  obtain h c' w' where wf: "write_file (p_magic P) conf ?c ?w1 = Some (0, c', w')" "sent w' = sent w @ h @ i_data i"
    using aux by blast
  have parse: "parse_response (h @ i_data i @ rest) = Some (200, i_data i, rest)" for rest
    using aux [of rest] wf by auto
  note q = quiet_write_file [OF wf(1)]
  note fields = same_request_fields [OF conjunct2 [OF q]]
  have "serve_page P conf c w = Some (0, c', w')"
    unfolding serve_page_def m(1) bind.bind_lunit m(2) [symmetric] m(3) Let_def
    using c(2) op st reg ex wf(1) m(4) by (simp add: get_or_post_def)
  then have sp: "send_page P conf c w = Some (0, c', sys_close ?d w')"
    using send_page_granted [OF auth] c(2) fields(1,4) new_fd_least [of w] by (simp add: send_error_header_def)
  have "?d \<notin> fst ` set (fds w)" by (rule new_fd_fresh)
  then have "AList.delete ?d (fds w') = fds w" using q by (simp add: quiet_def delete_id)
  then have "quiet (-1) w (sys_close ?d w')" using q by (simp add: quiet_def sys_close_def)
  then show ?thesis using sp wf(2) parse fields c(3) m(5)
    by (intro exI [of _ h] exI [of _ c'] exI [of _ "sys_close ?d w'"]) (simp add: sys_close_def)
qed

subsection \<open>Reading a plain request\<close>

definition get_request :: "string \<Rightarrow> string" where
  "get_request pg = ''GET '' @ pg @ '' HTTP/1.1'' @ CRLF @ CRLF"

definition plain_page :: "string \<Rightarrow> bool" where
  "plain_page pg \<longleftrightarrow> pg \<noteq> [] \<and> set pg \<inter> {CHR '' '', CR, LF, NUL, CHR ''?'', CHR ''%''} = {} \<and>
     \<not> sublist ''../'' pg \<and> length pg < 900"

text \<open>The bytes behind the header are not written.\<close>

lemma finish_header_rest:
  assumes "finish_header e start m full w = Some (m', full', w')" and "e + 2 < full"
  shows "drop full' m' = drop full' m"
  using assms
  by (auto simp: finish_header_def bind_Some_iff c_write_def c_poke_def case_prod_beta
      split: option.split_asm if_split_asm)

lemma parse_request_eq:
  assumes m: "cstr m 0 = Some (''GET '' @ pg @ '' '' @ r)" and pg: "pg \<noteq> []" "CHR '' '' \<notin> set pg"
  defines "m2 \<equiv> m[3 := NUL, length pg + 4 := NUL]"
  shows "parse_request m c = Some (Some (c\<lparr>buf := m2, method_id := GET, req_method := 0, page := 4,
      http_param := length pg + 5\<rparr>))"
    and "cstr m2 4 = Some pg" and "cstr m2 (length pg + 5) = Some r" and "cstr m2 0 = Some ''GET''"
proof -
  have "cstr m 0 = Some (''GET'' @ '' '' @ pg @ '' '' @ r)" using m by simp
  note t1 = strtok_first [OF this]
  have m1: "c_strtok_r m 0 '' '' = Some (m[3 := NUL], Some 0, 4)" "cstr (m[3 := NUL]) 4 = Some (pg @ '' '' @ r)"
    "cstr (m[3 := NUL]) 0 = Some ''GET''"
    using t1 by (simp_all add: numeral_eq_Suc)
  note t2 = strtok_first [OF m1(2) pg]
  have e: "4 + length pg = length pg + 4" "4 + length pg + 1 = length pg + 5" by simp_all
  note t3 = t2 [unfolded e, folded m2_def]
  show "cstr m2 4 = Some pg" and "cstr m2 (length pg + 5) = Some r" using t3 by (simp_all add: add.commute)
  show "cstr m2 0 = Some ''GET''" using m1(3) by (rule cstr_cong) (auto simp: m2_def)
  have "method_of (''GET '' @ pg @ '' '' @ r) = Some GET" by (simp add: method_of_def strn_eq_def)
  then show "parse_request m c = Some (Some (c\<lparr>buf := m2, method_id := GET, req_method := 0, page := 4,
      http_param := length pg + 5\<rparr>))"
    unfolding parse_request_def m bind.bind_lunit using m1(1) t3(1) by (simp add: add.commute)
qed

lemma set_connection_props_eq:
  assumes pg: "cstr (buf c) (page c) = Some pg" "plain_page pg"
    and hp: "cstr (buf c) (http_param c) = Some (''HTTP/1.1'' @ CRLF)" and conf: "\<not> virtual_host conf"
  shows "set_connection_props conf ev c = Some (c\<lparr>protocol_version := HTTP_1_1, keep_alive := True,
    get_params := None, page_len := length pg, basedir := conf_basedir conf\<rparr>)"
proof -
  have a: "get_param_value (buf c) (http_param c) ''Connection'' 12 10 = Some None"
    by (simp add: get_param_value_def c_strstr_Some [OF hp])
  have v: "c_peek (buf c) (http_param c + 7) = Some (CHR ''1'')" "c_peek (buf c) (http_param c + 5) = Some (CHR ''1'')"
    using cstr_nth [OF hp, of 7] cstr_nth [OF hp, of 5] cstr_length [OF hp] by (simp_all add: c_peek_def)
  have q: "find_sub ''?'' pg = None" "find_sub ''%'' pg = None"
    using pg(2) by (simp_all add: find_sub_single_None plain_page_def)
  have "split_get_params (c\<lparr>protocol_version := HTTP_1_1, keep_alive := True\<rparr>) =
      Some (c\<lparr>protocol_version := HTTP_1_1, keep_alive := True, get_params := None, page_len := length pg\<rparr>)"
    using pg(1) q(1) by (simp add: split_get_params_def c_strstr_Some c_strlen_Some)
  moreover have m1: "modURL (buf c) (Some (page c)) False = Some (buf c)"
    using pg q(2) by (simp add: modURL_def replaceEscape.simps [of "buf c"] c_strstr_Some strReplace_absent plain_page_def)
  moreover have "modURL (buf c) None True = Some (buf c)" by (simp add: modURL_def)
  ultimately show ?thesis
    using conf a v by (simp add: set_connection_props_def get_basedir_def)
qed

subsection \<open>A pipelined connection\<close>

text \<open>The page names a file with this content.\<close>

definition page_file :: "platform \<Rightarrow> weborf_configuration_t \<Rightarrow> fsys \<Rightarrow> path \<Rightarrow> string \<times> string \<Rightarrow> bool" where
  "page_file P conf tr wd r \<longleftrightarrow> plain_page (fst r) \<and> length (conf_basedir conf @ fst r) < URI_LEN \<and>
     (case resolve tr wd (conf_basedir conf @ fst r) of
        Inl _ \<Rightarrow> False
      | Inr p \<Rightarrow> (case lookup tr p of None \<Rightarrow> False | Some i \<Rightarrow> sendable P i \<and> i_data i = snd r))"

text \<open>The server as it is started for public files: no provider, no virtual hosts, no scripts.\<close>

definition public_conf :: "weborf_configuration_t \<Rightarrow> bool" where
  "public_conf conf \<longleftrightarrow> authsock conf = None \<and> \<not> virtual_host conf \<and> \<not> exec_script conf \<and> NUL \<notin> set (conf_basedir conf)"

lemma plain_request_http:
  "cstr (buf c) (http_param c) = Some (''HTTP/1.1'' @ CRLF) \<Longrightarrow> plain_request c"
  by (simp add: plain_request_def get_param_value_def c_strstr_Some)

lemma zero_tail:
  assumes "full \<le> k" and "full \<le> length S"
  shows "drop k (take full S @ replicate (n - full) NUL) = replicate (n - k) NUL"
proof -
  have "n - full - (k - full) = n - k" using assms(1) by simp
  then show ?thesis using assms by (simp add: min_absorb2)
qed

lemma get_request_read:
  assumes w: "reader_ok w" "incoming w = get_request pg @ rest" and pg: "plain_page pg"
  shows "\<exists>start full m1 w1 m2 w2. read_header (replicate (INBUFFER + 1) NUL) 0 0 w =
      Some (Header (length pg + 13) start, m1, full, w1) \<and>
    finish_header (length pg + 13) start m1 full w1 = Some (m2, length pg + 17, w2) \<and>
    length m2 = INBUFFER + 1 \<and> cstr m2 0 = Some (''GET '' @ pg @ '' '' @ ''HTTP/1.1'' @ CRLF) \<and>
    drop (length pg + 17) m2 = replicate (INBUFFER + 1 - (length pg + 17)) NUL \<and>
    reader_ok w2 \<and> incoming w2 = rest \<and> (\<exists>b evs. w2 = w\<lparr>reader := b, input := evs\<rparr>)"
proof -
  define h where "h = ''GET '' @ pg @ '' HTTP/1.1''"
  let ?S = "h @ CRLF @ CRLF @ rest" and ?e = "length h"
  have e: "?e = length pg + 13" by (simp add: h_def)
  have pgs: "CR \<notin> set h" "NUL \<notin> set h" "length pg < 900" using pg by (auto simp: plain_page_def h_def)
  have f: "find_sub END_MARK ?S = Some ?e" using find_sub_skip [OF pgs(1), of "[LF, CR]" "CRLF @ CRLF @ rest"] by simp
  have t4: "take (?e + 4) ?S = h @ CRLF @ CRLF" "take (?e + 2) ?S = h @ CRLF" by simp_all
  have n4: "NUL \<notin> set (take (?e + 4) ?S)" using pgs(2) unfolding t4 by simp
  have l4: "?e + 4 \<le> length ?S" and b4: "?e + 4 < INBUFFER" using pgs(3) by (simp_all add: INBUFFER_def e)
  have z: "take 0 ?S @ replicate (INBUFFER + 1 - 0) NUL = replicate (INBUFFER + 1) NUL" by simp
  have in0: "incoming w = drop 0 ?S" using w(2) by (simp add: get_request_def h_def)
  obtain full start w1 where rh: "read_header (replicate (INBUFFER + 1) NUL) 0 0 w =
      Some (Header ?e start, take full ?S @ replicate (INBUFFER + 1 - full) NUL, full, w1)"
    and p1: "?e + 3 \<le> full" "full \<le> ?e + 4" "start \<le> ?e" "reader_ok w1" "incoming w1 = drop full ?S"
      "\<exists>b evs. w1 = w\<lparr>reader := b, input := evs\<rparr>"
    using read_header_finds [OF n4 f l4 b4 w(1) in0 le0 le0 le0] unfolding z by blast
  let ?m1 = "take full ?S @ replicate (INBUFFER + 1 - full) NUL"
  have d4: "take 4 (drop ?e ?S) = CRLF @ CRLF" by simp
  obtain m2 w2 where fh: "finish_header ?e start ?m1 full w1 = Some (m2, ?e + 4, w2)"
    and p2: "length m2 = INBUFFER + 1" "cstr m2 0 = Some (take (?e + 2) ?S)"
      "reader_ok w2" "incoming w2 = drop (?e + 4) ?S" "\<exists>b evs. w2 = w1\<lparr>reader := b, input := evs\<rparr>"
    using finish_header_ok [OF n4 f b4 d4 p1(4,5,1,2,3)] by blast
  have "drop (?e + 4) m2 = drop (?e + 4) ?m1" using finish_header_rest [OF fh] p1(1) by simp
  also have "\<dots> = replicate (INBUFFER + 1 - (?e + 4)) NUL" using p1(2) l4 by (intro zero_tail) auto
  finally have dr: "drop (length pg + 17) m2 = replicate (INBUFFER + 1 - (length pg + 17)) NUL"
    by (simp add: e add.commute)
  have "\<exists>b evs. w2 = w\<lparr>reader := b, input := evs\<rparr>" using p1(6) p2(5) by force
  moreover have "incoming w2 = rest" using p2(4) by simp
  moreover have "cstr m2 0 = Some (''GET '' @ pg @ '' '' @ ''HTTP/1.1'' @ CRLF)" using p2(2) unfolding t4 by (simp add: h_def)
  moreover have "?e + 4 = length pg + 17" by (simp add: e)
  ultimately show ?thesis using rh fh p2(1,3) dr unfolding e by metis
qed


text \<open>One round of the loop up to \<open>send_page\<close>, and what it leaves for the next round.\<close>

lemma handle_requests_step:
  assumes w: "reader_ok w" "incoming w = get_request pg @ rest" and pg: "plain_page pg"
    and conf: "\<not> virtual_host conf" and m: "clear_request m n = replicate (INBUFFER + 1) NUL"
  obtains c2 w2 where "handle_requests P conf ev m n c w = do {
      (res, c3, w3) \<leftarrow> send_page P conf c2 w2;
      if res < 0 \<or> \<not> keep_alive c3 then Some (buf c3, length pg + 17, c3, w3)
      else handle_requests P conf ev (buf c3) (length pg + 17) c3 w3 }"
    and "cstr (buf c2) (page c2) = Some pg" and "cstr (buf c2) (http_param c2) = Some (''HTTP/1.1'' @ CRLF)"
    and "cstr (buf c2) (req_method c2) = Some ''GET''" and "method_id c2 = GET" and "keep_alive c2"
    and "basedir c2 = conf_basedir conf" and "strfile c2 = strfile c" and "ip_addr c2 = ip_addr c"
    and "clear_request (buf c2) (length pg + 17) = replicate (INBUFFER + 1) NUL"
    and "reader_ok w2" and "incoming w2 = rest" and "\<exists>b evs. w2 = w\<lparr>reader := b, input := evs\<rparr>"
proof -
  obtain start full m1 w1 m2 w2 where rd: "read_header (replicate (INBUFFER + 1) NUL) 0 0 w =
      Some (Header (length pg + 13) start, m1, full, w1)"
    "finish_header (length pg + 13) start m1 full w1 = Some (m2, length pg + 17, w2)"
    and m2: "length m2 = INBUFFER + 1" "cstr m2 0 = Some (''GET '' @ pg @ '' '' @ ''HTTP/1.1'' @ CRLF)"
      "drop (length pg + 17) m2 = replicate (INBUFFER + 1 - (length pg + 17)) NUL"
    and w2: "reader_ok w2" "incoming w2 = rest" "\<exists>b evs. w2 = w\<lparr>reader := b, input := evs\<rparr>"
    using get_request_read [OF w pg] by blast
  define m3 where "m3 = m2[3 := NUL, length pg + 4 := NUL]"
  have pg': "pg \<noteq> []" "CHR '' '' \<notin> set pg" "length pg < 900" using pg by (auto simp: plain_page_def)
  note pr = parse_request_eq [OF m2(2) pg'(1,2), folded m3_def]
  define c1 where "c1 = c\<lparr>buf := m3, method_id := GET, req_method := 0, page := 4, http_param := length pg + 5\<rparr>"
  define c2 where "c2 = c1\<lparr>protocol_version := HTTP_1_1, keep_alive := True, get_params := None,
    page_len := length pg, basedir := conf_basedir conf\<rparr>"
  have sc: "set_connection_props conf ev c1 = Some c2"
    using set_connection_props_eq [of c1 pg conf ev] pr pg conf by (simp add: c1_def c2_def)
  have "handle_requests P conf ev m n c w = do {
      (res, c3, w3) \<leftarrow> send_page P conf c2 w2;
      if res < 0 \<or> \<not> keep_alive c3 then Some (buf c3, length pg + 17, c3, w3)
      else handle_requests P conf ev (buf c3) (length pg + 17) c3 w3 }"
    using sc pr(1) rd m by (subst handle_requests.simps) (simp add: c1_def [symmetric])
  moreover have "clear_request (buf c2) (length pg + 17) = replicate (INBUFFER + 1) NUL"
  proof -
    have "buf c2 = m3" by (simp add: c2_def c1_def)
    moreover have "drop (length pg + 17) m3 = drop (length pg + 17) m2" by (simp add: m3_def)
    ultimately show ?thesis using m2(3) pg'(3) by (simp add: clear_request_def INBUFFER_def flip: replicate_add)
  qed
  ultimately show thesis using pr w2 by (intro that [of c2 w2]) (simp_all add: c1_def c2_def)
qed

lemma handle_requests_get:
  assumes w: "healthy w" "reader_ok w" "incoming w = get_request (fst r) @ rest"
    and conf: "public_conf conf" and r: "page_file P conf (fs w) (cwd w) r"
    and m: "clear_request m n = replicate (INBUFFER + 1) NUL" and c: "length (strfile c) = URI_LEN"
  shows "\<exists>h m' n' c' w'. handle_requests P conf ev m n c w = handle_requests P conf ev m' n' c' w' \<and>
    sent w' = sent w @ h @ snd r \<and> (\<forall>after. parse_response (h @ snd r @ after) = Some (200, snd r, after)) \<and>
    clear_request m' n' = replicate (INBUFFER + 1) NUL \<and> length (strfile c') = URI_LEN \<and> ip_addr c' = ip_addr c \<and>
    healthy w' \<and> reader_ok w' \<and> incoming w' = rest \<and> fs w' = fs w \<and> cwd w' = cwd w"
proof -
  have pp: "plain_page (fst r)" and vh: "\<not> virtual_host conf"
    using r conf by (simp_all add: page_file_def public_conf_def)
  obtain c2 w2 where st: "handle_requests P conf ev m n c w = do {
      (res, c3, w3) \<leftarrow> send_page P conf c2 w2;
      if res < 0 \<or> \<not> keep_alive c3 then Some (buf c3, length (fst r) + 17, c3, w3)
      else handle_requests P conf ev (buf c3) (length (fst r) + 17) c3 w3 }"
    and c2: "cstr (buf c2) (page c2) = Some (fst r)" "cstr (buf c2) (http_param c2) = Some (''HTTP/1.1'' @ CRLF)"
      "method_id c2 = GET" "keep_alive c2" "basedir c2 = conf_basedir conf" "strfile c2 = strfile c" "ip_addr c2 = ip_addr c"
      "clear_request (buf c2) (length (fst r) + 17) = replicate (INBUFFER + 1) NUL"
    and w2: "reader_ok w2" "incoming w2 = rest" "\<exists>b evs. w2 = w\<lparr>reader := b, input := evs\<rparr>"
    by (rule handle_requests_step [OF w(2,3) pp vh m])
  have w2': "healthy w2" "fs w2 = fs w" "cwd w2 = cwd w" "sent w2 = sent w" using w2(3) w(1) by auto
  let ?name = "conf_basedir conf @ fst r"
  obtain p i where p: "resolve (fs w2) (cwd w2) ?name = Inr p" "lookup (fs w2) p = Some i" "sendable P i" "i_data i = snd r"
    using r w2' by (auto simp: page_file_def split: sum.splits option.splits)
  have ask: "asks_for c2 ?name"
    using c2 c r conf pp by (auto simp: asks_for_def page_file_def public_conf_def plain_page_def)
  have auth: "auth_check_request (p_provider P) conf (p_auth_stk P) c2 w2 = Some (0, w2)"
    using conf by (simp add: auth_check_request_def public_conf_def)
  obtain h c' w' where sp: "send_page P conf c2 w2 = Some (0, c', w')" "sent w' = sent w2 @ h @ snd r"
    "\<forall>after. parse_response (h @ snd r @ after) = Some (200, snd r, after)" "quiet (-1) w2 w'" "buf c' = buf c2" "keep_alive c'"
    "length (strfile c') = URI_LEN" "ip_addr c' = ip_addr c2"
    using get_ok [OF w2'(1) auth ask c2(3,4) plain_request_http [OF c2(2)] p(1,2,3)] p(4) conf by (auto simp: public_conf_def)
  have "handle_requests P conf ev m n c w = handle_requests P conf ev (buf c2) (length (fst r) + 17) c' w'"
    using st sp(1,5,6) by simp
  moreover have "reader_ok w'" "incoming w' = rest" "healthy w'" "fs w' = fs w" "cwd w' = cwd w"
    using sp(4) w2 w2' by (simp_all add: quiet_def reader_ok_def incoming_def)
  ultimately show ?thesis using sp(2,3,7,8) w2'(4) c2(7,8) by metis
qed

lemma handle_requests_end:
  assumes "reader_ok w" and "incoming w = []" and "clear_request m n = replicate (INBUFFER + 1) NUL"
  shows "\<exists>b evs. handle_requests P conf ev m n c w =
    Some (replicate (INBUFFER + 1) NUL, 0, c, w\<lparr>reader := b, input := evs\<rparr>) \<and> reader_inv (b, evs)"
proof -
  obtain s b evs where r: "buffer_read (reader w, input w) 2 = (s, b, evs)" by (metis prod_cases3)
  have "s = []" using reader.rd_bytes [of "(reader w, input w)" 2] assms(1,2) r by (simp add: reader_ok_def incoming_def)
  then have cr: "client_read 2 w = ([], w\<lparr>reader := b, input := evs\<rparr>)" using r by (simp add: client_read_def)
  have "cstr (replicate (INBUFFER + 1) NUL) 0 = Some []" by (rule cstr_NUL) simp_all
  then have "read_header (replicate (INBUFFER + 1) NUL) 0 0 w =
      Some (header_result.Closed, replicate (INBUFFER + 1) NUL, 0, w\<lparr>reader := b, input := evs\<rparr>)"
    using cr by (subst read_header.simps) (simp add: c_strstr_Some)
  moreover have "reader_inv (b, evs)" using reader.rd_ok [of "(reader w, input w)" 2] assms(1) r by (simp add: reader_ok_def)
  ultimately show ?thesis using assms(3) by (subst handle_requests.simps) auto
qed

text \<open>A client that reads the answers one after the other, and nothing is left over.\<close>

fun parse_responses :: "nat \<Rightarrow> string \<Rightarrow> (int \<times> string) list option" where
  "parse_responses 0 s = (if s = [] then Some [] else None)"
| "parse_responses (Suc n) s =
     (case parse_response s of
        None \<Rightarrow> None
      | Some (code, body, rest) \<Rightarrow> map_option ((#) (code, body)) (parse_responses n rest))"

text \<open>
  The loop of a connection, as its clients see it: from a state that is \<open>ready\<close> for some
  requests the loop answers the first one and is ready for the others, and when there are no
  more it returns. Every instance of this interface answers all the requests in order.
\<close>

locale request_loop =
  fixes run :: "'s \<Rightarrow> 's option"
    and ready :: "'s \<Rightarrow> 'q list \<Rightarrow> bool"
    and out_of :: "'s \<Rightarrow> string"
    and reply :: "'q \<Rightarrow> int \<times> string \<Rightarrow> bool"
    and kept :: "'s \<Rightarrow> bool"
  assumes run_step: "ready s (q # qs) \<Longrightarrow> \<exists>s' a r. run s = run s' \<and> ready s' qs \<and> out_of s' = out_of s @ a \<and>
      reply q r \<and> (\<forall>after. parse_response (a @ after) = Some (fst r, snd r, after))"
    and run_end: "ready s [] \<Longrightarrow> \<exists>t. run s = Some t \<and> out_of t = out_of s \<and> kept t"
begin

lemma run_all:
  "ready s qs \<Longrightarrow> \<exists>t a rs. run s = Some t \<and> kept t \<and> out_of t = out_of s @ a \<and>
     parse_responses (length qs) a = Some rs \<and> list_all2 reply qs rs"
proof (induction qs arbitrary: s)
  case Nil
  then show ?case using run_end [of s] by (metis append_Nil2 list.rel_intros(1) list.size(3) parse_responses.simps(1))
next
  case (Cons q qs)
  obtain s' a r where s': "run s = run s'" "ready s' qs" "out_of s' = out_of s @ a" "reply q r"
    "\<forall>after. parse_response (a @ after) = Some (fst r, snd r, after)"
    using run_step [OF Cons.prems] by (elim exE conjE) (rule that)
  obtain t b rs where t: "run s' = Some t" "kept t" "out_of t = out_of s' @ b"
    "parse_responses (length qs) b = Some rs" "list_all2 reply qs rs"
    using Cons.IH [OF s'(2)] by (elim exE conjE) (rule that)
  have "parse_responses (length (q # qs)) (a @ b) = Some (r # rs)" using s'(5) t(4) by (cases r) simp
  then show ?case using s' t by (intro exI [of _ t] exI [of _ "a @ b"] exI [of _ "r # rs"]) simp
qed

end

type_synonym loop_state = "cmem \<times> nat \<times> connection_t \<times> world"

definition loop_run :: "platform \<Rightarrow> weborf_configuration_t \<Rightarrow> (string \<times> string) list \<Rightarrow> loop_state \<Rightarrow> loop_state option" where
  "loop_run P conf ev s = (case s of (m, n, c, w) \<Rightarrow> handle_requests P conf ev m n c w)"

definition loop_output :: "loop_state \<Rightarrow> string" where
  "loop_output s = (case s of (_, _, _, w) \<Rightarrow> sent w)"

definition loop_kept :: "fsys \<Rightarrow> loop_state \<Rightarrow> bool" where
  "loop_kept tr s = (case s of (_, _, _, w) \<Rightarrow> fs w = tr)"

text \<open>
  A thread between two connections, and before a connection on which these pages are asked for:
  its buffer is clear, nothing fails.
\<close>

definition thread_idle :: "loop_state \<Rightarrow> bool" where
  "thread_idle s = (case s of (m, n, c, w) \<Rightarrow> healthy w \<and> reader_ok w \<and>
     clear_request m n = replicate (INBUFFER + 1) NUL \<and> length (strfile c) = URI_LEN)"

definition loop_cwd :: "loop_state \<Rightarrow> path" where
  "loop_cwd s = (case s of (_, _, _, w) \<Rightarrow> cwd w)"

definition loop_ready :: "loop_state \<Rightarrow> string list \<Rightarrow> bool" where
  "loop_ready s pgs = (case s of (m, n, c, w) \<Rightarrow> healthy w \<and> reader_ok w \<and> incoming w = concat (map get_request pgs) \<and>
     clear_request m n = replicate (INBUFFER + 1) NUL \<and> length (strfile c) = URI_LEN \<and> length (ip_addr c) \<le> 100)"

lemma loop_returns:
  assumes "loop_ready s []" and "loop_kept tr s"
  shows "\<exists>t. loop_run P conf ev s = Some t \<and> loop_output t = loop_output s \<and> loop_kept tr t \<and>
    thread_idle t \<and> loop_cwd t = loop_cwd s"
proof -
  obtain m n c w where s: "s = (m, n, c, w)" by (metis prod_cases4)
  have pre: "reader_ok w" "incoming w = []" "clear_request m n = replicate (INBUFFER + 1) NUL"
    and c: "healthy w" "length (strfile c) = URI_LEN"
    using assms(1) by (auto simp: loop_ready_def s)
  obtain b evs where "handle_requests P conf ev m n c w =
      Some (replicate (INBUFFER + 1) NUL, 0, c, w\<lparr>reader := b, input := evs\<rparr>)" "reader_inv (b, evs)"
    using handle_requests_end [OF pre] by blast
  then show ?thesis using assms(2) c
    by (simp add: s loop_run_def loop_output_def loop_kept_def loop_cwd_def thread_idle_def reader_ok_def
        healthy_def clear_request_def)
qed

definition public_ready :: "platform \<Rightarrow> weborf_configuration_t \<Rightarrow> fsys \<Rightarrow> path \<Rightarrow> loop_state \<Rightarrow> (string \<times> string) list \<Rightarrow> bool" where
  "public_ready P conf tr wd s reqs \<longleftrightarrow> public_conf conf \<and> loop_ready s (map fst reqs) \<and>
     (case s of (_, _, _, w) \<Rightarrow> fs w = tr \<and> cwd w = wd) \<and> list_all (page_file P conf tr wd) reqs"

interpretation public: request_loop "loop_run P conf ev" "public_ready P conf tr wd" loop_output
  "\<lambda>q r. r = (200, snd q)" "\<lambda>t. loop_kept tr t \<and> thread_idle t \<and> loop_cwd t = wd" for P conf ev tr wd
proof unfold_locales
  fix s :: loop_state and q :: "string \<times> string" and qs
  assume rd: "public_ready P conf tr wd s (q # qs)"
  obtain m n c w where s: "s = (m, n, c, w)" by (metis prod_cases4)
  have pre: "healthy w" "reader_ok w" "incoming w = get_request (fst q) @ concat (map get_request (map fst qs))"
    "public_conf conf" "page_file P conf (fs w) (cwd w) q" "clear_request m n = replicate (INBUFFER + 1) NUL"
    "length (strfile c) = URI_LEN"
    using rd by (auto simp: public_ready_def loop_ready_def s)
  obtain h m' n' c' w' where st: "handle_requests P conf ev m n c w = handle_requests P conf ev m' n' c' w'"
    "sent w' = sent w @ h @ snd q" "\<forall>after. parse_response (h @ snd q @ after) = Some (200, snd q, after)"
    "clear_request m' n' = replicate (INBUFFER + 1) NUL" "length (strfile c') = URI_LEN" "ip_addr c' = ip_addr c"
    "healthy w'" "reader_ok w'" "incoming w' = concat (map get_request (map fst qs))" "fs w' = fs w" "cwd w' = cwd w"
    using handle_requests_get [OF pre, of ev] by (elim exE conjE) (rule that)
  then show "\<exists>s' a r. loop_run P conf ev s = loop_run P conf ev s' \<and> public_ready P conf tr wd s' qs \<and>
      loop_output s' = loop_output s @ a \<and> r = (200, snd q) \<and>
      (\<forall>after. parse_response (a @ after) = Some (fst r, snd r, after))"
    using rd
    by (intro exI [of _ "(m', n', c', w')"] exI [of _ "h @ snd q"] exI [of _ "(200, snd q)"])
      (simp add: s loop_run_def loop_output_def public_ready_def loop_ready_def)
next
  fix s :: loop_state
  assume rd: "public_ready P conf tr wd s []"
  then have "loop_ready s []" "loop_kept tr s" "loop_cwd s = wd" by (auto simp: public_ready_def loop_kept_def loop_cwd_def)
  then show "\<exists>t. loop_run P conf ev s = Some t \<and> loop_output t = loop_output s \<and>
      loop_kept tr t \<and> thread_idle t \<and> loop_cwd t = wd"
    using loop_returns [of s tr] by blast
qed


subsection \<open>A refused client\<close>

text \<open>The provider is in use and grants nothing.\<close>

definition refuses :: "platform \<Rightarrow> weborf_configuration_t \<Rightarrow> bool" where
  "refuses P conf \<longleftrightarrow> authsock conf \<noteq> None \<and> (\<forall>t. p_provider P t \<noteq> 0)"

lemma auth_refused:
  assumes "refuses P conf" and "auth_check_request (p_provider P) conf stk c w = Some (r, w')"
  shows "r \<noteq> 0 \<and> fs w' = fs w"
proof -
  obtain cr where cr: "auth_credentials stk (buf c) (http_param c) = Some cr"
    using assms by (auto simp: auth_check_request_def refuses_def bind_Some_iff)
  show ?thesis
  proof (cases cr)
    case (Inl e)
    then have "r = e" "w' = w" using assms cr by (auto simp: auth_check_request_def refuses_def)
    then show ?thesis using auth_credentials_error [OF cr [unfolded Inl]] by simp
  next
    case (Inr up)
    obtain f w1 where f: "next_fault w = (f, w1)" by fastforce
    obtain ok w2 where ok: "malloc w1 = (ok, w2)" by fastforce
    have fs: "fs w1 = fs w" "fs w2 = fs w1" using quiet_next_fault [OF f] quiet_malloc [OF ok] by (auto simp: quiet_def)
    have wr: "fs (snd (next_write n w2)) = fs w2" for n
      using quiet_next_write [of n w2 "fst (next_write n w2)" "snd (next_write n w2)"] by (auto simp: quiet_def)
    show ?thesis
      using assms cr Inr f ok fs wr
      by (cases up) (auto simp: auth_check_request_def refuses_def bind_Some_iff case_prod_beta Let_def
          split: option.split_asm if_split_asm)
  qed
qed

lemma fs_calls [simp]:
  "fs (snd (malloc w)) = fs w" "fs (snd (client_write s w)) = fs w" "fs (snd (client_read n w)) = fs w"
  by (simp_all add: malloc_def next_fault_def client_write_def next_write_def client_read_def split: list.split prod.split)

lemma fs_client_read: "client_read n w = (s, w') \<Longrightarrow> fs w' = fs w"
  using fs_calls(3) [of n w] by simp

lemma fs_send_two: "send_two h pg w = Some (r, w') \<Longrightarrow> fs w' = fs w"
  by (auto simp: send_two_def bind_Some_iff Let_def case_prod_beta split: if_split_asm)

lemma fs_send_err: "send_err c code descr w = Some (r, c', w') \<Longrightarrow> fs w' = fs w"
  by (auto simp: send_err_def bind_Some_iff Let_def case_prod_beta split: if_split_asm dest!: fs_send_two)

lemma fs_request_auth: "request_auth c w = Some (r, c', w') \<Longrightarrow> fs w' = fs w"
  by (auto simp: request_auth_def bind_Some_iff Let_def case_prod_beta split: if_split_asm dest!: fs_send_two)

lemma fs_send_http_header: "send_http_header code sz hs content ts c w = Some (r, c', w') \<Longrightarrow> fs w' = fs w"
  using quiet_send_http_header [where d = 0] by (auto simp: quiet_def)

lemma fs_send_error_header: "send_error_header r c w = Some (n, c', w') \<Longrightarrow> fs w' = fs w"
  unfolding send_error_header_def
  by (auto split: if_split_asm dest: fs_send_err fs_request_auth fs_send_http_header)

lemma fs_read_post_data: "read_post_data c w = Some (b, w') \<Longrightarrow> fs w' = fs w"
  by (auto simp: read_post_data_def bind_Some_iff Let_def case_prod_beta split: option.split_asm if_split_asm)

lemma fs_read_header: "read_header m full start w = Some (r, m', full', w') \<Longrightarrow> fs w' = fs w"
proof (induction "INBUFFER - full" arbitrary: m full start w rule: less_induct)
  case less
  obtain r0 where r0: "c_strstr m start END_MARK = Some r0"
    using less.prems by (subst (asm) read_header.simps) (auto simp: bind_Some_iff)
  obtain s w1 where rd: "client_read 2 w = (s, w1)" by fastforce
  note f1 = fs_client_read [OF rd]
  show ?case
  proof (cases "r0 \<noteq> None \<or> s = []")
    case True
    then show ?thesis using less.prems r0 rd f1
      by (subst (asm) read_header.simps) (auto split: option.split_asm)
  next
    case False
    then obtain m1 ch where m1: "c_write m full s = Some m1" "c_peek m1 full = Some ch"
      using less.prems r0 rd by (subst (asm) read_header.simps) (auto simp: bind_Some_iff)
    let ?start = "if ch = LF \<or> ch = CR then start else full"
    show ?thesis
    proof (cases "INBUFFER \<le> full + length s")
      case True
      then show ?thesis using less.prems r0 rd f1 False m1
        by (subst (asm) read_header.simps) (auto simp: Let_def)
    next
      case go: False
      then have "read_header m1 (full + length s) ?start w1 = Some (r, m', full', w')"
        using less.prems r0 rd False m1 by (subst (asm) read_header.simps) (auto simp: Let_def)
      moreover have "INBUFFER - (full + length s) < INBUFFER - full" using go False by (cases s) auto
      ultimately show ?thesis using less.hyps f1 by metis
    qed
  qed
qed

lemma fs_finish_header: "finish_header e start m full w = Some (m', full', w') \<Longrightarrow> fs w' = fs w"
  by (auto simp: finish_header_def bind_Some_iff case_prod_beta split: option.split_asm)

lemma send_page_refused:
  assumes "refuses P conf" and "send_page P conf c w = Some (r, c', w')" shows "fs w' = fs w"
proof -
  obtain a w1 where a: "auth_check_request (p_provider P) conf (p_auth_stk P) c w = Some (a, w1)"
    using assms(2) by (auto simp: send_page_def bind_Some_iff)
  note ar = auth_refused [OF assms(1) a]
  obtain b w2 where b: "read_post_data c w1 = Some (b, w2)"
    using assms(2) a ar by (auto simp: send_page_def bind_Some_iff)
  have "fs w' = fs w2"
    using assms(2) a ar b by (auto simp: send_page_def sys_close_def split: if_split_asm dest!: fs_send_error_header)
  then show ?thesis using ar fs_read_post_data [OF b] by simp
qed

lemma bad_request_fs: "bad_request m n c w = Some (m', n', c', w') \<Longrightarrow> fs w' = fs w"
  by (simp add: bad_request_is_silent)

lemma handle_requests_refused:
  assumes "refuses P conf" and "handle_requests P conf ev m n c w = Some (m', n', c', w')"
  shows "fs w' = fs w"
proof -
  let ?Q = "\<lambda>P conf ev m n c w (r :: cmem \<times> nat \<times> connection_t \<times> world). refuses P conf \<longrightarrow> fs (snd (snd (snd r))) = fs w"
  have "?Q P conf ev m n c w (m', n', c', w')"
  proof (rule handle_requests.raw_induct [where P = ?Q, OF _ assms(2)], rule impI)
    fix rec :: "platform \<Rightarrow> weborf_configuration_t \<Rightarrow> (string \<times> string) list \<Rightarrow> cmem \<Rightarrow> nat \<Rightarrow>
        connection_t \<Rightarrow> world \<Rightarrow> (cmem \<times> nat \<times> connection_t \<times> world) option"
      and P conf ev m bufFull c w out
    assume IH: "\<And>P conf ev m n c w r. rec P conf ev m n c w = Some r \<Longrightarrow> ?Q P conf ev m n c w r"
      and run: "do {
     (r, m1, full1, w1) \<leftarrow> read_header (clear_request m bufFull) 0 0 w;
     case r of
       header_result.Closed \<Rightarrow> Some (m1, full1, c, w1)
     | Full \<Rightarrow> bad_request m1 full1 c w1
     | Header e from \<Rightarrow> do {
         (m2, full2, w2) \<leftarrow> finish_header e from m1 full1 w1;
         parsed \<leftarrow> parse_request m2 c;
         case parsed of
           None \<Rightarrow> bad_request m2 full2 c w2
         | Some c1 \<Rightarrow> do {
             c2 \<leftarrow> set_connection_props conf ev c1;
             (res, c3, w3) \<leftarrow> send_page P conf c2 w2;
             if res < 0 \<or> \<not> keep_alive c3 then Some (buf c3, full2, c3, w3)
             else rec P conf ev (buf c3) full2 c3 w3
           }
       }
   } = Some out"
      and rf: "refuses P conf"
    obtain r m1 full1 w1 where rh: "read_header (clear_request m bufFull) 0 0 w = Some (r, m1, full1, w1)"
      using run by (auto simp: bind_Some_iff)
    note f1 = fs_read_header [OF rh]
    show "fs (snd (snd (snd out))) = fs w"
    proof (cases r)
      case (Header e start)
      then obtain m2 full2 w2 where fh: "finish_header e start m1 full1 w1 = Some (m2, full2, w2)"
        using run rh by (auto simp: bind_Some_iff)
      note f2 = fs_finish_header [OF fh]
      show ?thesis
      proof (cases "\<exists>c1. parse_request m2 c = Some (Some c1)")
        case True
        then obtain c1 c2 res c3 w3 where c3: "parse_request m2 c = Some (Some c1)" "set_connection_props conf ev c1 = Some c2"
          "send_page P conf c2 w2 = Some (res, c3, w3)"
          using run rh fh Header by (auto simp: bind_Some_iff)
        note f3 = send_page_refused [OF rf c3(3)]
        show ?thesis
          using run rh fh Header c3 f1 f2 f3 IH [of P conf ev "buf c3" full2 c3 w3 out] rf
          by (auto split: if_split_asm)
      next
        case False
        then show ?thesis using run rh fh Header f1 f2
          by (auto simp: bind_Some_iff bad_request_is_silent split: option.split_asm)
      qed
    qed (use run rh f1 in \<open>auto simp: bad_request_is_silent\<close>)
  qed
  then show ?thesis using assms(1) by simp
qed


text \<open>A GET request of a refused client is answered by 401 and the connection goes on.\<close>

lemma auth_says_no:
  assumes "healthy w" and "refuses P conf" and "cstr (buf c) (http_param c) = Some params"
    and "find_sub CREDENTIALS params = None" and "cstr (buf c) (page c) = Some pg" and "cstr (buf c) (req_method c) = Some meth"
    and "length (auth_text pg (ip_addr c) meth [] [] params) < AUTH_BUF"
  shows "auth_check_request (p_provider P) conf stk c w = Some (-1, w)"
  using assms
  by (simp add: auth_check_request_def auth_credentials_def c_strstr_Some healthy_simps read_image_def snprintf_image_def
      refuses_def)

lemma handle_requests_no:
  assumes w: "healthy w" "reader_ok w" "incoming w = get_request pg @ rest"
    and conf: "refuses P conf" "\<not> virtual_host conf" and pg: "plain_page pg" "length pg \<le> 800"
    and m: "clear_request m n = replicate (INBUFFER + 1) NUL" and c: "length (strfile c) = URI_LEN" "length (ip_addr c) \<le> 100"
  shows "\<exists>h body m' n' c' w'. handle_requests P conf ev m n c w = handle_requests P conf ev m' n' c' w' \<and>
    sent w' = sent w @ h @ body \<and> (\<forall>after. parse_response (h @ body @ after) = Some (401, body, after)) \<and>
    clear_request m' n' = replicate (INBUFFER + 1) NUL \<and> length (strfile c') = URI_LEN \<and> ip_addr c' = ip_addr c \<and>
    healthy w' \<and> reader_ok w' \<and> incoming w' = rest \<and> fs w' = fs w"
proof -
  obtain c2 w2 where st: "handle_requests P conf ev m n c w = do {
      (res, c3, w3) \<leftarrow> send_page P conf c2 w2;
      if res < 0 \<or> \<not> keep_alive c3 then Some (buf c3, length pg + 17, c3, w3)
      else handle_requests P conf ev (buf c3) (length pg + 17) c3 w3 }"
    and c2: "cstr (buf c2) (page c2) = Some pg" "cstr (buf c2) (http_param c2) = Some (''HTTP/1.1'' @ CRLF)"
      "cstr (buf c2) (req_method c2) = Some ''GET''" "keep_alive c2" "strfile c2 = strfile c" "ip_addr c2 = ip_addr c"
      "clear_request (buf c2) (length pg + 17) = replicate (INBUFFER + 1) NUL"
    and w2: "reader_ok w2" "incoming w2 = rest" "\<exists>b evs. w2 = w\<lparr>reader := b, input := evs\<rparr>"
    by (rule handle_requests_step [OF w(2,3) pg(1) conf(2) m])
  have hw: "healthy w2" "fs w2 = fs w" "sent w2 = sent w" using w2(3) w(1) by auto
  let ?w3 = "if (method_id c2 = GET \<or> method_id c2 = POST) \<and> 0 \<le> strfile_fd c2 then sys_close (strfile_fd c2) w2 else w2"
  have w3: "healthy ?w3" "fs ?w3 = fs w" "sent ?w3 = sent w" "reader ?w3 = reader w2" "input ?w3 = input w2"
    using hw by (simp_all add: sys_close_def)
  have "auth_check_request (p_provider P) conf (p_auth_stk P) c2 w2 = Some (-1, w2)"
  proof (rule auth_says_no [OF hw(1) conf(1) c2(2) _ c2(1,3)])
    show "find_sub CREDENTIALS (''HTTP/1.1'' @ CRLF) = None" by (simp add: CREDENTIALS_def)
    show "length (auth_text pg (ip_addr c2) ''GET'' [] [] (''HTTP/1.1'' @ CRLF)) < AUTH_BUF"
      using pg(2) c(2) c2(6) by (simp add: auth_text_def AUTH_BUF_def HEADBUF_def PWDLIMIT_def)
  qed
  moreover have "read_post_data c2 w2 = Some (\<lparr>len = 0, data = None\<rparr>, w2)"
    by (simp add: read_post_data_def get_param_value_def c_strstr_Some [OF c2(2)])
  ultimately have sp: "send_page P conf c2 w2 = request_auth c2 ?w3"
    by (simp add: send_page_def send_error_header_def)
  have "CR \<notin> set pg" using pg(1) by (auto simp: plain_page_def)
  then obtain h body where ra: "request_auth c2 ?w3 = Some (0, c2\<lparr>status_code := 401\<rparr>, ?w3\<lparr>sent := sent ?w3 @ h @ body\<rparr>)"
    "\<forall>after. parse_response (h @ body @ after) = Some (401, body, after)"
    using request_auth_ok [OF w3(1) c2(1) _ pg(2)] by blast
  let ?c = "c2\<lparr>status_code := 401\<rparr>" and ?w = "?w3\<lparr>sent := sent ?w3 @ h @ body\<rparr>"
  have "handle_requests P conf ev m n c w = handle_requests P conf ev (buf c2) (length pg + 17) ?c ?w"
    unfolding st sp ra(1) using c2(4) by simp
  moreover have "reader_ok ?w" "incoming ?w = rest" "healthy ?w" "fs ?w = fs w" "sent ?w = sent w @ h @ body"
    using w2(1,2) w3 by (simp_all add: reader_ok_def incoming_def)
  moreover have "length (strfile ?c) = URI_LEN" "ip_addr ?c = ip_addr c" using c(1) c2(5,6) by simp_all
  ultimately show ?thesis using ra(2) c2(7)
    by (intro exI [of _ h] exI [of _ body] exI [of _ "buf c2"] exI [of _ "length pg + 17"] exI [of _ ?c] exI [of _ ?w]) (simp only: simp_thms)
qed

definition refused_ready :: "platform \<Rightarrow> weborf_configuration_t \<Rightarrow> fsys \<Rightarrow> loop_state \<Rightarrow> string list \<Rightarrow> bool" where
  "refused_ready P conf tr s pgs \<longleftrightarrow> refuses P conf \<and> \<not> virtual_host conf \<and> loop_ready s pgs \<and> loop_kept tr s \<and>
     list_all (\<lambda>pg. plain_page pg \<and> length pg \<le> 800) pgs"

interpretation refused: request_loop "loop_run P conf ev" "refused_ready P conf tr" loop_output
  "\<lambda>q r. fst r = 401" "loop_kept tr" for P conf ev tr
proof unfold_locales
  fix s :: loop_state and q :: string and qs
  assume rd: "refused_ready P conf tr s (q # qs)"
  obtain m n c w where s: "s = (m, n, c, w)" by (metis prod_cases4)
  have pre: "healthy w" "reader_ok w" "incoming w = get_request q @ concat (map get_request qs)"
    "refuses P conf" "\<not> virtual_host conf" "plain_page q" "length q \<le> 800"
    "clear_request m n = replicate (INBUFFER + 1) NUL" "length (strfile c) = URI_LEN" "length (ip_addr c) \<le> 100"
    using rd by (auto simp: refused_ready_def loop_ready_def s)
  obtain h body m' n' c' w' where st: "handle_requests P conf ev m n c w = handle_requests P conf ev m' n' c' w'"
    "sent w' = sent w @ h @ body" "\<forall>after. parse_response (h @ body @ after) = Some (401, body, after)"
    "clear_request m' n' = replicate (INBUFFER + 1) NUL" "length (strfile c') = URI_LEN" "ip_addr c' = ip_addr c"
    "healthy w'" "reader_ok w'" "incoming w' = concat (map get_request qs)" "fs w' = fs w"
    using handle_requests_no [OF pre, of ev] by (elim exE conjE) (rule that)
  then show "\<exists>s' a r. loop_run P conf ev s = loop_run P conf ev s' \<and> refused_ready P conf tr s' qs \<and>
      loop_output s' = loop_output s @ a \<and> fst r = 401 \<and>
      (\<forall>after. parse_response (a @ after) = Some (fst r, snd r, after))"
    using rd
    by (intro exI [of _ "(m', n', c', w')"] exI [of _ "h @ body"] exI [of _ "(401, body)"])
      (simp add: s loop_run_def loop_output_def refused_ready_def loop_ready_def loop_kept_def)
next
  fix s :: loop_state
  assume rd: "refused_ready P conf tr s []"
  then have "loop_ready s []" "loop_kept tr s" by (simp_all add: refused_ready_def)
  then show "\<exists>t. loop_run P conf ev s = Some t \<and> loop_output t = loop_output s \<and> loop_kept tr t"
    using loop_returns [of s tr] by blast
qed


subsection \<open>PUT and then GET\<close>

lemma walk_dirs:
  assumes "\<And>r j. lookup tr r = Some j \<Longrightarrow> is_dir j \<Longrightarrow> lookup tr' r = Some j" and "walk tr p ns = Inr q"
  shows "walk tr' p ns = Inr q"
  using assms(2)
proof (induction ns arbitrary: p)
  case (Cons n ns)
  then obtain i where "lookup tr p = Some i" "is_dir i" by (auto split: option.splits if_splits)
  moreover from this have "lookup tr' p = Some i" using assms(1) by blast
  ultimately show ?case using Cons by (auto split: if_splits)
qed simp

lemma resolve_dirs:
  assumes "\<And>r j. lookup tr r = Some j \<Longrightarrow> is_dir j \<Longrightarrow> lookup tr' r = Some j" and "resolve tr wd s = Inr q"
  shows "resolve tr' wd s = Inr q"
  using assms walk_dirs [of tr tr'] by (auto simp: resolve_def split: if_splits)

lemma new_file_mode: "st_mode (i_stat (new_inode (S_IFREG OR 0x180) p w)) AND S_IFREG \<noteq> 0"
  by (simp add: new_inode_def S_IFREG_def)

lemma put_get_ok:
  assumes w: "healthy w" "reader_ok w" and conf: "authsock conf \<noteq> None" "\<not> exec_script conf"
    and auth: "\<And>v. healthy v \<Longrightarrow> auth_check_request (p_provider P) conf (p_auth_stk P) c1 v = Some (0, v)"
      "\<And>v. healthy v \<Longrightarrow> auth_check_request (p_provider P) conf (p_auth_stk P) c2 v = Some (0, v)"
    and c1: "asks_for c1 name" "method_id c1 = PUT"
      "get_param_value (buf c1) (http_param c1) ''Content-Length'' NBUFFER 14 = Some (Some (show_nat n))"
    and c2: "asks_for c2 name" "method_id c2 = GET" "keep_alive c2" "plain_request c2"
    and n: "n \<le> length (incoming w)" "n < 2 ^ 63"
    and p: "resolve (fs w) (cwd w) name = Inr p" "\<not> dir_at (fs w) p"
      "\<And>i. lookup (fs w) p = Some i \<Longrightarrow> st_mode (i_stat i) AND S_IFREG \<noteq> 0"
    and mg: "good_line (p_magic P (take 64 (take n (incoming w))))" "NUL \<notin> set (p_magic P (take 64 (take n (incoming w))))"
      "length (p_magic P (take 64 (take n (incoming w)))) \<le> 20"
  shows "\<exists>c1' w1 c2' w2 h. send_page P conf c1 w = Some (0, c1', w1) \<and> send_page P conf c2 w1 = Some (0, c2', w2) \<and>
    sent w2 = sent w1 @ h @ take n (incoming w) \<and>
    parse_response (h @ take n (incoming w) @ rest) = Some (200, take n (incoming w), rest)"
proof -
  obtain h1 ls c1' w1 j where w1: "send_page P conf c1 w = Some (0, c1', w1)" "lookup (fs w1) p = Some j" "\<not> is_dir j"
    "i_data j = take n (incoming w)"
    "i_stat j = (case lookup (fs w) p of None \<Rightarrow> i_stat (new_inode (S_IFREG OR 0x180) p w) | Some i \<Rightarrow> i_stat i)"
    "\<forall>q. q \<noteq> p \<longrightarrow> lookup (fs w1) q = lookup (fs w) q" "cwd w1 = cwd w" "healthy w1"
    using put_ok [OF w conf(1) auth(1) [OF w(1)] c1 n p(1,2)] by blast
  have "resolve (fs w1) (cwd w1) name = Inr p"
    unfolding w1(7)
  proof (rule resolve_dirs [OF _ p(1)])
    fix r i assume r: "lookup (fs w) r = Some i" "is_dir i"
    then have "r \<noteq> p" using p(2) by (auto simp: dir_at_def)
    then show "lookup (fs w1) r = Some i" using r(1) w1(6) by simp
  qed
  moreover have "sendable P j"
    using w1(3,4,5) mg n p(3) new_file_mode [of p w] by (cases "lookup (fs w) p") (auto simp: sendable_def)
  ultimately show ?thesis
    using get_ok [OF w1(8) auth(2) [OF w1(8)] c2 _ w1(2) _ conf(2)] w1(1,4) by metis
qed

subsection \<open>Properties\<close>


definition two_requests :: "(string \<times> string) list" where
  "two_requests = [(''/a.txt'', ''hello world''), (''/d/b'', ''bee'')]"

text \<open>The two requests arrive in pieces that do not agree with them.\<close>

definition two_world :: world where
  "two_world = small_world\<lparr>input := [Data (take 9 (get_request ''/a.txt'')),
     Data (drop 9 (get_request ''/a.txt'') @ get_request ''/d/b'')]\<rparr>"

abbreviation (input) fresh_connection :: connection_t where
  "fresh_connection \<equiv> request_for 0 ''GET'' ''/'' ''X: y''"

lemma two_ready:
  "loop_ready (replicate (INBUFFER + 1) NUL, 0, fresh_connection, two_world) (map fst two_requests)"
  by (simp add: loop_ready_def two_world_def small_world_def reader_ok_def reader_inv_def incoming_def stream_def
      pending_def two_requests_def get_request_def clear_request_def request_for_def small_connection_def healthy_def)

lemma two_plain: "plain_page ''/a.txt''" "plain_page ''/d/b''"
  by (simp_all add: plain_page_def flip: find_sub_None_iff)

lemma small_sendable: "length s < 100 \<Longrightarrow> sendable small_platform (a_file s)"
  by (simp add: sendable_def a_file_def is_dir_def S_ISDIR_def file_types small_platform_def good_line_def)

lemma two_files:
  "resolve (fs two_world) (cwd two_world) ''/srv/a.txt'' = Inr [''srv'', ''a.txt'']"
  "resolve (fs two_world) (cwd two_world) ''/srv/d/b'' = Inr [''srv'', ''d'', ''b'']"
  "lookup (fs two_world) [''srv'', ''a.txt''] = Some (a_file ''hello world'')"
  "lookup (fs two_world) [''srv'', ''d'', ''b''] = Some (a_file ''bee'')"
  by (simp_all add: two_world_def small_world_def resolve_def lookup_def a_dir_def is_dir_def S_ISDIR_def file_types)



definition refusing_platform :: platform where
  "refusing_platform = small_platform\<lparr>p_provider := (\<lambda>_. 1)\<rparr>"

lemma refusing: "refuses refusing_platform auth_conf" "\<not> virtual_host auth_conf"
  by (simp_all add: refuses_def refusing_platform_def auth_conf_def small_conf_def)


text \<open>
  Claim C5. Whatever a client sends on a connection, and whatever fails meanwhile: if the provider
  grants none of its requests, no file is created, changed, renamed or removed.
\<close>

theorem refused_client_changes_nothing:
  assumes "refuses P conf" and "handle_requests P conf ev m n c w = Some (m', n', c', w')"
  shows "fs w' = fs w"
  using assms by (rule handle_requests_refused)

theorem refused_client_changes_nothing_witness:
  "\<exists>m' n' c' w'. handle_requests refusing_platform auth_conf [] (replicate (INBUFFER + 1) NUL) 0
      fresh_connection two_world = Some (m', n', c', w') \<and> fs w' = fs two_world"
proof -
  have "refused_ready refusing_platform auth_conf (fs two_world)
      (replicate (INBUFFER + 1) NUL, 0, fresh_connection, two_world) (map fst two_requests)"
    using two_ready refusing by (simp add: refused_ready_def loop_kept_def two_requests_def two_plain)
  then obtain t where "loop_run refusing_platform auth_conf [] (replicate (INBUFFER + 1) NUL, 0, fresh_connection, two_world) = Some t"
    using refused.run_all by blast
  then obtain m' n' c' w' where "handle_requests refusing_platform auth_conf [] (replicate (INBUFFER + 1) NUL) 0
      fresh_connection two_world = Some (m', n', c', w')" by (cases t) (auto simp: loop_run_def)
  from this refused_client_changes_nothing [OF refusing(1) this] show ?thesis by blast
qed


definition put_world :: world where
  "put_world = small_world\<lparr>input := [Data ''wor'', Data ''ldGET'']\<rparr>"

lemma small_auth:
  assumes "healthy v" and "c = request_for 2 ''PUT'' ''/n.txt'' ''Content-Length: 5'' \<or> c = request_for 0 ''GET'' ''/n.txt'' ''X: y''"
  shows "auth_check_request (p_provider small_platform) auth_conf (p_auth_stk small_platform) c v = Some (0, v)"
  using assms(2)
proof
  assume "c = request_for 2 ''PUT'' ''/n.txt'' ''Content-Length: 5''"
  then show ?thesis
    by (intro auth_granted [OF assms(1), of _ "''HTTP/1.1'' @ CRLF @ ''Content-Length: 5'' @ CRLF" "''/n.txt''" "''PUT''"])
      (simp_all add: request_for_def small_connection_def cstr_def CREDENTIALS_def auth_text_def AUTH_BUF_def
        HEADBUF_def PWDLIMIT_def small_platform_def)
next
  assume "c = request_for 0 ''GET'' ''/n.txt'' ''X: y''"
  then show ?thesis
    by (intro auth_granted [OF assms(1), of _ "''HTTP/1.1'' @ CRLF @ ''X: y'' @ CRLF" "''/n.txt''" "''GET''"])
      (simp_all add: request_for_def small_connection_def cstr_def CREDENTIALS_def auth_text_def AUTH_BUF_def
        HEADBUF_def PWDLIMIT_def small_platform_def)
qed



end
