(* ===== verification/Worker.thy ===== *)
theory Worker
  imports Connection
begin

section \<open>A thread and its clients\<close>

text \<open>
  The loop of \<open>instance\<close> over the sockets that \<open>q_get\<close> hands to one thread. The request
  buffer, the buffered reader and the structure of the connection belong to the thread and
  are used for one client after the other; the lemmas show that nothing of one client is
  seen by the next one.
\<close>

subsection \<open>The loop\<close>

text \<open>
  Every socket brings the address of its peer and what arrives on it; the result has the bytes
  that were sent on each. A negative number instead of a socket ends the thread, the end of
  the list.
\<close>

fun serve_sockets :: "platform \<Rightarrow> weborf_configuration_t \<Rightarrow> (string \<times> string) list \<Rightarrow> (string \<times> rd_event list) list \<Rightarrow>
    cmem \<Rightarrow> nat \<Rightarrow> connection_t \<Rightarrow> world \<Rightarrow> (string list \<times> cmem \<times> nat \<times> connection_t \<times> world) option" where
  "serve_sockets P conf ev [] m bufFull c w = Some ([], m, bufFull, c, w)"
| "serve_sockets P conf ev ((ip, evs) # socks) m bufFull c w = do {
     (m1, full1, c1, w1) \<leftarrow> serve_connection P conf ev ip m bufFull c (w\<lparr>input := evs, sent := []\<rparr>);
     (outs, t) \<leftarrow> serve_sockets P conf ev socks m1 full1 c1 w1;
     Some (sent w1 # outs, t)
   }"

subsection \<open>Lemmas\<close>

text \<open>A client: its address, the runs of bytes it sends, and the pages it asks for with their contents.\<close>

type_synonym client = "string \<times> rd_event list \<times> (string \<times> string) list"

abbreviation (input) client_ip :: "client \<Rightarrow> string" where "client_ip cl \<equiv> fst cl"
abbreviation (input) client_input :: "client \<Rightarrow> rd_event list" where "client_input cl \<equiv> fst (snd cl)"
abbreviation (input) client_reqs :: "client \<Rightarrow> (string \<times> string) list" where "client_reqs cl \<equiv> snd (snd cl)"

definition client_ok :: "platform \<Rightarrow> weborf_configuration_t \<Rightarrow> fsys \<Rightarrow> path \<Rightarrow> client \<Rightarrow> bool" where
  "client_ok P conf tr wd cl \<longleftrightarrow> length (client_ip cl) \<le> 100 \<and>
     arriving (client_input cl) = concat (map get_request (map fst (client_reqs cl))) \<and>
     list_all (page_file P conf tr wd) (client_reqs cl)"

text \<open>The reader was emptied before, so that the next client is read from its first byte.\<close>

definition thread_fresh :: "loop_state \<Rightarrow> bool" where
  "thread_fresh s \<longleftrightarrow> thread_idle s \<and> (case s of (_, _, _, w) \<Rightarrow> pending (reader w) = [])"

lemma serve_connection_public:
  assumes "thread_fresh (m, n, c, w)" and "public_conf conf" and "client_ok P conf (fs w) (cwd w) (ip, evs, reqs)"
  shows "\<exists>m1 n1 c1 w1. serve_connection P conf ev ip m n c (w\<lparr>input := evs, sent := []\<rparr>) = Some (m1, n1, c1, w1) \<and>
    parse_responses (length reqs) (sent w1) = Some (map (\<lambda>r. (200, snd r)) reqs) \<and>
    thread_fresh (m1, n1, c1, w1) \<and> fs w1 = fs w \<and> cwd w1 = cwd w"
proof -
  let ?s = "(m, n, c\<lparr>ip_addr := ip\<rparr>, w\<lparr>input := evs, sent := []\<rparr>)"
  have "public_ready P conf (fs w) (cwd w) ?s reqs"
    using assms
    by (simp add: public_ready_def loop_ready_def thread_fresh_def thread_idle_def client_ok_def incoming_def stream_def
        reader_ok_def reader_inv_def healthy_def)
  from public.run_all [OF this, of ev] obtain t out rs where t: "loop_run P conf ev ?s = Some t"
    "loop_kept (fs w) t \<and> thread_idle t \<and> loop_cwd t = cwd w" "loop_output t = loop_output ?s @ out"
    "parse_responses (length reqs) out = Some rs" "list_all2 (\<lambda>q r. r = (200, snd q)) reqs rs"
    by (elim exE conjE) (rule that, assumption, intro conjI)
  have rs: "rs = map (\<lambda>r. (200, snd r)) reqs" using t(5) by (induction rule: list_all2_induct) simp_all
  obtain m1 n1 c1 w1 where t': "t = (m1, n1, c1, w1)" by (metis prod_cases4)
  let ?w1 = "w1\<lparr>reader := buffer_reset (reader w1)\<rparr>"
  have "serve_connection P conf ev ip m n c (w\<lparr>input := evs, sent := []\<rparr>) = Some (m1, n1, c1, ?w1)"
    using t(1) by (simp add: serve_connection_def loop_run_def t')
  moreover have "thread_fresh (m1, n1, c1, ?w1)"
    using t(2) by (simp add: t' thread_fresh_def thread_idle_def buffer_reset_def pending_def reader_ok_def reader_inv_def
        healthy_def)
  ultimately show ?thesis using t(2-4) rs by (simp add: t' loop_kept_def loop_cwd_def loop_output_def)
qed

lemma serve_sockets_public:
  assumes "thread_fresh (m, n, c, w)" and "public_conf conf" and "list_all (client_ok P conf (fs w) (cwd w)) clients"
  shows "\<exists>outs m' n' c' w'.
    serve_sockets P conf ev (map (\<lambda>cl. (client_ip cl, client_input cl)) clients) m n c w = Some (outs, m', n', c', w') \<and>
    list_all2 (\<lambda>cl out. parse_responses (length (client_reqs cl)) out = Some (map (\<lambda>r. (200, snd r)) (client_reqs cl))) clients outs \<and>
    thread_fresh (m', n', c', w') \<and> fs w' = fs w"
  using assms
proof (induction clients arbitrary: m n c w)
  case (Cons cl clients)
  obtain ip evs reqs where cl: "cl = (ip, evs, reqs)" by (metis prod_cases3)
  obtain m1 n1 c1 w1 where 1: "serve_connection P conf ev ip m n c (w\<lparr>input := evs, sent := []\<rparr>) = Some (m1, n1, c1, w1)"
    "parse_responses (length reqs) (sent w1) = Some (map (\<lambda>r. (200, snd r)) reqs)" "thread_fresh (m1, n1, c1, w1)"
    "fs w1 = fs w" "cwd w1 = cwd w"
    using serve_connection_public [OF Cons.prems(1,2)] Cons.prems(3) cl by fastforce
  have "list_all (client_ok P conf (fs w1) (cwd w1)) clients" using Cons.prems(3) 1(4,5) by simp
  from Cons.IH [OF 1(3) Cons.prems(2) this] show ?case using 1 by (fastforce simp: cl)
qed simp

subsection \<open>Properties\<close>


definition two_clients :: "client list" where
  "two_clients = [(''::1'', input two_world, two_requests),
     (''::ffff:10.0.0.2'', [Data (get_request ''/d/b''), Timeout, Data ''GET''], [(''/d/b'', ''bee'')])]"

lemma two_clients_served:
  "thread_fresh (replicate (INBUFFER + 1) NUL, 0, fresh_connection, two_world)"
  "public_conf small_conf"
  "list_all (client_ok small_platform small_conf (fs two_world) (cwd two_world)) two_clients"
proof -
  show "thread_fresh (replicate (INBUFFER + 1) NUL, 0, fresh_connection, two_world)"
    using two_ready
    by (simp add: thread_fresh_def thread_idle_def loop_ready_def two_world_def small_world_def pending_def)
  show "public_conf small_conf" by (simp add: public_conf_def small_conf_def)
  show "list_all (client_ok small_platform small_conf (fs two_world) (cwd two_world)) two_clients"
    by (simp add: two_clients_def client_ok_def two_requests_def page_file_def two_plain two_files small_sendable
        small_conf_def URI_LEN_def) (simp add: a_file_def two_world_def get_request_def)
qed


end
