(* ===== verification/Wellformed.thy ===== *)
theory Wellformed
  imports Worker
begin

section \<open>What every request keeps\<close>

text \<open>
  An invariant of the platform that every system call keeps is kept by every request, whatever
  the client sends and whatever fails. The two interfaces say what such an invariant is: one
  for the calls that only read files, one for all of them; the lemmas follow the call graph of
  the server, from \<open>myio.c\<close> up to \<open>handle_requests\<close>, once for all invariants. The
  instances are the well-formedness of the state (the file tree is a tree, the descriptors
  are distinct, the reader is inside its buffer) and the surroundings that the threads of the
  process share (the working directory and the environment).
\<close>

subsection \<open>Interfaces\<close>

locale reading_frame =
  fixes inv :: "world \<Rightarrow> bool"
  assumes keep_faults: "inv w \<Longrightarrow> inv (w\<lparr>faults := l\<rparr>)"
    and keep_results: "inv w \<Longrightarrow> inv (w\<lparr>wr_results := rs\<rparr>)"
    and keep_sent: "inv w \<Longrightarrow> inv (w\<lparr>sent := s\<rparr>)"
    and keep_client_read: "inv w \<Longrightarrow> inv (snd (client_read n w))"
    and keep_add_fd: "inv w \<Longrightarrow> inv (snd (add_fd p w))"
    and keep_close: "inv w \<Longrightarrow> inv (sys_close d w)"
    and keep_lseek: "inv w \<Longrightarrow> inv (sys_lseek d n w)"
begin

lemma keep_next_fault: "inv w \<Longrightarrow> inv (snd (next_fault w))"
  by (simp add: next_fault_def keep_faults split: list.split)

lemma keep_malloc: "inv w \<Longrightarrow> inv (snd (malloc w))"
  by (simp add: malloc_def keep_next_fault case_prod_beta)

lemma keep_next_write: "inv w \<Longrightarrow> inv (snd (next_write n w))"
  by (simp add: next_write_def keep_results split: list.split)

lemma keep_client_write: "inv w \<Longrightarrow> inv (snd (client_write s w))"
  by (simp add: client_write_def keep_next_write keep_sent case_prod_beta)

lemma keep_on_path:
  assumes "inv w" and "\<And>p v. inv v \<Longrightarrow> resolve (fs v) (cwd v) s = Inr p \<Longrightarrow> inv (snd (f p v))"
  shows "inv (snd (on_path s f w))"
proof -
  obtain e v where e: "next_fault w = (e, v)" by fastforce
  moreover have "inv v" using keep_next_fault [OF assms(1)] e by simp
  ultimately show ?thesis
    using assms(2) [of v] by (auto simp: on_path_def split: option.split sum.split)
qed

lemma keep_stat: "inv w \<Longrightarrow> inv (snd (sys_stat s w))"
  by (simp add: sys_stat_def keep_on_path)

lemma keep_access: "inv w \<Longrightarrow> inv (snd (sys_access s w))"
  using keep_stat [of w s] by (simp add: sys_access_def case_prod_beta split: sum.split)

lemma keep_opendir: "inv w \<Longrightarrow> inv (snd (sys_opendir s w))"
  by (simp add: sys_opendir_def keep_on_path)

lemma keep_open_read: "inv w \<Longrightarrow> inv (snd (sys_open_read s w))"
  by (simp add: sys_open_read_def keep_on_path keep_add_fd)

lemma keep_sys_read: "inv w \<Longrightarrow> inv (snd (sys_read d n w))"
  using keep_next_fault [of w]
  by (auto simp: sys_read_def case_prod_beta Let_def keep_lseek split: option.split)

lemmas keep_calls [simp] =
  keep_faults keep_results keep_sent keep_client_read keep_close keep_lseek keep_next_fault keep_malloc
  keep_next_write keep_client_write keep_stat keep_access keep_opendir keep_open_read keep_sys_read

end

subsection \<open>A calculus for results\<close>

text \<open>
  \<open>pred_option Q r\<close> says that the result \<open>r\<close>, if there is one, satisfies \<open>Q\<close>. The rules follow
  the structure of a definition in the option monad; a rule for a bound result applies by
  the place of the state in it.
\<close>

named_theorems keeps \<open>operations that keep an invariant\<close>

lemma wp_if: "(b \<Longrightarrow> pred_option Q x) \<Longrightarrow> (\<not> b \<Longrightarrow> pred_option Q y) \<Longrightarrow> pred_option Q (if b then x else y)"
  by simp

lemma wp_option:
  "(x = None \<Longrightarrow> pred_option Q n) \<Longrightarrow> (\<And>a. x = Some a \<Longrightarrow> pred_option Q (s a)) \<Longrightarrow>
     pred_option Q (case x of None \<Rightarrow> n | Some a \<Rightarrow> s a)"
  by (cases x) simp_all

lemma wp_sum:
  "(\<And>a. x = Inl a \<Longrightarrow> pred_option Q (l a)) \<Longrightarrow> (\<And>b. x = Inr b \<Longrightarrow> pred_option Q (r b)) \<Longrightarrow>
     pred_option Q (case x of Inl a \<Rightarrow> l a | Inr b \<Rightarrow> r b)"
  by (cases x) simp_all

lemma wp_list:
  "(x = [] \<Longrightarrow> pred_option Q n) \<Longrightarrow> (\<And>y ys. x = y # ys \<Longrightarrow> pred_option Q (s y ys)) \<Longrightarrow>
     pred_option Q (case x of [] \<Rightarrow> n | y # ys \<Rightarrow> s y ys)"
  by (cases x) simp_all

lemma wp_fd:
  "pred_option Q x \<Longrightarrow> (\<And>d. pred_option Q (y d)) \<Longrightarrow> pred_option Q (case t of Client \<Rightarrow> x | Fd d \<Rightarrow> y d)"
  by (cases t) simp_all

lemma wp_prod: "(\<And>a b. p = (a, b) \<Longrightarrow> pred_option Q (f a b)) \<Longrightarrow> pred_option Q (case p of (a, b) \<Rightarrow> f a b)"
  by (cases p) simp

lemma wp_pure: "(\<And>x. m = Some x \<Longrightarrow> pred_option Q (f x)) \<Longrightarrow> pred_option Q (Option.bind m f)"
  by (cases m) simp_all

lemma wp_result: "pred_option Q r \<Longrightarrow> r = Some x \<Longrightarrow> Q x"
  by simp

lemmas wp_cases = wp_if wp_option wp_sum wp_list wp_fd

context reading_frame
begin

lemma wp_call:
  fixes p :: "'a \<times> world"
  assumes "inv (snd p)" and "\<And>a w. inv w \<Longrightarrow> pred_option Q (f a w)"
  shows "pred_option Q (case p of (a, w) \<Rightarrow> f a w)"
  using assms by (cases p) simp

lemma wp_bind1:
  fixes m :: "world option"
  assumes "pred_option inv m" and "\<And>w. inv w \<Longrightarrow> pred_option Q (f w)"
  shows "pred_option Q (Option.bind m f)"
  using assms by (cases m) simp_all

lemma wp_bind2:
  fixes m :: "('a \<times> world) option"
  assumes "pred_option (\<lambda>(a, w). inv w) m" and "\<And>a w. inv w \<Longrightarrow> pred_option Q (f a w)"
  shows "pred_option Q (Option.bind m (\<lambda>(a, w). f a w))"
  using assms by (cases m) auto

lemma wp_bind3:
  fixes m :: "('a \<times> 'b \<times> world) option"
  assumes "pred_option (\<lambda>(a, b, w). inv w) m" and "\<And>a b w. inv w \<Longrightarrow> pred_option Q (f a b w)"
  shows "pred_option Q (Option.bind m (\<lambda>(a, b, w). f a b w))"
  using assms by (cases m) auto

lemma wp_bind4:
  fixes m :: "('a \<times> 'b \<times> 'c \<times> world) option"
  assumes "pred_option (\<lambda>(a, b, c, w). inv w) m" and "\<And>a b c w. inv w \<Longrightarrow> pred_option Q (f a b c w)"
  shows "pred_option Q (Option.bind m (\<lambda>(a, b, c, w). f a b c w))"
  using assms by (cases m) auto

lemmas wp = wp_cases wp_bind1 wp_bind2 wp_bind3 wp_bind4 wp_call wp_prod wp_pure

end

subsection \<open>Requests that only read\<close>

context reading_frame
begin

lemma keep_fd_copy_loop [simp]: "inv w \<Longrightarrow> inv (fd_copy_loop d Client n w)"
proof (induction "nat n" arbitrary: n w rule: less_induct)
  case less
  obtain r w1 where rd: "sys_read d (if int FILEBUF < n then FILEBUF else nat n) w = (r, w1)" by fastforce
  then have w1: "inv w1" using keep_sys_read [OF less.prems] by (metis snd_conv)
  obtain m w2 where wr: "client_write (the r) w1 = (m, w2)" by fastforce
  then have w2: "inv w2" using keep_client_write [OF w1] by (metis snd_conv)
  have "inv (fd_copy_loop d Client (n - int (length (the r))) w2)" if "0 < n" and "the r \<noteq> []"
    using that w2 by (intro less.hyps) (cases "the r", auto)
  then show ?case
    using rd wr w1 w2 less.prems by (subst fd_copy_loop.simps) (auto simp: myio_write_def split: option.split)
qed

lemma keep_fd_copy [simp]: "inv w \<Longrightarrow> inv (snd (fd_copy d Client n w))"
  by (simp add: fd_copy_def case_prod_beta)

lemma keep_file_exists [simp]: "inv w \<Longrightarrow> inv (snd (file_exists s w))"
  by (simp add: file_exists_def)

lemma keep_send_http_header [keeps]:
  "inv w \<Longrightarrow> pred_option (\<lambda>(r, c, w). inv w) (send_http_header code sz hs content ts c w)"
  unfolding send_http_header_def Let_def by (intro wp) simp_all

lemma keep_send_two [keeps]: "inv w \<Longrightarrow> pred_option (\<lambda>(r, w). inv w) (send_two head pg w)"
  unfolding send_two_def Let_def by (intro wp) simp_all

lemma keep_send_err [keeps]: "inv w \<Longrightarrow> pred_option (\<lambda>(r, c, w). inv w) (send_err c err descr w)"
  unfolding send_err_def Let_def by (intro wp keeps) simp_all

lemma keep_request_auth [keeps]: "inv w \<Longrightarrow> pred_option (\<lambda>(r, c, w). inv w) (request_auth c w)"
  unfolding request_auth_def Let_def by (intro wp keeps) simp_all

lemma keep_send_error_header [keeps]: "inv w \<Longrightarrow> pred_option (\<lambda>(r, c, w). inv w) (send_error_header n c w)"
  unfolding send_error_header_def by (intro wp keeps) simp_all

lemma keep_options [keeps]: "inv w \<Longrightarrow> pred_option (\<lambda>(r, c, w). inv w) (options c w)"
  unfolding options_def by (intro wp keeps) simp_all

lemma keep_check_etag [keeps]: "inv w \<Longrightarrow> pred_option (\<lambda>(r, c, w). inv w) (check_etag c w)"
  unfolding check_etag_def Let_def by (intro wp keeps) simp_all

lemma keep_mime_get_fd [keeps]: "inv w \<Longrightarrow> pred_option (\<lambda>(m, w). inv w) (mime_get_fd magic d sb w)"
  unfolding mime_get_fd_def Let_def by (intro wp keeps) simp_all

lemma keep_send_mime [keeps]: "inv w \<Longrightarrow> pred_option (\<lambda>(h, w). inv w) (send_mime magic conf c hb w)"
  unfolding send_mime_def by (intro wp keeps) simp_all

lemma keep_bytes_to_send [keeps]: "inv w \<Longrightarrow> pred_option (\<lambda>(n, e, c, w). inv w) (bytes_to_send magic conf c w)"
  unfolding bytes_to_send_def Let_def by (intro wp keeps) simp_all

lemma keep_write_file [keeps]: "inv w \<Longrightarrow> pred_option (\<lambda>(r, c, w). inv w) (write_file magic conf c w)"
  unfolding write_file_def by (intro wp keeps) simp_all

lemma keep_read_header [keeps]: "inv w \<Longrightarrow> pred_option (\<lambda>(r, m, n, w). inv w) (read_header m n i w)"
proof (induction m n i w rule: read_header.induct)
  case (1 m n i w)
  show ?case
    using 1 keep_client_read [OF "1.prems", of 2] unfolding read_header.simps [of m n i w] Let_def
    by (intro wp_pure wp_option wp_prod wp_if) simp_all
qed

lemma keep_finish_header [keeps]: "inv w \<Longrightarrow> pred_option (\<lambda>(m, n, w). inv w) (finish_header e i m n w)"
  unfolding finish_header_def by (intro wp keeps) simp_all

lemma keep_read_post_data [keeps]: "inv w \<Longrightarrow> pred_option (\<lambda>(s, w). inv w) (read_post_data c w)"
  unfolding read_post_data_def Let_def by (intro wp keeps) simp_all

lemma keep_auth_check_request [keeps]: "inv w \<Longrightarrow> pred_option (\<lambda>(r, w). inv w) (auth_check_request prov conf stk c w)"
  unfolding auth_check_request_def Let_def by (intro wp keeps) simp_all

lemma keep_cache_get_item_fd [simp]: "inv w \<Longrightarrow> inv (snd (cache_get_item_fd dir n c w))"
  by (auto simp: cache_get_item_fd_def sys_flock_def case_prod_beta split: option.split sum.split)

lemma keep_cache_send_item [keeps]:
  "inv w \<Longrightarrow> pred_option (\<lambda>(r, c, w). inv w) (cache_send_item magic conf dir n c w)"
  unfolding cache_send_item_def Let_def by (intro wp keeps) simp_all

lemma keep_list_dir_loop [keeps]:
  "inv w \<Longrightarrow> pred_option (\<lambda>(d, w). inv w) (list_dir_loop date dir i names d w)"
proof (induction names arbitrary: i d w)
  case (Cons name names)
  show ?case unfolding list_dir_loop.simps Let_def by (intro Cons.IH wp) (simp_all add: Cons.prems)
qed simp

lemma keep_scandir [simp]: "inv w \<Longrightarrow> inv (snd (sys_scandir s w))"
  by (auto simp: sys_scandir_def case_prod_beta split: sum.split)

lemma keep_list_dir [keeps]:
  "inv w \<Longrightarrow> pred_option (\<lambda>(r, s, w). inv w) (list_dir date stk blocks c n parent w)"
  unfolding list_dir_def by (intro wp keeps) simp_all

lemma keep_cgi_copy_loop [keeps]: "inv w \<Longrightarrow> pred_option inv (cgi_copy_loop rs w)"
proof (induction rs arbitrary: w)
  case (Cons r rs)
  then show ?case using Cons.IH [OF keep_client_write [OF Cons.prems]] by (cases r) (simp_all add: case_prod_beta)
qed simp

lemma keep_cgi_waitfor_child [keeps]: "inv w \<Longrightarrow> pred_option (\<lambda>(r, c, w). inv w) (cgi_waitfor_child c rs w)"
  unfolding cgi_waitfor_child_def Let_def by (intro wp keeps) simp_all

lemma keep_exec_page [keeps]: "inv w \<Longrightarrow> pred_option (\<lambda>(r, c, w). inv w) (exec_page script conf a x post bd c w)"
  unfolding exec_page_def Let_def by (intro wp keeps) simp_all

lemma keep_tar_send_dir [keeps]: "inv w \<Longrightarrow> pred_option (\<lambda>(r, c, w). inv w) (tar_send_dir P c w)"
  unfolding tar_send_dir_def Let_def by (intro wp keeps) simp_all

lemma keep_find_index [keeps]: "inv w \<Longrightarrow> pred_option (\<lambda>(r, c, w). inv w) (find_index xs c w)"
proof (induction xs arbitrary: c w)
  case (Cons x xs)
  show ?case unfolding find_index.simps by (intro Cons.IH wp) (simp_all add: Cons.prems)
qed simp

end


subsection \<open>Requests that write\<close>

locale writing_frame = reading_frame +
  assumes keep_open_creat: "inv w \<Longrightarrow> inv (snd (sys_open_creat s w))"
    and keep_set_data: "inv w \<Longrightarrow> inv (w\<lparr>fs := fs_set_data p f (fs w)\<rparr>)"
    and keep_mkdir: "inv w \<Longrightarrow> inv (snd (sys_mkdir s w))"
    and keep_unlink: "inv w \<Longrightarrow> inv (snd (sys_unlink s w))"
    and keep_rmdir: "inv w \<Longrightarrow> inv (snd (sys_rmdir s w))"
    and keep_rename: "inv w \<Longrightarrow> inv (snd (sys_rename s d w))"
begin

lemma keep_ftruncate: "inv w \<Longrightarrow> inv (snd (sys_ftruncate d n w))"
  by (simp add: sys_ftruncate_def case_prod_beta keep_set_data split: option.split)

lemma keep_sys_write: "inv w \<Longrightarrow> inv (snd (sys_write d s w))"
  by (simp add: sys_write_def case_prod_beta keep_set_data split: option.split)

lemmas keep_changes [simp] =
  keep_open_creat keep_set_data keep_mkdir keep_unlink keep_rmdir keep_rename keep_ftruncate keep_sys_write

lemma keep_myio_write [simp]: "inv w \<Longrightarrow> inv (snd (myio_write to s w))"
  by (simp add: myio_write_def split: fd_t.split)

lemma keep_dir_remove [keeps]: "inv w \<Longrightarrow> pred_option (\<lambda>(r, w). inv w) (dir_remove k dir w)"
  and keep_dir_remove_entries [keeps]: "inv w \<Longrightarrow> pred_option inv (dir_remove_entries k dir es w)"
proof -
  have "(\<forall>dir w. inv w \<longrightarrow> pred_option (\<lambda>(r, w). inv w) (dir_remove k dir w)) \<and>
      (\<forall>dir es w. inv w \<longrightarrow> pred_option inv (dir_remove_entries k dir es w))"
  proof (induction k)
    case (Suc k)
    note IH = Suc [THEN conjunct2, rule_format]
    have *: "pred_option (\<lambda>(r, w). inv w) (dir_remove (Suc k) dir w)" if "inv w" for dir w
      unfolding dir_remove.simps by (intro wp IH) (simp_all add: that)
    have "pred_option inv (dir_remove_entries (Suc k) dir es w)" if "inv w" for dir es w
      using that
    proof (induction es arbitrary: w)
      case (Cons e es)
      show ?case unfolding dir_remove_entries.simps by (intro Cons.IH * wp) (simp_all add: Cons.prems)
    qed simp
    with * show ?case by blast
  next
    case 0
    have "pred_option inv (dir_remove_entries 0 dir es w)" if "inv w" for dir es w
      using that by (induction es arbitrary: w) simp_all
    then show ?case by simp
  qed
  then show "inv w \<Longrightarrow> pred_option (\<lambda>(r, w). inv w) (dir_remove k dir w)"
    and "inv w \<Longrightarrow> pred_option inv (dir_remove_entries k dir es w)" by blast+
qed

lemma keep_file_copy_loop [keeps]: "inv w \<Longrightarrow> pred_option (\<lambda>(r, w). inv w) (file_copy_loop a b w)"
proof -
  have "inv w \<longrightarrow> inv (snd x)" if "file_copy_loop a b w = Some x" for x
  proof (rule file_copy_loop.raw_induct [where P = "\<lambda>a b w x. inv w \<longrightarrow> inv (snd x)", OF _ that], rule impI)
    fix rec a b w x
    assume IH: "\<And>a b w x. rec a b w = Some x \<Longrightarrow> inv w \<longrightarrow> inv (snd x)" and w: "inv w"
      and run: "(case sys_read a FILEBUF w of
        (None, w1) \<Rightarrow> Some (0, w1)
      | (Some s, w1) \<Rightarrow>
          if s = [] then Some (0, w1)
          else (case sys_write b s w1 of
                  (wrote, w2) \<Rightarrow>
                    if wrote \<noteq> int (length s) then Some (ERR_BRKPIPE, w2)
                    else rec a b w2)) = Some x"
    have rec: "inv v \<Longrightarrow> pred_option (\<lambda>x. inv (snd x)) (rec a b v)" for v
      using IH by (cases "rec a b v") auto
    have "pred_option (\<lambda>x. inv (snd x)) (Some x)"
      unfolding run [symmetric] by (intro rec wp) (simp_all add: w)
    then show "inv (snd x)" by simp
  qed
  then show "inv w \<Longrightarrow> pred_option (\<lambda>(r, w). inv w) (file_copy_loop a b w)"
    by (cases "file_copy_loop a b w") auto
qed

lemma keep_file_copy [keeps]: "inv w \<Longrightarrow> pred_option (\<lambda>(r, w). inv w) (file_copy source dest w)"
  unfolding file_copy_def by (intro wp keeps) simp_all

lemma keep_file_move [keeps]: "inv w \<Longrightarrow> pred_option (\<lambda>(r, w). inv w) (file_move source dest w)"
  unfolding file_move_def by (intro wp keeps) simp_all

lemma keep_dir_move_copy [keeps]:
  "inv w \<Longrightarrow> pred_option (\<lambda>(r, w). inv w) (dir_move_copy k source dest meth w)"
proof -
  have "(\<forall>s d w. inv w \<longrightarrow> pred_option (\<lambda>(r, w). inv w) (dir_move_copy k s d meth w)) \<and>
      (\<forall>s d md es w. inv w \<longrightarrow> pred_option (\<lambda>(r, w). inv w) (dir_move_copy_entries k s d meth md es w))"
  proof (induction k)
    case (Suc k)
    note IH = Suc [THEN conjunct2, rule_format]
    have *: "pred_option (\<lambda>(r, w). inv w) (dir_move_copy (Suc k) s d meth w)" if "inv w" for s d w
      unfolding dir_move_copy.simps by (intro wp IH) (simp_all add: that)
    have "pred_option (\<lambda>(r, w). inv w) (dir_move_copy_entries (Suc k) s d meth md es w)" if "inv w" for s d md es w
      using that
    proof (induction es arbitrary: md w)
      case (Cons e es)
      show ?case unfolding dir_move_copy_entries.simps Let_def
        by (intro Cons.IH * wp keeps) (simp_all add: Cons.prems)
    qed simp
    with * show ?case by blast
  next
    case 0
    have "pred_option (\<lambda>(r, w). inv w) (dir_move_copy_entries 0 s d meth md es w)" if "inv w" for s d md es w
      using that
    proof (induction es arbitrary: md w)
      case (Cons e es)
      show ?case unfolding dir_move_copy_entries.simps dir_move_copy.simps Let_def
        by (intro Cons.IH wp keeps) (simp_all add: Cons.prems)
    qed simp
    then show ?case by simp
  qed
  then show "inv w \<Longrightarrow> pred_option (\<lambda>(r, w). inv w) (dir_move_copy k source dest meth w)" by blast
qed

lemma keep_dir_move [keeps]: "inv w \<Longrightarrow> pred_option (\<lambda>(r, w). inv w) (dir_move k source dest w)"
  unfolding dir_move_def by (intro wp keeps) simp_all

lemma keep_cache_get_item_fd_wr [simp]: "inv w \<Longrightarrow> inv (snd (cache_get_item_fd_wr dir n c w))"
  by (auto simp: cache_get_item_fd_wr_def sys_flock_def case_prod_beta split: option.split sum.split)

lemma keep_cache_store_item [simp]: "inv w \<Longrightarrow> inv (cache_store_item dir n c s w)"
  by (auto simp: cache_store_item_def sys_flock_def case_prod_beta Let_def split: option.split sum.split)

lemma keep_write_dir [keeps]:
  "inv w \<Longrightarrow> pred_option (\<lambda>(r, c, w). inv w) (write_dir magic date conf dir stk blocks bd c w)"
  unfolding write_dir_def Let_def by (intro wp keeps) simp_all

lemma keep_printprops [keeps]:
  "inv w \<Longrightarrow> pred_option inv (printprops magic date stk sock pg props file name parent w)"
  unfolding printprops_def by (intro wp keeps) simp_all

lemma keep_printprops_entries [keeps]:
  "inv w \<Longrightarrow> pred_option inv (printprops_entries magic date stk sock pg props dir es w)"
proof (induction es arbitrary: w)
  case (Cons e es)
  show ?case unfolding printprops_entries.simps by (intro Cons.IH wp keeps) (simp_all add: Cons.prems)
qed simp

lemma keep_send_xml [keeps]:
  "inv w \<Longrightarrow> pred_option (\<lambda>(b, w). inv w) (send_xml magic date stk to props pg file w)"
  unfolding send_xml_def Let_def by (intro wp keeps) (simp_all split: fd_t.split)

lemma keep_propfind [keeps]:
  "inv w \<Longrightarrow> pred_option (\<lambda>(r, c, w). inv w) (propfind magic date conf dir stk tail c body w)"
  unfolding propfind_def Let_def by (intro wp keeps) simp_all

lemma keep_mkcol [keeps]: "inv w \<Longrightarrow> pred_option (\<lambda>(r, w). inv w) (mkcol conf c w)"
  unfolding mkcol_def by (intro wp keeps) simp_all

lemma keep_copy_move [keeps]: "inv w \<Longrightarrow> pred_option (\<lambda>(r, w). inv w) (copy_move k stk st0 c w)"
  unfolding copy_move_def dir_copy_def Let_def by (intro wp keeps) simp_all

lemma keep_read_file_loop [keeps]: "inv w \<Longrightarrow> pred_option (\<lambda>(r, w). inv w) (read_file_loop fd l tot ret w)"
proof -
  have "inv w \<longrightarrow> inv (snd x)" if "read_file_loop fd l tot ret w = Some x" for x
  proof (rule read_file_loop.raw_induct [where P = "\<lambda>fd l tot ret w x. inv w \<longrightarrow> inv (snd x)", OF _ that], rule impI)
    fix rec fd l tot ret w x
    assume IH: "\<And>fd l tot ret w x. rec fd l tot ret w = Some x \<Longrightarrow> inv w \<longrightarrow> inv (snd x)" and w: "inv w"
      and run: "(if 0 < min (int FILEBUF) (l - tot)
        then (case client_read (nat (min (int FILEBUF) (l - tot))) w of
                (s, w1) \<Rightarrow>
                  (case sys_write fd s w1 of
                     (wrote, w2) \<Rightarrow>
                       if wrote \<noteq> int (length s) then Some (ERR_BRKPIPE, w2)
                       else rec fd l (tot + int (length s)) ret w2))
        else Some (ret, w)) = Some x"
    have rec: "inv v \<Longrightarrow> pred_option (\<lambda>x. inv (snd x)) (rec fd l n ret v)" for n v
      using IH by (cases "rec fd l n ret v") auto
    have "pred_option (\<lambda>x. inv (snd x)) (Some x)"
      unfolding run [symmetric] by (intro rec wp) (simp_all add: w)
    then show "inv (snd x)" by simp
  qed
  then show "inv w \<Longrightarrow> pred_option (\<lambda>(r, w). inv w) (read_file_loop fd l tot ret w)"
    by (cases "read_file_loop fd l tot ret w") auto
qed

lemma keep_read_file [keeps]: "inv w \<Longrightarrow> pred_option (\<lambda>(r, w). inv w) (read_file conf c w)"
  unfolding read_file_def Let_def by (intro wp keeps) simp_all

lemma keep_delete_file [keeps]: "inv w \<Longrightarrow> pred_option (\<lambda>(r, w). inv w) (delete_file k conf c w)"
  unfolding delete_file_def by (intro wp keeps) simp_all

lemma keep_get_or_post [keeps]: "inv w \<Longrightarrow> pred_option (\<lambda>(r, c, w). inv w) (get_or_post P conf body c w)"
  unfolding get_or_post_def by (intro wp keeps) simp_all

lemma keep_with_connection [keeps]:
  "pred_option (\<lambda>(r, w). inv w) x \<Longrightarrow> pred_option (\<lambda>(r, c, w). inv w) (with_connection c x)"
  by (cases x) (auto simp: with_connection_def)

lemma keep_other_method [keeps]: "inv w \<Longrightarrow> pred_option (\<lambda>(r, c, w). inv w) (other_method P conf c w)"
  unfolding other_method_def by (intro wp keeps) simp_all

lemma keep_serve_page [keeps]: "inv w \<Longrightarrow> pred_option (\<lambda>(r, c, w). inv w) (serve_page P conf c w)"
  unfolding serve_page_def Let_def by (intro wp keeps) simp_all

lemma keep_send_page [keeps]: "inv w \<Longrightarrow> pred_option (\<lambda>(r, c, w). inv w) (send_page P conf c w)"
  unfolding send_page_def by (intro wp keeps) simp_all

lemma keep_bad_request [keeps]: "inv w \<Longrightarrow> pred_option (\<lambda>(m, n, c, w). inv w) (bad_request m n c w)"
  unfolding bad_request_def by (intro wp keeps) simp_all

lemma wp_header:
  assumes "pred_option Q a" and "pred_option Q b" and "\<And>e i. pred_option Q (h e i)"
  shows "pred_option Q (case r of header_result.Closed \<Rightarrow> a | Full \<Rightarrow> b | Header e i \<Rightarrow> h e i)"
  using assms by (cases r) simp_all

lemma keep_handle_requests [keeps]:
  "inv w \<Longrightarrow> pred_option (\<lambda>(m, n, c, w). inv w) (handle_requests pl conf ev m n c w)"
proof -
  let ?P = "\<lambda>pl conf ev m n c w (x :: cmem \<times> nat \<times> connection_t \<times> world). inv w \<longrightarrow> inv (snd (snd (snd x)))"
  have "inv w \<longrightarrow> inv (snd (snd (snd x)))" if "handle_requests pl conf ev m n c w = Some x" for x
  proof (rule handle_requests.raw_induct [where P = ?P, OF _ that], rule impI)
    fix rec :: "platform \<Rightarrow> weborf_configuration_t \<Rightarrow> (string \<times> string) list \<Rightarrow> cmem \<Rightarrow> nat \<Rightarrow>
        connection_t \<Rightarrow> world \<Rightarrow> (cmem \<times> nat \<times> connection_t \<times> world) option"
      and pl conf ev m bufFull c w x
    assume IH: "\<And>pl conf ev m n c w x. rec pl conf ev m n c w = Some x \<Longrightarrow> ?P pl conf ev m n c w x" and w: "inv w"
      and run: "do {
     (r, m1, full1, w1) \<leftarrow> read_header (clear_request m bufFull) 0 0 w;
     case r of
       header_result.Closed \<Rightarrow> Some (m1, full1, c, w1)
     | Full \<Rightarrow> bad_request m1 full1 c w1
     | Header e from \<Rightarrow> do {
         (m2, full2, w2) \<leftarrow> finish_header e from m1 full1 w1;
         parsed \<leftarrow> parse_request m2 c;
         case parsed of
           None \<Rightarrow> bad_request m2 full2 c w2
         | Some c1 \<Rightarrow> do {
             c2 \<leftarrow> set_connection_props conf ev c1;
             (res, c3, w3) \<leftarrow> send_page pl conf c2 w2;
             if res < 0 \<or> \<not> keep_alive c3 then Some (buf c3, full2, c3, w3)
             else rec pl conf ev (buf c3) full2 c3 w3
           }
       }
   } = Some x"
    have rec: "inv v \<Longrightarrow> pred_option (\<lambda>(m, n, c, w). inv w) (rec pl conf ev m n c v)" for m n c v
      using IH by (cases "rec pl conf ev m n c v") auto
    have "pred_option (\<lambda>(m, n, c, w). inv w) (Some x)"
      unfolding run [symmetric] by (intro rec wp_header wp keeps) (simp_all add: w)
    then show "inv (snd (snd (snd x)))" by auto
  qed
  then show "inv w \<Longrightarrow> pred_option (\<lambda>(m, n, c, w). inv w) (handle_requests pl conf ev m n c w)"
    by (cases "handle_requests pl conf ev m n c w") auto
qed

end

subsection \<open>The surroundings\<close>

text \<open>
  The working directory and the environment belong to the process, so that every thread sees
  them: no request changes them.
\<close>

definition surroundings :: "path \<Rightarrow> (string \<times> string) list \<Rightarrow> world \<Rightarrow> bool" where
  "surroundings d e w \<longleftrightarrow> cwd w = d \<and> env w = e"

interpretation surroundings: writing_frame "surroundings d e" for d e
proof unfold_locales
  fix w s t p n
  assume w: "surroundings d e w"
  show "surroundings d e (snd (client_read n w))" "surroundings d e (snd (add_fd p w))"
    using w by (auto simp: surroundings_def client_read_def add_fd_def split: prod.split)
qed (auto simp: surroundings_def sys_close_def sys_lseek_def sys_open_creat_def sys_mkdir_def sys_unlink_def sys_rmdir_def
    sys_rename_def on_path_def with_fs_def add_fd_def next_fault_def case_prod_beta Let_def
    split: option.split sum.split list.split prod.split)


subsection \<open>Trees stay trees\<close>

text \<open>A place in the tree where a file is or can be created.\<close>

definition placed :: "fsys \<Rightarrow> path \<Rightarrow> bool" where
  "placed tr q \<longleftrightarrow> q = [] \<or> dir_at tr (butlast q) \<and> proper (last q)"

lemma fs_okD: "fs_ok tr \<Longrightarrow> p \<in> fst ` set tr \<Longrightarrow> p \<noteq> [] \<Longrightarrow> dir_at tr (butlast p) \<and> proper (last p)"
  by (auto simp: fs_ok_def)

lemma fs_ok_placed: "fs_ok tr \<Longrightarrow> p \<in> fst ` set tr \<Longrightarrow> placed tr p"
  by (auto simp: fs_ok_def placed_def)

lemma split_slash_plain_names: "n \<in> set (split_slash s) \<Longrightarrow> CHR ''/'' \<notin> set n"
  by (induction s arbitrary: n) (auto split: if_splits list.splits)

lemma walk_placed:
  assumes "fs_ok tr" and "walk tr p ns = Inr q" and "placed tr p" and "\<forall>n \<in> set ns. CHR ''/'' \<notin> set n"
  shows "placed tr q"
  using assms(2-)
proof (induction ns arbitrary: p)
  case (Cons n ns)
  then have d: "dir_at tr p" by (auto simp: dir_at_def split: option.splits if_splits)
  then have p: "p \<in> fst ` set tr" by (rule dir_atD)
  have "placed tr (butlast p)"
    using fs_ok_placed [OF assms(1)] p assms(1) dir_atD by (cases "p = []") (auto simp: fs_ok_def)
  moreover have "placed tr (p @ [n])" if "n \<noteq> []" "n \<noteq> ''.''" "n \<noteq> ''..''"
    using that d Cons.prems(3) by (simp add: placed_def proper_def)
  ultimately show ?case
    using Cons d by (auto simp: dir_at_def split: option.splits if_splits)
qed simp

lemma resolve_placed:
  assumes "fs_ok tr" and "resolve tr wd s = Inr q"
  shows "placed tr q"
proof -
  obtain p where p: "walk tr p (split_slash s) = Inr q" using assms(2) by (auto simp: resolve_def split: if_splits)
  obtain n ns where ns: "split_slash s = n # ns" by (metis list.exhaust split_slash_not_Nil)
  have "dir_at tr p" using p by (auto simp: ns dir_at_def split: option.splits if_splits)
  then have "placed tr p" using fs_ok_placed [OF assms(1)] dir_atD by blast
  then show ?thesis using walk_placed [OF assms(1) p] split_slash_plain_names by blast
qed

lemma dir_at_iff: "distinct (map fst tr) \<Longrightarrow> dir_at tr p \<longleftrightarrow> (\<exists>i. (p, i) \<in> set tr \<and> is_dir i)"
  by (auto simp: dir_at_def lookup_def split: option.splits dest: map_of_SomeD eq_key_imp_eq_value)

lemma fs_ok_new [inv_intros]:
  assumes "fs_ok tr" and "placed tr p" and "lookup tr p = None"
  shows "fs_ok (AList.update p i tr)"
proof -
  have p: "p \<notin> fst ` set tr" "p \<noteq> []" using assms(1,3) dir_atD by (auto simp: lookup_iff fs_ok_def)
  have d: "dir_at (AList.update p i tr) q" if "dir_at tr q" for q
    using that assms(3) by (auto simp: dir_at_def lookup_def update_conv split: option.splits)
  have "fst ` set (AList.update p i tr) = insert p (fst ` set tr)" by (simp add: dom_update)
  moreover have "dir_at tr (butlast p)" "proper (last p)" using assms(2) p(2) by (simp_all add: placed_def)
  ultimately show ?thesis using assms(1) d by (auto simp: fs_ok_def distinct_update)
qed

lemma fs_ok_set_data [inv_intros]: "fs_ok tr \<Longrightarrow> fs_ok (fs_set_data p f tr)"
proof (cases "lookup tr p")
  case (Some i)
  assume ok: "fs_ok tr"
  let ?tr = "AList.update p (i\<lparr>i_data := f (i_data i)\<rparr>) tr"
  have "dir_at ?tr q = dir_at tr q" for q
    using Some by (auto simp: dir_at_def lookup_def update_conv is_dir_def)
  moreover have "p \<in> fst ` set tr" using Some by (metis lookup_iff option.distinct(1))
  then have "fst ` set ?tr = fst ` set tr" by (auto simp: dom_update)
  ultimately show ?thesis using ok Some by (simp add: fs_set_data_def fs_ok_def distinct_update)
qed (simp add: fs_set_data_def)

lemma fs_ok_unlink: "fs_ok tr \<Longrightarrow> fs_unlink p tr = Inr tr' \<Longrightarrow> fs_ok tr'"
proof -
  assume ok: "fs_ok tr" and run: "fs_unlink p tr = Inr tr'"
  then have "\<not> dir_at tr p" "tr' = AList.delete p tr"
    by (auto simp: fs_unlink_def dir_at_def split: option.splits if_splits)
  moreover from this ok have "p \<noteq> []" by (auto simp: fs_ok_def)
  ultimately show "fs_ok tr'" using delete_file_without [OF ok] fs_ok_without [OF ok] by simp
qed

lemma delete_leaf: "fs_ok tr \<Longrightarrow> children tr p = [] \<Longrightarrow> AList.delete p tr = without p tr"
  using delete_emptied_without [of tr p] by simp

lemma fs_ok_rmdir: "fs_ok tr \<Longrightarrow> fs_rmdir p tr = Inr tr' \<Longrightarrow> fs_ok tr'"
  using delete_leaf [of tr p] fs_ok_without [of tr p] by (auto simp: fs_rmdir_def split: option.splits if_splits)

lemma take_prefix_iff: "take (length p) r = p \<longleftrightarrow> prefix p r"
  by (metis append_eq_conv_conj prefix_def take_is_prefix)

lemma relocate_under: "relocate p q (p @ s) = q @ s"
  by (simp add: relocate_def)

lemma relocate_other: "\<not> prefix p r \<Longrightarrow> relocate p q r = r"
  by (simp add: relocate_def take_prefix_iff)

lemma fs_ok_relocate:
  assumes ok: "fs_ok tr" and p: "p \<noteq> []" and q: "q \<notin> fst ` set tr" "placed tr q" "\<not> prefix p q"
  shows "fs_ok (map (\<lambda>(r, j). (relocate p q r, j)) tr)"
proof -
  let ?tr = "map (\<lambda>(r, j). (relocate p q r, j)) tr"
  have dist: "distinct (map fst tr)" and root: "dir_at tr []" using ok by (simp_all add: fs_ok_def)
  have q0: "q \<noteq> []" using q(1) dir_atD [OF root] by blast
  have fresh: "q @ s \<notin> fst ` set tr" for s
    using fs_ok_prefix [OF ok, of q s] dir_atD q(1) by (cases "s = []") auto
  have inj: "inj_on (relocate p q) (fst ` set tr)"
  proof (rule inj_onI)
    fix a b assume ab: "a \<in> fst ` set tr" "b \<in> fst ` set tr" "relocate p q a = relocate p q b"
    have "a \<noteq> q @ s" "b \<noteq> q @ s" for s using ab(1,2) fresh by metis+
    then show "a = b"
      using ab(3) relocate_under [of p q] relocate_other [of p _ q] by (metis prefixE same_append_eq)
  qed
  have dist': "distinct (map fst ?tr)"
    using dist inj by (simp add: distinct_map comp_def case_prod_beta comp_inj_on_iff [symmetric] inj_on_def image_image)
  have moved: "dir_at ?tr (relocate p q r)" if "dir_at tr r" for r
    using that unfolding dir_at_iff [OF dist] dir_at_iff [OF dist'] by force
  have parent: "\<not> prefix p (butlast r)" if "\<not> prefix p r" for r
    using that using prefix_order.trans [of p "butlast r" r] prefixeq_butlast [of r] by blast
  show ?thesis
    unfolding fs_ok_def
  proof (intro conjI ballI impI)
    show "distinct (map fst ?tr)" by (rule dist')
    show "dir_at ?tr []" using moved [OF root] p by (simp add: relocate_other)
    fix k assume "k \<in> fst ` set ?tr" and k0: "k \<noteq> []"
    then obtain r where r: "r \<in> fst ` set tr" "k = relocate p q r" by (force simp: image_iff)
    show "dir_at ?tr (butlast k)" and "proper (last k)"
    proof -
      consider "r = p" | s where "r = p @ s" "s \<noteq> []" | "\<not> prefix p r" by (auto simp: prefix_def)
      then have "dir_at ?tr (butlast k) \<and> proper (last k)"
      proof cases
        case 1
        then have "k = q" using r(2) relocate_under [of p q "[]"] by simp
        then show ?thesis using q moved [of "butlast q"] q0 parent [OF q(3)] by (simp add: placed_def relocate_other)
      next
        case 2
        then have "dir_at tr (p @ butlast s)" "proper (last s)" using fs_okD [OF ok r(1)] by (simp_all add: butlast_append)
        then show ?thesis using 2 r(2) moved [of "p @ butlast s"] by (simp add: relocate_under butlast_append)
      next
        case 3
        then have "k = r" using r(2) by (simp add: relocate_other)
        then show ?thesis using ok r(1) k0 moved [of "butlast r"] parent [OF 3] by (auto simp: fs_ok_def relocate_other)
      qed
      then show "dir_at ?tr (butlast k)" and "proper (last k)" by blast+
    qed
  qed
qed

lemma fs_ok_rename:
  assumes ok: "fs_ok tr" and q: "placed tr q" and run: "fs_rename p q tr = Inr tr'"
  shows "fs_ok tr'"
proof (cases "p = q")
  case False
  obtain i where i: "lookup tr p = Some i" using run by (auto simp: fs_rename_def split: option.splits)
  have pq: "p \<noteq> []" "q \<noteq> []" "\<not> prefix p q"
    using run i False by (auto simp: fs_rename_def take_prefix_iff split: if_splits)
  show ?thesis
  proof (cases "lookup tr q")
    case None
    then have "tr' = map (\<lambda>(r, j). (relocate p q r, j)) tr"
      using run i False by (auto simp: fs_rename_def split: if_splits)
    then show ?thesis using fs_ok_relocate [OF ok pq(1) _ q pq(3)] None by (simp add: lookup_iff)
  next
    case (Some d)
    then have c: "children tr q = []" and tr': "tr' = map (\<lambda>(r, j). (relocate p q r, j)) (AList.delete q tr)"
      using run i False by (auto simp: fs_rename_def split: if_splits)
    let ?tr = "AList.delete q tr"
    have ok': "fs_ok ?tr" using fs_ok_without [OF ok pq(2)] delete_leaf [OF ok c] by simp
    have "dir_at ?tr (butlast q)"
      using q pq(2) by (auto simp: placed_def dir_at_def lookup_def delete_conv') (metis butlast.simps(1) length_butlast nat_neq_iff diff_less length_greater_0_conv zero_less_one)
    then have "placed ?tr q" using q by (auto simp: placed_def)
    then show ?thesis unfolding tr' by (intro fs_ok_relocate [OF ok' pq(1) _ _ pq(3)]) (auto simp: delete_filter)
  qed
qed (use run ok in \<open>auto simp: fs_rename_def split: option.splits\<close>)


subsection \<open>Well-formed states\<close>

text \<open>
  The file tree is a tree with a root, every descriptor is in use once and is none of the
  three standard ones, and the indices of the buffered reader are inside its buffer.
\<close>

definition world_ok :: "world \<Rightarrow> bool" where
  "world_ok w \<longleftrightarrow> fs_ok (fs w) \<and> distinct (map fst (fds w)) \<and> (\<forall>d \<in> fst ` set (fds w). 3 \<le> d) \<and> reader_ok w"

lemma new_fd_greater: "d \<in> fst ` set (fds w) \<Longrightarrow> d < new_fd w"
proof -
  have "d \<in> fst ` set xs \<Longrightarrow> d < foldr (\<lambda>(e, _) m. max (e + 1) m) xs (3 :: int)" for xs :: "(int \<times> open_file) list"
    by (induction xs) (force simp: less_max_iff_disj simp del: set_map intro: rev_image_eqI)+
  then show "d \<in> fst ` set (fds w) \<Longrightarrow> d < new_fd w" by (simp add: new_fd_def)
qed

lemma world_ok_add_fd: "world_ok w \<Longrightarrow> world_ok (snd (add_fd p w))"
  using new_fd_greater [of _ w] new_fd_least [of w] by (auto simp: world_ok_def add_fd_def reader_ok_def)

lemma world_ok_close: "world_ok w \<Longrightarrow> world_ok (sys_close d w)"
proof -
  assume w: "world_ok w"
  have "\<forall>e \<in> fst ` set (AList.delete d (fds w)). 3 \<le> e" using w dom_delete_subset unfolding world_ok_def by fast
  moreover have "distinct (map fst (AList.delete d (fds w)))" using w unfolding world_ok_def by (intro distinct_delete) blast
  ultimately show ?thesis using w by (simp add: world_ok_def sys_close_def reader_ok_def del: image_iff ball_simps)
qed

lemma world_ok_lseek: "world_ok w \<Longrightarrow> world_ok (sys_lseek d n w)"
proof (cases "map_of (fds w) d")
  case (Some f)
  assume w: "world_ok w"
  have "d \<in> fst ` set (fds w)" using Some map_of_SomeD by force
  then show ?thesis
    using w Some by (auto simp: world_ok_def sys_lseek_def reader_ok_def distinct_update dom_update insert_absorb)
qed (simp add: sys_lseek_def)

lemma world_ok_tree: "world_ok w \<Longrightarrow> fs_ok tr \<Longrightarrow> world_ok (w\<lparr>fs := tr\<rparr>)"
  by (simp add: world_ok_def reader_ok_def)

lemma world_ok_ino: "world_ok (w\<lparr>next_ino := n\<rparr>) = world_ok w"
  by (simp add: world_ok_def reader_ok_def)

lemma world_ok_with_fs: "world_ok w \<Longrightarrow> (\<And>tr. r = Inr tr \<Longrightarrow> fs_ok tr) \<Longrightarrow> world_ok (snd (with_fs r w))"
  by (auto simp: with_fs_def world_ok_tree split: sum.split)

interpretation wellformed_reading: reading_frame world_ok
proof unfold_locales
  fix w s d p l rs n
  assume w: "world_ok w"
  show "world_ok (w\<lparr>faults := l\<rparr>)" "world_ok (w\<lparr>wr_results := rs\<rparr>)" "world_ok (w\<lparr>sent := s\<rparr>)"
    using w by (simp_all add: world_ok_def reader_ok_def)
  show "world_ok (snd (client_read n w))"
    using w reader.rd_ok [of "(reader w, input w)" n]
    by (auto simp: world_ok_def client_read_def reader_ok_def split: prod.split)
  show "world_ok (snd (add_fd p w))" using w by (rule world_ok_add_fd)
  show "world_ok (sys_close d w)"
    using w by (rule world_ok_close)
  show "world_ok (sys_lseek d n w)"
    using w by (rule world_ok_lseek)
qed

interpretation wellformed: writing_frame world_ok
proof unfold_locales
  fix w s t p f
  assume w: "world_ok w"
  have tree: "fs_ok (fs v)" if "world_ok v" for v using that by (simp add: world_ok_def)
  show "world_ok (snd (sys_open_creat s w))"
    unfolding sys_open_creat_def
    by (rule wellformed_reading.keep_on_path [OF w])
      (auto simp: world_ok_add_fd world_ok_tree world_ok_ino fs_ok_new [OF tree resolve_placed [OF tree]] split: option.split)
  show "world_ok (w\<lparr>fs := fs_set_data p f (fs w)\<rparr>)" using w tree [OF w] by (simp add: world_ok_tree fs_ok_set_data)
  show "world_ok (snd (sys_mkdir s w))"
    unfolding sys_mkdir_def
    by (rule wellformed_reading.keep_on_path [OF w])
      (auto intro!: world_ok_with_fs simp: world_ok_ino fs_mkdir_def fs_ok_new [OF tree resolve_placed [OF tree]] split: if_splits)
  show "world_ok (snd (sys_unlink s w))"
    unfolding sys_unlink_def
    by (rule wellformed_reading.keep_on_path [OF w]) (auto intro!: world_ok_with_fs dest: fs_ok_unlink [OF tree])
  show "world_ok (snd (sys_rmdir s w))"
    unfolding sys_rmdir_def
    by (rule wellformed_reading.keep_on_path [OF w]) (auto intro!: world_ok_with_fs dest: fs_ok_rmdir [OF tree])
  show "world_ok (snd (sys_rename s t w))"
    unfolding sys_rename_def
    by (rule wellformed_reading.keep_on_path [OF w])
      (auto intro!: world_ok_with_fs dest: fs_ok_rename [OF tree resolve_placed [OF tree]] split: sum.split)
qed

lemma world_ok_thread:
  "world_ok w \<Longrightarrow> world_ok (w\<lparr>input := evs, sent := s\<rparr>)"
  "world_ok w \<Longrightarrow> world_ok (w\<lparr>reader := buffer_reset (reader w)\<rparr>)"
  by (simp_all add: world_ok_def reader_ok_def reader_inv_def buffer_reset_def)

lemma serve_connection_keeps:
  assumes "world_ok w" and "serve_connection P conf ev ip m n c w = Some (m', n', c', w')"
  shows "world_ok w' \<and> surroundings (cwd w) (env w) w'"
proof -
  obtain w1 where run: "handle_requests P conf ev m n (c\<lparr>ip_addr := ip\<rparr>) w = Some (m', n', c', w1)"
    and w': "w' = w1\<lparr>reader := buffer_reset (reader w1)\<rparr>"
    using assms(2) by (auto simp: serve_connection_def bind_eq_Some_conv)
  have "world_ok w1" using wellformed.keep_handle_requests [OF assms(1), of P conf ev m n "c\<lparr>ip_addr := ip\<rparr>"] run by simp
  moreover have "surroundings (cwd w) (env w) w1"
    using surroundings.keep_handle_requests [of "cwd w" "env w" w P conf ev m n "c\<lparr>ip_addr := ip\<rparr>"] run
    by (simp add: surroundings_def)
  ultimately show ?thesis by (simp add: w' world_ok_thread surroundings_def)
qed

subsection \<open>Properties\<close>




end
