(* ===== verification/Tls.thy ===== *)
theory Tls
  imports Worker
begin

section \<open>Connections with TLS\<close>

text \<open>
  The descriptors of \<open>types.h\<close> with an optional TLS session, the calls of \<open>myio.c\<close> that choose
  between the socket and the session, the buffered reader on such a descriptor, and the
  handshake of \<open>instance\<close>. OpenSSL is not part of the program: \<open>SSL_read\<close>, \<open>SSL_write\<close> and the
  result of \<open>SSL_accept\<close> are arguments. On a descriptor without a session the reader is
  exactly the one of \<open>BufReader\<close>; on one with a session it is not, because it polls the
  socket and not the session.
\<close>

subsection \<open>Descriptors\<close>

record 's ssl_fd =
  fd :: int
  ssl :: "'s option"

definition myio_getfd :: "'s ssl_fd \<Rightarrow> int" where
  "myio_getfd f = fd f"

definition fd2ssl_fd :: "int \<Rightarrow> 's ssl_fd" where
  "fd2ssl_fd d = \<lparr>fd = d, ssl = None\<rparr>"

definition myio_write_ssl :: "('s \<Rightarrow> string \<Rightarrow> 'w \<Rightarrow> int \<times> 'w) \<Rightarrow> (int \<Rightarrow> string \<Rightarrow> 'w \<Rightarrow> int \<times> 'w) \<Rightarrow>
    's ssl_fd \<Rightarrow> string \<Rightarrow> 'w \<Rightarrow> int \<times> 'w" where
  "myio_write_ssl SSL_write write f bytes w =
     (case ssl f of Some s \<Rightarrow> SSL_write s bytes w | None \<Rightarrow> write (fd f) bytes w)"

definition myio_read_ssl :: "('s \<Rightarrow> nat \<Rightarrow> 'w \<Rightarrow> int \<times> string \<times> 'w) \<Rightarrow> (int \<Rightarrow> nat \<Rightarrow> 'w \<Rightarrow> int \<times> string \<times> 'w) \<Rightarrow>
    's ssl_fd \<Rightarrow> nat \<Rightarrow> 'w \<Rightarrow> int \<times> string \<times> 'w" where
  "myio_read_ssl SSL_read read f cnt w =
     (case ssl f of Some s \<Rightarrow> SSL_read s cnt w | None \<Rightarrow> read (fd f) cnt w)"

subsection \<open>The reader on a descriptor\<close>

text \<open>
  \<open>buffer_fill\<close> and \<open>buffer_read\<close> again, now on a descriptor: \<open>poll\<close> returns 0 when the time is
  over. A peer that never stops sending keeps the loop going, so it is a partial function.
\<close>

definition fd_fill :: "(int \<Rightarrow> 'w \<Rightarrow> int \<times> 'w) \<Rightarrow> ('s ssl_fd \<Rightarrow> nat \<Rightarrow> 'w \<Rightarrow> int \<times> string \<times> 'w) \<Rightarrow>
    's ssl_fd \<Rightarrow> buffered_read_t \<Rightarrow> 'w \<Rightarrow> int \<times> buffered_read_t \<times> 'w" where
  "fd_fill poll rd f b w =
     (case poll (myio_getfd f) w of
        (p, w1) \<Rightarrow>
          (case if p = 0 then (0, [], w1) else rd f (rsize b) w1 of
             (r, d, w2) \<Rightarrow>
               if r \<le> 0 then (r, b\<lparr>rstart := 0, rend := 0\<rparr>, w2)
               else (r, b\<lparr>rbuffer := d @ drop (length d) (rbuffer b), rstart := 0, rend := nat r\<rparr>, w2)))"

partial_function (option) fd_read_loop :: "(int \<Rightarrow> 'w \<Rightarrow> int \<times> 'w) \<Rightarrow>
    ('s ssl_fd \<Rightarrow> nat \<Rightarrow> 'w \<Rightarrow> int \<times> string \<times> 'w) \<Rightarrow> 's ssl_fd \<Rightarrow> nat \<Rightarrow> buffered_read_t \<Rightarrow> string \<Rightarrow> 'w \<Rightarrow>
    (string \<times> buffered_read_t \<times> 'w) option" where
  "fd_read_loop poll rd f cnt b out w =
     (if length out < cnt then
        let available = rend b - rstart b; needed = cnt - length out in
        if needed \<le> available
        then Some (out @ take needed (drop (rstart b) (rbuffer b)), b\<lparr>rstart := rstart b + needed\<rparr>, w)
        else
          let out' = out @ take available (drop (rstart b) (rbuffer b)) in
          (case fd_fill poll rd f b w of
             (r, b', w') \<Rightarrow>
               if r \<le> 0 then Some (out', b', w') else fd_read_loop poll rd f cnt b' out' w')
      else Some (out, b, w))"

subsection \<open>The handshake\<close>

text \<open>
  One round of \<open>instance\<close>: \<open>ctx\<close> says that there is a context and \<open>accepted\<close> is what \<open>SSL_accept\<close>
  returned; after a failed handshake the connection is closed like any other.
\<close>

definition serve_socket :: "bool \<Rightarrow> int \<Rightarrow> platform \<Rightarrow> weborf_configuration_t \<Rightarrow> (string \<times> string) list \<Rightarrow> string \<Rightarrow>
    cmem \<Rightarrow> nat \<Rightarrow> connection_t \<Rightarrow> world \<Rightarrow> (cmem \<times> nat \<times> connection_t \<times> world) option" where
  "serve_socket ctx accepted P conf ev ip m bufFull c w =
     (if ctx \<and> accepted \<noteq> 1
      then Some (m, bufFull, c\<lparr>ip_addr := ip\<rparr>, w\<lparr>reader := buffer_reset (reader w)\<rparr>)
      else serve_connection P conf ev ip m bufFull c w)"

subsection \<open>Without a session\<close>

definition plain_poll :: "int \<Rightarrow> rd_event list \<Rightarrow> int \<times> rd_event list" where
  "plain_poll d evs = (case evs of Timeout # es \<Rightarrow> (0, es) | _ \<Rightarrow> (1, evs))"

definition plain_read :: "int \<Rightarrow> nat \<Rightarrow> rd_event list \<Rightarrow> int \<times> string \<times> rd_event list" where
  "plain_read d n evs =
     (case evs of
        Data s # es \<Rightarrow> (int (length (take n s)), take n s, if drop n s = [] then es else Data (drop n s) # es)
      | ReadErr # es \<Rightarrow> (-1, [], es)
      | _ \<Rightarrow> (0, [], []))"

lemma fd_fill_plain:
  "fd_fill plain_poll (myio_read_ssl SSL_read plain_read) (fd2ssl_fd d) b evs = buffer_fill evs b"
  by (cases evs rule: input_size.cases)
    (auto simp: fd_fill_def plain_poll_def plain_read_def myio_read_ssl_def myio_getfd_def fd2ssl_fd_def buffer_fill_def Let_def
      min_def)

lemma fd_read_plain:
  "fd_read_loop plain_poll (myio_read_ssl SSL_read plain_read) (fd2ssl_fd d) cnt b out evs =
    Some (buffer_read_loop evs b cnt out)"
proof (induction evs b cnt out rule: buffer_read_loop.induct)
  case (1 evs b cnt out)
  then show ?case
    by (subst fd_read_loop.simps, subst buffer_read_loop.simps) (auto simp: Let_def fd_fill_plain split: prod.splits)
qed

subsection \<open>With a session\<close>

text \<open>
  A session hands out at most the bytes that are asked for and keeps the rest of the record;
  the socket has nothing more to read then. The reader polls the socket, takes that for the
  end of the stream, and the rest of the record is lost for it: a body that is longer than
  the buffer is cut, although it has arrived completely.
\<close>

lemma session_record_is_cut:
  assumes empty: "rstart b = rend b" and b: "0 < rsize b"
    and fill: "poll (fd f) w = (1, w)" "SSL_read s (rsize b) w = (int (rsize b), d, w1)" "length d = rsize b"
    and rest: "poll (fd f) w1 = (0, w2)"
    and f: "ssl f = Some s" and cnt: "rsize b < cnt"
  shows "\<exists>b'. fd_read_loop poll (myio_read_ssl SSL_read read) f cnt b [] w = Some (d, b', w2)"
proof -
  let ?b = "b\<lparr>rbuffer := d @ drop (length d) (rbuffer b), rstart := 0, rend := rsize b\<rparr>"
  have 1: "fd_fill poll (myio_read_ssl SSL_read read) f b w = (int (rsize b), ?b, w1)"
    using fill b by (simp add: fd_fill_def myio_getfd_def myio_read_ssl_def f)
  have 2: "fd_fill poll (myio_read_ssl SSL_read read) f ?b w1 = (0, ?b\<lparr>rstart := 0, rend := 0\<rparr>, w2)"
    using rest by (simp add: fd_fill_def myio_getfd_def)
  have "fd_read_loop poll (myio_read_ssl SSL_read read) f cnt b [] w =
      fd_read_loop poll (myio_read_ssl SSL_read read) f cnt ?b [] w1"
    using 1 empty cnt b by (subst fd_read_loop.simps) simp
  also have "\<dots> = Some (d, ?b\<lparr>rstart := 0, rend := 0\<rparr>, w2)"
    using 2 fill(3) cnt b by (subst fd_read_loop.simps) simp
  finally show ?thesis by blast
qed

text \<open>A session as the manual of the library describes it: what is left of a record, and the records.\<close>

definition session_poll :: "int \<Rightarrow> string \<times> string list \<Rightarrow> int \<times> string \<times> string list" where
  "session_poll d w = (if snd w = [] then 0 else 1, w)"

definition session_read :: "unit \<Rightarrow> nat \<Rightarrow> string \<times> string list \<Rightarrow> int \<times> string \<times> string \<times> string list" where
  "session_read s n w =
     (case w of
        (p, rs) \<Rightarrow>
          let (cur, rs') = (if p = [] \<and> rs \<noteq> [] then (hd rs, tl rs) else (p, rs))
          in (int (length (take n cur)), take n cur, drop n cur, rs'))"

lemma session_record_is_cut_example:
  "\<exists>b'. fd_read_loop session_poll (myio_read_ssl session_read read) \<lparr>fd = 5, ssl = Some ()\<rparr> 5
    (snd (buffer_init 4 (Some ''....''))) [] ([], [''hello'']) = Some (''hell'', b', ''o'', [])"
  by (rule session_record_is_cut [where s = "()" and ?w1.0 = "(''o'', [])"])
    (simp_all add: session_poll_def session_read_def buffer_init_def buffer_reset_def)

text \<open>
  Records that fit the buffer do no harm: the reader gets from the session what it would get
  from a socket on which the contents of the records arrive.
\<close>

lemma session_fill:
  assumes "list_all (\<lambda>d. d \<noteq> [] \<and> length d \<le> rsize b) rs"
  obtains r b' where "buffer_fill (map Data rs) b = (r, b', map Data (tl rs))" and "rsize b' = rsize b"
    and "fd_fill session_poll (myio_read_ssl session_read read) \<lparr>fd = d, ssl = Some ()\<rparr> b ([], rs) = (r, b', [], tl rs)"
    and "0 < r \<Longrightarrow> rs \<noteq> []"
  using assms
  by (cases rs) (auto simp: fd_fill_def session_poll_def session_read_def myio_read_ssl_def myio_getfd_def buffer_fill_def)

lemma session_read_whole:
  assumes "list_all (\<lambda>d. d \<noteq> [] \<and> length d \<le> rsize b) rs" and "buffer_read_loop (map Data rs) b cnt out = (s, b', evs)"
  shows "\<exists>rs'. evs = map Data rs' \<and>
    fd_read_loop session_poll (myio_read_ssl session_read read) \<lparr>fd = d, ssl = Some ()\<rparr> cnt b out ([], rs) =
      Some (s, b', [], rs')"
  using assms
proof (induction rs arbitrary: b out)
  case Nil
  obtain r b1 where "buffer_fill (map Data []) b = (r, b1, map Data (tl []))"
    "fd_fill session_poll (myio_read_ssl session_read read) \<lparr>fd = d, ssl = Some ()\<rparr> b ([], []) = (r, b1, [], tl [])"
    "0 < r \<Longrightarrow> [] \<noteq> ([] :: string list)"
    using session_fill [OF Nil.prems(1), of read d] by metis
  then show ?case
    using Nil.prems(2) by (subst fd_read_loop.simps, subst (asm) buffer_read_loop.simps) (auto simp: Let_def split: if_splits)
next
  case (Cons x rs)
  let ?rd = "myio_read_ssl session_read read" and ?f = "\<lparr>fd = d, ssl = Some ()\<rparr>"
  let ?av = "rend b - rstart b" and ?out = "out @ take (rend b - rstart b) (drop (rstart b) (rbuffer b))"
  obtain r b1 where f: "buffer_fill (map Data (x # rs)) b = (r, b1, map Data rs)" and b1: "rsize b1 = rsize b"
    and f': "fd_fill session_poll ?rd ?f b ([], x # rs) = (r, b1, [], rs)"
    using session_fill [OF Cons.prems(1), of read d] by (metis list.sel(3))
  have ok: "list_all (\<lambda>d. d \<noteq> [] \<and> length d \<le> rsize b1) rs" using Cons.prems(1) b1 by simp
  note old = buffer_read_loop.simps [of "map Data (x # rs)" b cnt out]
  note new = fd_read_loop.simps [of session_poll ?rd ?f cnt b out "([], x # rs)"]
  show ?case
  proof (cases "length out < cnt \<and> \<not> cnt - length out \<le> ?av \<and> 0 < r")
    case True
    then have "buffer_read_loop (map Data rs) b1 cnt ?out = (s, b', evs)"
      using Cons.prems(2) unfolding old f by (simp add: Let_def)
    from Cons.IH [OF ok this] True show ?thesis
      unfolding new f' by (simp add: Let_def)
  next
    case False
    have "s = out \<and> evs = map Data (x # rs) \<or> \<not> ?av < cnt - length out \<and> evs = map Data (x # rs) \<or> evs = map Data rs"
      using Cons.prems(2) False unfolding old f by (auto simp: Let_def split: if_splits)
    then show ?thesis
      using Cons.prems(2) False unfolding old new f f' by (auto simp: Let_def split: if_splits intro: exI [of _ "x # rs"])
  qed
qed

text \<open>The same bytes on a socket without a session are read completely.\<close>

lemma plain_record_is_read:
  "\<exists>b' evs. fd_read_loop plain_poll (myio_read_ssl SSL_read plain_read) (fd2ssl_fd 5) 5
    (snd (buffer_init 4 (Some ''....''))) [] [Data ''hello''] = Some (''hello'', b', evs)"
proof -
  let ?s = "(snd (buffer_init 4 (Some ''....'')), [Data ''hello''])"
  have "reader_inv ?s" by (rule buffer_init_inv) simp_all
  then have "fst (buffer_read ?s 5) = take 5 (stream ?s)" by (rule reader.rd_bytes)
  then have "fst (buffer_read_loop [Data ''hello''] (fst ?s) 5 []) = ''hello''"
    by (simp add: buffer_read_def stream_def pending_def buffer_init_def buffer_reset_def)
  then show ?thesis by (metis fd_read_plain fst_conv prod.collapse)
qed

subsection \<open>Handshakes\<close>

text \<open>
  A failed handshake sends nothing, changes no file and leaves the thread ready for its next
  client; without a context the handshake plays no part.
\<close>

lemma failed_handshake:
  assumes "accepted \<noteq> 1" and "length ip \<le> 100" and "thread_idle (m, n, c, w)"
  shows "\<exists>c' w'. serve_socket True accepted P conf ev ip m n c w = Some (m, n, c', w') \<and>
    sent w' = sent w \<and> fs w' = fs w \<and> env w' = env w \<and> thread_fresh (m, n, c', w')"
  using assms
  by (simp add: serve_socket_def thread_fresh_def thread_idle_def buffer_reset_def pending_def reader_ok_def reader_inv_def
      healthy_def)

lemma no_handshake: "serve_socket False accepted P conf ev ip m n c w = serve_connection P conf ev ip m n c w"
  by (simp add: serve_socket_def)

end
