(* ===== verification/Startup.thy ===== *)
theory Startup
  imports Instance
begin

section \<open>The start of the process: main, the server socket and the status report\<close>

text \<open>
  \<open>main\<close> of \<open>listener.c\<close> up to its loop: the options, the server socket of \<open>mynet.c\<close>, the
  privileges, the queue and the first group of threads, in this order. What the platform
  answers to the calls is collected in the record \<open>start_env\<close>. The result is the exit
  status of the process or the state in which the loop of the theory \<open>Listener\<close> begins.
  \<open>print_queue_status\<close>, the handler of SIGUSR1, is here because it reads that state.
\<close>

subsection \<open>The server socket\<close>

text \<open>
  A socket has file status flags, which \<open>F_SETFL\<close> changes, and apart from them the
  descriptor flag that closes it in a program that is executed. \<open>F_SETFL\<close> only changes the
  five flags of \<open>SETFL_FLAGS\<close> (append, non-blocking, asynchronous, direct, no access time).
\<close>

record server_socket =
  so_reuseaddr :: bool
  so_v6only :: bool
  so_flags :: "32 word"
  so_cloexec :: bool

definition O_NONBLOCK :: "32 word" where "O_NONBLOCK = 0x800"
definition O_CLOEXEC :: "32 word" where "O_CLOEXEC = 0x80000"
definition SETFL_FLAGS :: "32 word" where "SETFL_FLAGS = 0x46C00"

definition sys_setfl :: "32 word \<Rightarrow> server_socket \<Rightarrow> server_socket" where
  "sys_setfl flags s = s\<lparr>so_flags := (so_flags s AND NOT SETFL_FLAGS) OR (flags AND SETFL_FLAGS)\<rparr>"

text \<open>
  \<open>new\<close> is the socket that the platform created, if any; without one every later call fails
  on the descriptor \<open>-1\<close>. The result \<open>None\<close> is \<open>-1\<close>.
\<close>

definition net_create_server_socket :: "server_socket option \<Rightarrow> bool \<Rightarrow> bool \<Rightarrow> server_socket option" where
  "net_create_server_socket new v6only_ok reuse_ok =
     (case new of
        None \<Rightarrow> None
      | Some s \<Rightarrow>
          (let s1 = (if v6only_ok then s\<lparr>so_v6only := False\<rparr> else s) in
           if \<not> reuse_ok then None
           else let s2 = s1\<lparr>so_reuseaddr := True\<rparr>;
                    flags = so_flags s2 OR (O_NONBLOCK OR O_CLOEXEC)
                in Some (sys_setfl flags s2)))"

subsection \<open>TLS, the daemon and the capabilities\<close>

text \<open>
  \<open>init_ssl\<close>: whether the library gives a context and accepts the two files are parameters;
  the result is the exit status, and \<open>abort\<close> is the status of its signal. \<open>daemonize\<close> goes on
  only in the child of \<open>fork\<close>.
\<close>

definition init_ssl :: "bool \<Rightarrow> (string option \<Rightarrow> int) \<Rightarrow> (string option \<Rightarrow> int) \<Rightarrow>
    string option \<Rightarrow> string option \<Rightarrow> int option" where
  "init_ssl ctx use_certificate use_key certificate key =
     (if \<not> ctx then Some 134
      else if use_certificate certificate \<noteq> 1 then Some 19
      else if use_key key \<noteq> 1 then Some 19
      else None)"

definition daemonize :: "bool \<Rightarrow> int option" where
  "daemonize child = (if child then None else Some 0)"

text \<open>\<open>print_capabilities\<close>: the options that the program was compiled with.\<close>

record build =
  has_ipv6 :: bool
  has_webdav :: bool
  has_mime :: bool
  has_embedded_auth :: bool
  has_https :: bool

definition yes_no :: "bool \<Rightarrow> string" where
  "yes_no b = (if b then ''yes'' else ''no'')"

definition print_capabilities :: "string \<Rightarrow> build \<Rightarrow> string" where
  "print_capabilities version b =
     ''version:'' @ version @ [LF] @
     ''ipv:'' @ (if has_ipv6 b then ''6'' else ''4'') @ [LF] @
     ''webdav:'' @ yes_no (has_webdav b) @ [LF] @
     ''mime:'' @ yes_no (has_mime b) @ [LF] @
     ''embedded_auth:'' @ yes_no (has_embedded_auth b) @ [LF] @
     ''https:'' @ yes_no (has_https b) @ [LF]"

subsection \<open>main\<close>

definition NOMEM :: int where "NOMEM = 7"

text \<open>
  The answers of the platform: the options of \<open>getopt_long\<close>, the TLS library and the bytes
  of an uninitialised structure; the socket and what \<open>setsockopt\<close>, \<open>inet_pton\<close> and \<open>bind\<close>
  answer; whether \<open>fork\<close> returned in the child; the block of the queue; the results of
  \<open>pthread_create\<close>; the identity of the process; and what \<open>inetd\<close> needs.
\<close>

record start_env =
  e_opts :: "(char \<times> cmem option) list"
  e_ssl_ctx :: bool
  e_ssl_certificate :: "string option \<Rightarrow> int"
  e_ssl_key :: "string option \<Rightarrow> int"
  e_stat :: stat
  e_socket :: "server_socket option"
  e_v6only_ok :: bool
  e_reuse_ok :: bool
  e_pton :: "string \<Rightarrow> bool"
  e_bind :: "string option \<Rightarrow> int \<Rightarrow> bool"
  e_child :: bool
  e_block :: "int list option"
  e_threads :: "bool list"
  e_ids :: ids
  e_platform :: platform
  e_mime :: int
  e_peer :: string
  e_reader :: cmem
  e_name :: cmem
  e_connection :: connection_t

record server =
  srv_settings :: settings
  srv_socket :: server_socket
  srv_addr :: "string option \<times> int"
  srv_ids :: ids
  srv_state :: lsys

definition start_server :: "start_env \<Rightarrow> settings \<Rightarrow> int + server" where
  "start_server e st =
     (let conf = s_conf st; sock = net_create_server_socket (e_socket e) (e_v6only_ok e) (e_reuse_ok e) in
      case net_bind_and_listen (e_pton e) (\<lambda>a p. sock \<noteq> None \<and> e_bind e a p) conf of
        Inl n \<Rightarrow> Inl n
      | Inr addr \<Rightarrow>
          (case drop_privileges conf (e_ids e) of
             Inl n \<Rightarrow> Inl n
           | Inr i \<Rightarrow>
               if conf_daemonize conf \<and> daemonize (e_child e) \<noteq> None then Inl (the (daemonize (e_child e)))
               else (case q_init (MAXTHREAD + 1) (e_block e) of
                       (r, q) \<Rightarrow>
                         if r \<noteq> 0 then Inl NOMEM
                         else Inr \<lparr>srv_settings = st, srv_socket = the sock, srv_addr = addr, srv_ids = i,
                           srv_state = init_threads (of_nat INITIALTHREAD) (e_threads e)
                             \<lparr>l_queue = q, thread_info = init_thread_info, threads = [], main_at = Poll,
                              last_action = 0, opened = [], closed = []\<rparr>\<rparr>)))"

definition main_start :: "start_env \<Rightarrow> world \<Rightarrow> ((int + server) \<times> world) option" where
  "main_start e w = do {
     (r, w1) \<leftarrow> configuration_load (init_ssl (e_ssl_ctx e) (e_ssl_certificate e) (e_ssl_key e)) (e_stat e) (e_opts e) w;
     case r of
       Inl n \<Rightarrow> Some (Inl n, w1)
     | Inr st \<Rightarrow>
         if is_inetd (s_conf st)
         then do {
           (n, w2) \<leftarrow> inetd ((e_platform e)\<lparr>p_cachedir := s_cachedir st\<rparr>) (s_conf st) (env w1) (e_mime e) (e_peer e)
             (e_reader e) (e_name e) (e_connection e) w1;
           Some (Inl n, w2)
         }
         else Some (start_server e st, w1)
   }"

subsection \<open>The status report\<close>

text \<open>
  \<open>print_queue_status\<close>: \<open>q_free\<close> and \<open>t_free\<close> say that \<open>pthread_mutex_trylock\<close> took the lock. The
  unsigned counters are printed with \<open>%d\<close>.
\<close>

definition TAB :: string where "TAB = [CHR 0x09]"

definition print_queue_status :: "bool \<Rightarrow> bool \<Rightarrow> lsys \<Rightarrow> string" where
  "print_queue_status q_free t_free s =
     (let q = l_queue s; ti = thread_info s in
      (if q_free then ''Queue is unlocked'' else ''Queue is locked'') @ [LF] @
      (if t_free then ''thread_info is unlocked'' else ''thread_info is locked'') @ [LF] @
      ''=== Queue ==='' @ [LF] @
      ''count:      '' @ show_nat (q_num q) @ TAB @ ''size:       '' @ show_nat (q_size q) @ [LF] @
      ''head:       '' @ show_nat (q_head q) @ TAB @ ''tail:       '' @ show_nat (q_tail q) @ [LF] @
      ''wait_data:  '' @ show_nat (n_wait_dt q) @ TAB @ ''wait_space: '' @ show_nat (n_wait_sp q) @ [LF] @
      ''=== Threads ==='' @ [LF] @
      ''Maximum:    '' @ show_nat MAXTHREAD @ [LF] @
      ''Started:    '' @ show_int (sint (ti_count ti)) @ [LF] @
      ''Free:       '' @ show_int (sint (ti_free ti)) @ [LF] @
      ''Busy:       '' @ show_int (sint (ti_count ti - ti_free ti)) @ [LF])"

subsection \<open>Lemmas\<close>

text \<open>TLS is used only with a certificate and a key that the library accepts.\<close>

lemma init_ssl_accepts: "init_ssl ctx uc uk cert key = None \<longleftrightarrow> ctx \<and> uc cert = 1 \<and> uk key = 1"
  by (simp add: init_ssl_def)

text \<open>
  The flag \<open>O_CLOEXEC\<close> belongs to \<open>open\<close> and \<open>socket\<close>: handed to \<open>F_SETFL\<close> it has no effect,
  so that the scripts of CGI inherit the server socket if it was not created otherwise.
\<close>

lemma server_socket_flags:
  assumes "net_create_server_socket (Some new) v6 reuse = Some s"
  shows "so_flags s AND O_NONBLOCK \<noteq> 0" and "so_reuseaddr s" and "v6 \<Longrightarrow> \<not> so_v6only s"
  using assms
  by (auto simp: net_create_server_socket_def sys_setfl_def O_NONBLOCK_def O_CLOEXEC_def SETFL_FLAGS_def Let_def
      bit.conj_disj_distrib2 and.assoc split: if_splits)

lemma server_socket_is_inherited:
  "net_create_server_socket (Some new) v6 reuse = Some s \<Longrightarrow> so_cloexec s = so_cloexec new"
  by (auto simp: net_create_server_socket_def sys_setfl_def Let_def split: if_splits)

lemma dropped_identity:
  assumes "drop_privileges conf i = Inr i'"
  shows "conf_uid conf \<noteq> 0 \<Longrightarrow> p_uid i' = conf_uid conf \<and> sys_setuid 0 i' = None"
    and "conf_gid conf \<noteq> 0 \<Longrightarrow> p_gid i' = conf_gid conf"
  using assms
  by (auto simp: drop_privileges_def set_new_uid_def set_new_gid_def sys_setuid_def sys_setgid_def
      ROOTUID_def ROOTGID_def split: sum.splits option.splits if_splits)

lemma bound_port:
  "net_bind_and_listen pton bind_ok conf = Inr (a, p) \<Longrightarrow> 1 \<le> p \<and> p \<le> 65535 \<and> bind_ok a p"
  by (auto simp: net_bind_and_listen_def Let_def split: option.splits if_splits)

lemma start_server_Inr:
  assumes "start_server e st = Inr srv" and "pred_option (\<lambda>b. length b = MAXTHREAD + 1) (e_block e)"
  shows "lreach (srv_state srv)" and "srv_settings srv = st"
    and "net_create_server_socket (e_socket e) (e_v6only_ok e) (e_reuse_ok e) = Some (srv_socket srv)"
    and "1 \<le> snd (srv_addr srv) \<and> snd (srv_addr srv) \<le> 65535"
    and "drop_privileges (s_conf st) (e_ids e) = Inr (srv_ids srv)"
proof -
  let ?sock = "net_create_server_socket (e_socket e) (e_v6only_ok e) (e_reuse_ok e)"
  obtain addr i block where
    a: "net_bind_and_listen (e_pton e) (\<lambda>a p. ?sock \<noteq> None \<and> e_bind e a p) (s_conf st) = Inr addr" and
    i: "drop_privileges (s_conf st) (e_ids e) = Inr i" and b: "e_block e = Some block" and
    srv: "srv = \<lparr>srv_settings = st, srv_socket = the ?sock, srv_addr = addr, srv_ids = i,
      srv_state = l_start block (e_threads e)\<rparr>"
    using assms(1)
    by (auto simp: start_server_def Let_def q_init_def NOMEM_def l_start_def split: sum.splits if_splits option.splits)
  show "lreach (srv_state srv)" using assms(2) b by (simp add: srv lreach.start)
  show "srv_settings srv = st" "drop_privileges (s_conf st) (e_ids e) = Inr (srv_ids srv)" by (simp_all add: srv i)
  have "1 \<le> snd addr \<and> snd addr \<le> 65535 \<and> ?sock \<noteq> None" using bound_port [of _ _ _ "fst addr" "snd addr"] a by auto
  then show "?sock = Some (srv_socket srv)" "1 \<le> snd (srv_addr srv) \<and> snd (srv_addr srv) \<le> 65535" by (auto simp: srv)
qed

text \<open>A program that reads the capabilities line by line finds the options of the build.\<close>

fun lines_of :: "string \<Rightarrow> string list" where
  "lines_of [] = [[]]"
| "lines_of (ch # s) = (if ch = LF then [] # lines_of s else (ch # hd (lines_of s)) # tl (lines_of s))"

lemma lines_of_line: "LF \<notin> set l \<Longrightarrow> lines_of (l @ LF # s) = l # lines_of s"
  by (induction l) auto

lemma lines_of_concat: "\<forall>l \<in> set ls. LF \<notin> set l \<Longrightarrow> lines_of (concat (map (\<lambda>l. l @ [LF]) ls)) = ls @ [[]]"
  by (induction ls) (simp_all add: lines_of_line)

lemma capabilities_lines:
  assumes "LF \<notin> set version"
  shows "lines_of (print_capabilities version b) = [''version:'' @ version, ''ipv:'' @ (if has_ipv6 b then ''6'' else ''4''),
    ''webdav:'' @ yes_no (has_webdav b), ''mime:'' @ yes_no (has_mime b), ''embedded_auth:'' @ yes_no (has_embedded_auth b),
    ''https:'' @ yes_no (has_https b)] @ [[]]" (is "_ = ?ls @ _")
proof -
  have "print_capabilities version b = concat (map (\<lambda>l. l @ [LF]) ?ls)" by (simp add: print_capabilities_def)
  moreover have "\<forall>l \<in> set ?ls. LF \<notin> set l" using assms by (simp add: yes_no_def)
  ultimately show ?thesis using lines_of_concat [of ?ls] by simp
qed

lemma report_counts:
  assumes "lreach s"
  shows "sint (ti_count (thread_info s)) = int (tally live (threads s))"
    and "sint (ti_free (thread_info s)) = int (tally idle (threads s))"
    and "sint (ti_count (thread_info s) - ti_free (thread_info s)) =
      int (tally (\<lambda>p. live p \<and> \<not> idle p) (threads s))"
proof -
  let ?l = "tally live (threads s)" and ?i = "tally idle (threads s)"
  have c: "ti_count (thread_info s) = of_nat ?l" "ti_free (thread_info s) = of_nat ?i" "?l < 300"
    using counters_reach [OF assms] by (simp_all add: counters_ok_def thread_limits)
  have le: "?i \<le> ?l" by (rule idle_le_live)
  have small: "sint (of_nat n :: 32 word) = int n" if "n < 300" for n
    using that signed_take_bit_int_eq_self_iff [of 31 "int n"] by (simp add: signed_of_nat)
  show "sint (ti_count (thread_info s)) = int ?l" "sint (ti_free (thread_info s)) = int ?i"
    using c le by (simp_all add: small)
  have "tally (\<lambda>p. live p \<and> \<not> idle p) ths = tally live ths - tally idle ths" for ths
  proof (induction ths)
    case (Cons p ths)
    then show ?case using idle_le_live [of ths] by (auto simp: tally_def idle_def live_def)
  qed (simp add: tally_def)
  then show "sint (ti_count (thread_info s) - ti_free (thread_info s)) = int (tally (\<lambda>p. live p \<and> \<not> idle p) (threads s))"
    using c le small [of "?l - ?i"] by (simp add: of_nat_diff)
qed


subsection \<open>Properties\<close>


definition root_env :: start_env where
  "root_env =
     \<lparr>e_opts = [(CHR ''u'', Some (''33'' @ [NUL])), (CHR ''g'', Some (''34'' @ [NUL])), (CHR ''p'', Some (''80'' @ [NUL])),
        (CHR ''i'', Some (''10.0.0.1'' @ [NUL]))],
      e_ssl_ctx = True, e_ssl_certificate = (\<lambda>_. 1), e_ssl_key = (\<lambda>_. 1), e_stat = stat_of a_dir,
      e_socket = Some \<lparr>so_reuseaddr = False, so_v6only = True, so_flags = 2, so_cloexec = False\<rparr>,
      e_v6only_ok = True, e_reuse_ok = True, e_pton = (\<lambda>_. True), e_bind = (\<lambda>_ _. True), e_child = True,
      e_block = Some (replicate 301 0), e_threads = [True, False], e_ids = \<lparr>p_uid = 0, p_gid = 0\<rparr>,
      e_platform = small_platform, e_mime = 0, e_peer = ''::1'', e_reader = [], e_name = [],
      e_connection = small_connection\<rparr>"



end
