(* ===== verification/Texts.thy ===== *)
theory Texts
  imports Startup
begin

section \<open>The texts of the program\<close>

text \<open>
  What \<open>utils.c\<close> prints for \<open>--version\<close>, \<open>--help\<close> and \<open>--moo\<close> and when the server starts, and
  the table of options of \<open>configuration_load\<close> that the help describes. The version and the
  address for reports come from \<open>config.h\<close>, which the build writes, and are arguments. All but
  the disclaimer end the process with status 0, which is \<open>plain_option\<close> in \<open>Config\<close>.
\<close>

subsection \<open>Texts\<close>

definition out_lines :: "string list \<Rightarrow> string" where
  "out_lines ls = concat (map (\<lambda>l. l @ [LF]) ls)"

definition version :: "string \<Rightarrow> string" where
  "version v = out_lines
    [''Weborf '' @ v,
     ''Copyright (C) 2007-2020 Salvo 'LtWorf' Tomaselli.'',
     ''This is free software.  You may redistribute copies of it under the terms of'',
     ''the GNU General Public License <http://www.gnu.org/licenses/gpl.html>.'',
     ''There is NO WARRANTY, to the extent permitted by law.'',
     [],
     ''Written by Salvo 'LtWorf' Tomaselli and Salvo Rinaldi.'',
     ''Synchronized queue by Prof. Giuseppe Pappalardo.'',
     [],
     ''https://ltworf.github.io/weborf/'']"

definition help_options :: "string list" where
  "help_options =
    [''  -a, --auth    followed by absolute path of the program to handle authentication'',
     ''  -b, --basedir followed by absolute path of basedir'',
     ''  -C, --cache   sets the directory to use for cache files'',
     ''  -c, --cgi     list of cgi files and binary to execute them comma-separated'',
     ''  -d            run as a daemon'',
     ''  -h, --help    display this help and exit'',
     ''  -I, --index   list of index files, comma-separated'',
     ''  -i, --ip  followed by IP address to listen (dotted format)'',
     ''  -k, --caps    lists the capabilities of the binary'',
     ''  -m, --mime    sends content type header to clients'',
     ''  -p, --port    followed by port number to listen'',
     ''  -T  --inetd   must be specified when using weborf with inetd or xinetd'',
     ''  -t  --tar     will send the directories as .tar.gz files'',
     ''  -u  --uid     followed by a valid uid'',
     ''                If started by root weborf will use this user to read files and execute scripts'',
     ''  -g  --gid     followed by a valid gid'',
     ''  -V, --virtual list of virtualhosts in the form host=basedir, comma-separated'',
     ''  -v, --version print program version'',
     ''  -S, --cert    the certificate to use'',
     ''  -K, --key     the private key to use with the certificate'',
     ''  -Y, --yesexec enables CGI'']"

definition help_head :: "build \<Rightarrow> string list" where
  "help_head b =
     [TAB @ ''Usage: weborf [OPTIONS]'', TAB @ ''Start the weborf webserver'', [],
      TAB @ (if has_ipv6 b then ''Compiled for IPv6'' else ''Compiled for IPv4'')] @
     (if has_webdav b then [TAB @ ''Has webdav support''] else []) @
     (if has_mime b then [TAB @ ''Has MIME support''] else []) @
     [''Default port is        '' @ PORT, ''Default base directory '' @ BASEDIR, ''Signature used         '' @ SIGNATURE, []]"

definition print_help :: "string \<Rightarrow> build \<Rightarrow> string" where
  "print_help bugreport b = out_lines
    (help_head b @ help_options @
     [[], ''Report bugs here https://bugs.launchpad.net/weborf'', ''or to '' @ bugreport])"

definition BACKSLASH :: string where "BACKSLASH = [CHR 0x5C]"

definition moo :: string where
  "moo = out_lines
    ['' _____________________________________'',
     ''< Weborf ha i poteri della supermucca >'',
     '' -------------------------------------'',
     ''        '' @ BACKSLASH @ ''   ^__^'',
     ''         '' @ BACKSLASH @ ''  (oo)'' @ BACKSLASH @ ''_______'',
     ''            (__)'' @ BACKSLASH @ ''       )'' @ BACKSLASH @ ''/'' @ BACKSLASH,
     ''                ||----w |'',
     ''                ||     ||'']"

definition print_start_disclaimer :: "string list \<Rightarrow> string" where
  "print_start_disclaimer argv = out_lines
    [''Weborf'',
     ''This program comes with ABSOLUTELY NO WARRANTY.'',
     ''This is free software, and you are welcome to redistribute it'',
     ''under certain conditions.'',
     ''For details see the GPLv3 License.'',
     ''Run '' @ hd argv @ '' --help to see the options'']"

subsection \<open>The table of options\<close>

text \<open>The name, whether an argument is required, and the letter; then the string of the letters.\<close>

definition long_options :: "(string \<times> bool \<times> char) list" where
  "long_options =
    [(''version'', False, CHR ''v''), (''caps'', False, CHR ''k''), (''help'', False, CHR ''h''),
     (''port'', True, CHR ''p''), (''ip'', True, CHR ''i''), (''uid'', True, CHR ''u''),
     (''gid'', True, CHR ''g''), (''daemonize'', False, CHR ''d''), (''basedir'', True, CHR ''b''),
     (''index'', True, CHR ''I''), (''auth'', True, CHR ''a''), (''virtual'', True, CHR ''V''),
     (''moo'', False, CHR ''M''), (''yesexec'', False, CHR ''Y''), (''cgi'', True, CHR ''c''),
     (''cache'', True, CHR ''C''), (''mime'', False, CHR ''m''), (''inetd'', False, CHR ''T''),
     (''tar'', False, CHR ''t''), (''cert'', True, CHR ''S''), (''key'', True, CHR ''K'')]"

definition short_options :: string where
  "short_options = ''ktTMmvhp:i:I:u:g:dYb:a:V:c:C:S:''"

text \<open>The option string as \<open>getopt_long\<close> reads it: a colon behind a letter requires an argument.\<close>

fun short_arg :: "string \<Rightarrow> char \<Rightarrow> bool option" where
  "short_arg [] ch = None"
| "short_arg (x # xs) ch =
    (if x = ch \<and> ch \<noteq> CHR '':'' then Some (take 1 xs = '':'') else short_arg xs ch)"

subsection \<open>Lemmas\<close>

text \<open>
  Every option but \<open>--moo\<close> has a line in the help with its letter, and all but \<open>--daemonize\<close>
  with their long name; the letters mean the same in both tables, with the exception of \<open>K\<close>,
  which the help announces and the option string lacks.
\<close>

definition describes :: "string \<Rightarrow> char \<Rightarrow> string \<Rightarrow> bool" where
  "describes l ch n \<longleftrightarrow> take 4 l = ''  -'' @ [ch] \<and> take (length n + 2) (drop 6 l) = ''--'' @ n"

lemma help_describes_options:
  "list_all (\<lambda>(n, _, ch). n \<in> {''moo'', ''daemonize''} \<or> list_ex (\<lambda>l. describes l ch n) help_options) long_options"
  by (simp add: long_options_def help_options_def describes_def)

lemma option_tables_agree:
  "list_all (\<lambda>(n, a, ch). short_arg short_options ch = (if ch = CHR ''K'' then None else Some a)) long_options"
  by (simp add: long_options_def short_options_def)

text \<open>The options without an argument are handled: none of them is taken for an unknown one.\<close>

lemma plain_options_are_handled:
  "list_all (\<lambda>(n, a, ch). a \<or> plain_option ch st w \<noteq> Some (Inl 19, w)) long_options"
  by (simp add: long_options_def plain_option_def set_conf_def)

text \<open>What the user reads: the lines of the help, among them all descriptions.\<close>

lemma help_lines:
  assumes "LF \<notin> set bugreport"
  shows "set help_options \<subseteq> set (lines_of (print_help bugreport b))"
proof -
  let ?foot = "[[], ''Report bugs here https://bugs.launchpad.net/weborf'', ''or to '' @ bugreport]"
  have "list_all (\<lambda>l. LF \<notin> set l) (help_head b)"
    by (simp add: help_head_def TAB_def PORT_def BASEDIR_def SIGNATURE_def)
  moreover have "list_all (\<lambda>l. LF \<notin> set l) help_options" by (simp add: help_options_def)
  moreover have "list_all (\<lambda>l. LF \<notin> set l) ?foot" using assms by simp
  ultimately have "list_all (\<lambda>l. LF \<notin> set l) (help_head b @ help_options @ ?foot)" by (simp only: list_all_append simp_thms)
  then have "\<forall>l \<in> set (help_head b @ help_options @ ?foot). LF \<notin> set l" by (simp only: list_all_iff)
  from lines_of_concat [OF this] show ?thesis
    unfolding print_help_def out_lines_def by (simp only: set_append) blast
qed

end
