(* ===== verification/Daemons.thy ===== *)
theory Daemons
  imports Instance
begin

section \<open>Authentication providers: the two example daemons\<close>

text \<open>
  The programs \<open>examples/weborf_auth.c\<close> and \<open>examples/weborf_auth_dav.c\<close>: the body of the
  loop that answers one request of the server. The array \<open>str\<close> is kept from one request to
  the next; \<open>bytes\<close> is what \<open>recv\<close> delivers, \<open>None\<close> that it failed. The result is the
  array and the text sent back (empty grants the request); an access outside of the array
  or through a null pointer is \<open>None\<close>. The lemmas say what the daemons grant when they
  are sent the text of \<open>auth_check_request\<close>, and what the built-in provider of the theory
  \<open>Auth\<close> grants.
\<close>

subsection \<open>Definitions\<close>

definition DAEMON_SIZE :: nat where "DAEMON_SIZE = 1024"

definition receive :: "cmem \<Rightarrow> string option \<Rightarrow> cmem option" where
  "receive str bytes =
     (case bytes of
        None \<Rightarrow> None
      | Some s \<Rightarrow> do {
          m \<leftarrow> c_write str 0 (take DAEMON_SIZE s);
          c_poke m (length (take DAEMON_SIZE s)) NUL
        })"

text \<open>\<open>weborf_auth.c\<close>: pages below \<open>/film\<close> only for the network \<open>10.0\<close>.\<close>

definition film_auth :: "cmem \<Rightarrow> string option \<Rightarrow> (cmem \<times> string) option" where
  "film_auth str bytes = do {
     m \<leftarrow> receive str bytes;
     c1 \<leftarrow> c_peek m 1; c2 \<leftarrow> c_peek m 2; c3 \<leftarrow> c_peek m 3; c4 \<leftarrow> c_peek m 4;
     if c1 = CHR ''f'' \<and> c2 = CHR ''i'' \<and> c3 = CHR ''l'' \<and> c4 = CHR ''m''
     then do {
       r \<leftarrow> c_strstr m 0 ''::ffff:10.0.'';
       Some (m, if r = None then ''c'' else '''')
     }
     else Some (m, '''')
   }"

text \<open>\<open>weborf_auth_dav.c\<close>; the third test of the first condition is written without \<open>== 0\<close>.\<close>

definition dav_auth :: "cmem \<Rightarrow> string option \<Rightarrow> (cmem \<times> string) option" where
  "dav_auth str bytes = do {
     m \<leftarrow> receive str bytes;
     (m1, uri, l1) \<leftarrow> c_strtok_r m 0 CRLF;
     (m2, ip, l2) \<leftarrow> c_strtok_r m1 l1 CRLF;
     (m3, meth, l3) \<leftarrow> c_strtok_r m2 l2 CRLF;
     p \<leftarrow> meth;
     s \<leftarrow> cstr m3 p;
     if strn_eq 3 s ''GET'' \<or> strn_eq 4 s ''POST'' \<or> \<not> strn_eq 7 s ''OPTIONS'' then Some (m3, '''')
     else if strn_eq 8 s ''PROPFIND'' \<or> strn_eq 3 s ''PUT'' \<or> strn_eq 5 s ''MKCOL'' then do {
       q \<leftarrow> ip;
       a \<leftarrow> cstr m3 q;
       Some (m3, if \<not> strn_eq 12 a ''::ffff:10.0.'' then ''c'' else '''')
     }
     else Some (m3, ''c'')
   }"

subsection \<open>Lemmas\<close>

text \<open>A text of fewer than 1024 bytes is received as it is; 1024 bytes put the end mark behind the array.\<close>

lemma receive_text:
  assumes "length str = DAEMON_SIZE" and "length s < DAEMON_SIZE" and "NUL \<notin> set s"
  shows "\<exists>m. receive str (Some s) = Some m \<and> cstr m 0 = Some s \<and> length m = DAEMON_SIZE"
proof -
  have "drop (length s) str = str ! length s # drop (Suc (length s)) str" using assms by (simp add: Cons_nth_drop_Suc)
  then have "receive str (Some s) = Some (s @ NUL # drop (Suc (length s)) str)"
    using assms by (simp add: receive_def c_write_def c_poke_def)
  then show ?thesis using assms cstr_append [of s "drop (Suc (length s)) str"] by (simp add: cstr_def)
qed

lemma receive_overruns: "length str = DAEMON_SIZE \<Longrightarrow> DAEMON_SIZE \<le> length s \<Longrightarrow> receive str (Some s) = None"
  by (simp add: receive_def c_write_def c_poke_def)

text \<open>
  The first daemon refuses the pages below \<open>/film\<close> unless the text holds the prefix of an
  address of the network, wherever it stands: a header field is enough.
\<close>

lemma film_daemon_answer:
  assumes "length str = DAEMON_SIZE" and "length s < DAEMON_SIZE" and "NUL \<notin> set s" and "5 \<le> length s"
  shows "\<exists>m. film_auth str (Some s) =
    Some (m, if take 4 (drop 1 s) = ''film'' \<and> \<not> sublist ''::ffff:10.0.'' s then ''c'' else '''')"
proof -
  obtain m where m: "receive str (Some s) = Some m" "cstr m 0 = Some s" "length m = DAEMON_SIZE"
    using receive_text [OF assms(1-3)] by blast
  obtain a b c d e r where s: "s = a # b # c # d # e # r"
    using assms(4) by (auto simp: Suc_le_length_iff numeral_eq_Suc)
  have "c_peek m 1 = Some b" "c_peek m 2 = Some c" "c_peek m 3 = Some d" "c_peek m 4 = Some e"
    using m(3) cstr_nth [OF m(2), of 1] cstr_nth [OF m(2), of 2] cstr_nth [OF m(2), of 3] cstr_nth [OF m(2), of 4]
    by (simp_all add: c_peek_def DAEMON_SIZE_def s numeral_eq_Suc)
  moreover have "take 4 (drop 1 s) = [b, c, d, e]" by (simp add: s)
  ultimately show ?thesis using m(1) by (simp add: film_auth_def c_strstr_Some [OF m(2)] find_sub_None_iff)
qed

lemma film_daemon_bypassed:
  assumes "length str = DAEMON_SIZE" and "length (auth_text pg ip meth user pass params) < DAEMON_SIZE"
    and "NUL \<notin> set (auth_text pg ip meth user pass params)" and "sublist ''::ffff:10.0.'' params"
  shows "\<exists>m. film_auth str (Some (auth_text pg ip meth user pass params)) = Some (m, '''')"
proof -
  let ?s = "auth_text pg ip meth user pass params"
  have "sublist params (pre @ params @ CRLF)" for pre by (rule sublist_appendI)
  from this [of "pg @ CRLF @ ip @ CRLF @ meth @ CRLF @ user @ CRLF @ pass @ CRLF"]
  have "sublist ''::ffff:10.0.'' ?s" using assms(4) by (auto simp: auth_text_def intro: sublist_order.order_trans)
  then show ?thesis using film_daemon_answer [OF assms(1-3)] by (auto simp: auth_text_def)
qed

text \<open>
  The second daemon grants every method except OPTIONS, from every address: the contrary of
  what it says for DELETE, MOVE and COPY, and for PUT and MKCOL from outside of the network.
\<close>

lemma dav_daemon_answer:
  assumes "length str = DAEMON_SIZE" and "length (auth_text pg ip meth user pass params) < DAEMON_SIZE"
    and "NUL \<notin> set (auth_text pg ip meth user pass params)"
    and "\<forall>s \<in> {pg, ip, meth}. s \<noteq> [] \<and> CR \<notin> set s \<and> LF \<notin> set s"
  shows "\<exists>m. dav_auth str (Some (auth_text pg ip meth user pass params)) =
    Some (m, if take 7 meth = ''OPTIONS'' then ''c'' else '''')"
proof -
  define s where "s = auth_text pg ip meth user pass params"
  have no: "set x \<inter> set CRLF = {}" if "x \<in> {pg, ip, meth}" for x using assms(4) that by auto
  obtain m where m: "receive str (Some s) = Some m" "cstr m 0 = Some s"
    using receive_text [OF assms(1-3)] unfolding s_def by blast
  have m0: "cstr m 0 = Some ([] @ pg @ CR # LF # ip @ CR # LF # meth @ CR # LF # user @ CRLF @ pass @ CRLF @ params @ CRLF)"
    using m(2) by (simp add: s_def auth_text_def)
  have "pg \<noteq> []" using assms(4) by blast
  then obtain m1 l1 where m1: "c_strtok_r m 0 CRLF = Some (m1, Some 0, l1)"
    "cstr m1 l1 = Some ([LF] @ ip @ CR # LF # meth @ CR # LF # user @ CRLF @ pass @ CRLF @ params @ CRLF)"
    using strtok_token [OF m0 _ _ no] by simp
  have "ip \<noteq> []" using assms(4) by blast
  then obtain m2 l2 where m2: "c_strtok_r m1 l1 CRLF = Some (m2, Some (l1 + 1), l2)"
    "cstr m2 l2 = Some ([LF] @ meth @ CR # LF # user @ CRLF @ pass @ CRLF @ params @ CRLF)"
    using strtok_token [OF m1(2) _ _ no] by simp
  have "meth \<noteq> []" using assms(4) by blast
  then obtain m3 l3 where m3: "c_strtok_r m2 l2 CRLF = Some (m3, Some (l2 + 1), l3)" "cstr m3 (l2 + 1) = Some meth"
    using strtok_token [OF m2(2) _ _ no] by simp
  have o: "\<exists>r. meth = ''OPTIONS'' @ r" if "take 7 meth = ''OPTIONS''" using that append_take_drop_id [of 7 meth] by metis
  have "dav_auth str (Some s) = Some (m3, if take 7 meth = ''OPTIONS'' then ''c'' else '''')"
    using m(1) m1(1) m2(1) m3 by (cases "take 7 meth = ''OPTIONS''") (auto simp: dav_auth_def strn_eq_def dest!: o)
  then show ?thesis unfolding s_def by blast
qed

text \<open>
  The built-in provider: a request that can change files is granted only to the network, and
  a name and a password are accepted when they begin with the expected ones.
\<close>

lemma embedded_protects_writes:
  assumes "c_auth pg ip meth user pass = 0" and "\<not> prefix ''::ffff:10.'' ip" and "meth \<in> set [''PUT'', ''DELETE'', ''MKCOL'', ''COPY'', ''MOVE'']"
  shows False
  using assms take_is_prefix [of 10 ip]
  by (auto simp: c_auth_def strn_eq_def dest: sym [of _ "take 10 ip"] split: if_splits)

lemma embedded_accepts_longer: "emb_check_password (''gentoo'' @ x) (''lalalala'' @ y) = 0"
  by (simp add: emb_check_password_def strn_eq_def)


end
