(* ===== verification/Spec2Isabelle.thy ===== *)
theory Spec2Isabelle
  imports Utils Base64 SynQueue BufReader Http Files Mime SendFile Request Auth Listener Cache Config
    DirList Webdav Cgi Instance Connection Worker Wellformed Tls Startup Texts
    Daemons
begin

text \<open>
  Weborf is a small HTTP and WebDAV server written in C. This library models its
  sources and proves what makes them correct. Every definition that models code keeps the
  name of the function in the source where the language allows it.

  \<^bold>\<open>The program.\<close> \<open>main\<close> (\<open>listener.c\<close>) reads the command line (\<open>configuration.c\<close>), opens the
  server socket (\<open>mynet.c\<close>), gives up its privileges, starts a group of threads and then
  accepts connections, which it puts into a queue (\<open>queue.c\<close>). A thread (\<open>instance\<close> in
  \<open>instance.c\<close>) takes a socket from the queue and calls \<open>handle_requests\<close>: it reads one
  request header after the other (\<open>buffered_reader.c\<close>), parses it in place
  (\<open>mystring.c\<close>, \<open>utils.c\<close>), asks the authentication provider (\<open>auth.c\<close>, \<open>base64.c\<close>), and
  \<open>send_page\<close> dispatches on the method: a file or a range of it (\<open>write_file\<close>, \<open>myio.c\<close>,
  \<open>mime.c\<close>), a directory page (\<open>list_dir\<close>, \<open>write_dir\<close>) that may come from the cache
  (\<open>cachedir.c\<close>), a script (\<open>cgi.c\<close>), PUT and DELETE, or a WebDAV method (\<open>webdav.c\<close>).

  \<^bold>\<open>The layers of the model.\<close>

  \<^item> \<^emph>\<open>Language.\<close> \<open>Prelude\<close> and \<open>CString\<close>: memory blocks as lists of bytes, pointers as indices,
    the functions of the C library. An access outside of a block is the value \<open>None\<close>, so
    that a theorem with a result \<open>Some\<close> includes memory safety. \<open>Types\<close>: the structures of
    \<open>types.h\<close> and the constants of \<open>options.h.in\<close>. Integers are words where the source
    relies on their width (counters of threads, ranges, the port).
  \<^item> \<^emph>\<open>Platform.\<close> \<open>World\<close>: the file tree, descriptors, the connection and the outcomes of
    calls that may fail (\<open>faults\<close>, \<open>wr_results\<close>). A theorem for every \<open>world\<close> covers every
    pattern of failures; \<open>healthy\<close> says that nothing fails.
  \<^item> \<^emph>\<open>Components without a world.\<close> \<open>MyString\<close> (\<open>mystring.c\<close>), \<open>Base64\<close> (\<open>base64.c\<close>), \<open>Utils\<close>
    (the encoders and \<open>get_param_value\<close> of \<open>utils.c\<close>), \<open>BufReader\<close> (\<open>buffered_reader.c\<close>),
    \<open>SynQueue\<close> (\<open>queue.c\<close>).
  \<^item> \<^emph>\<open>Components on the world.\<close> \<open>Http\<close> (headers and error pages of \<open>instance.c\<close>), \<open>Files\<close>
    (\<open>myio.c\<close>), \<open>Mime\<close> (\<open>mime.c\<close>), \<open>SendFile\<close> (\<open>bytes_to_send\<close> and \<open>write_file\<close>), \<open>Request\<close>
    (reading and parsing a request), \<open>Auth\<close> (\<open>auth.c\<close>, \<open>embedded_auth.h\<close>), \<open>Cache\<close>
    (\<open>cachedir.c\<close>), \<open>DirList\<close> (\<open>list_dir\<close>, \<open>write_dir\<close>), \<open>Webdav\<close> (\<open>webdav.c\<close>), \<open>Cgi\<close>
    (\<open>cgi.c\<close>), \<open>Config\<close> (\<open>configuration.c\<close>, \<open>mynet.c\<close>).
  \<^item> \<^emph>\<open>Composition.\<close> \<open>Instance\<close>: PUT, DELETE, archives, \<open>get_or_post\<close>, \<open>send_page\<close>,
    \<open>handle_requests\<close> and \<open>inetd\<close>, which call the components as the code does. \<open>Connection\<close>:
    theorems on whole connections. \<open>Worker\<close>: the loop of \<open>instance\<close> over its clients.
    \<open>Wellformed\<close>: what every operation keeps of the state. \<open>Tls\<close>: descriptors with a TLS
    session (\<open>types.h\<close>, \<open>myio.h\<close>, \<open>myio.c\<close>), the reader on them and the handshake. \<open>Listener\<close>:
    the main loop and the threads as interleaved steps. \<open>Startup\<close>: \<open>main\<close> up to its loop.
    \<open>Texts\<close>: what the program prints about itself, and the tables of options. \<open>Daemons\<close>: the
    two example authentication programs of \<open>examples/\<close>.

  \<^bold>\<open>Interfaces.\<close> Five locales state what one part relies on in another. \<open>bounded_fifo\<close> is the
  queue as a bounded list, interpreted on \<open>q_put\<close> and \<open>q_get\<close>. \<open>byte_source\<close> is the reader as
  a stream that is handed out in order, interpreted on \<open>buffer_read\<close>. \<open>request_loop\<close> is a
  connection as a loop whose every round answers one request and keeps the state ready for
  the next; from its laws follows once that all requests are answered in order, and
  \<open>handle_requests\<close> interprets it twice, for public files and for refused requests.
  \<open>reading_frame\<close> and its extension \<open>writing_frame\<close> are an invariant of the platform that the
  system calls keep, those that read files and those that also change them; the lemmas
  inside follow the call graph from \<open>fd_copy\<close> to \<open>handle_requests\<close> once, and the instances are the
  well-formed states and the surroundings that the threads share.

  \<^bold>\<open>What is shown.\<close>

  \<^item> \<^emph>\<open>Connections\<close> (\<open>Connection\<close>, \<open>Worker\<close>, \<open>Instance\<close>). Pipelined GET requests are all answered, in
    order, by the content of their files; what PUT stores the next GET returns; DELETE
    removes exactly its subtree; a client that the provider refuses gets 401 for every
    request and, whatever it sends and whatever fails, changes no file. A thread that serves
    many clients with the same buffers gives each the answers to its own requests.
  \<^item> \<^emph>\<open>Well-formedness\<close> (\<open>Wellformed\<close>). Whatever the clients send and whatever fails, the file tree
    stays a tree, no descriptor is in use twice, the reader stays inside its buffer, and the
    working directory and the environment do not change.
  \<^item> \<^emph>\<open>TLS\<close> (\<open>Tls\<close>). Without a session, and with one whose records fit the buffer, the reader is
    the one of \<open>BufReader\<close>; a failed handshake changes nothing and leaves the thread ready.
  \<^item> \<^emph>\<open>Requests\<close> (\<open>Request\<close>, \<open>MyString\<close>, \<open>Utils\<close>, \<open>BufReader\<close>). The optimised search for the
    end of the header agrees with a search of the whole stream and consumes exactly the
    header; the page has no parent step left; the decoders and encoders stay in their
    buffers and invert each other.
  \<^item> \<^emph>\<open>Responses\<close> (\<open>Http\<close>, \<open>SendFile\<close>, \<open>DirList\<close>, \<open>Cache\<close>, \<open>Cgi\<close>, \<open>Webdav\<close>). What is sent is one
    message that a client delimits by its length, with the right status and body; the
    specification is the client's parser \<open>parse_response\<close>.
  \<^item> \<^emph>\<open>Files\<close> (\<open>Files\<close>). Copying never corrupts, removing a directory ends and removes exactly
    its subtree.
  \<^item> \<^emph>\<open>Threads\<close> (\<open>SynQueue\<close>, \<open>Listener\<close>). The ring buffer refines a bounded list; in every
    reachable state of any interleaving the counters are exact, no socket is lost or closed
    twice, and no wake-up is lost.
  \<^item> \<^emph>\<open>Safety of the process\<close> (\<open>Config\<close>, \<open>Auth\<close>, \<open>Startup\<close>). No command line leads outside of an
    array; authentication fails closed; the loop of \<open>main\<close> is entered with the privileges
    given up and the pool in its initial state.
  \<^item> \<^emph>\<open>Defects.\<close> Where the code does not do what it means to, a lemma states what it does:
    \<open>read_file_loop_never_ends\<close>, \<open>bad_request_is_silent\<close>, \<open>long_name_overruns\<close>,
    \<open>unreadable_directory_overruns\<close>, \<open>inverted_range_is_accepted\<close>, \<open>overwrite_T_is_refused\<close>,
    \<open>escape_uri_breaks_utf8\<close>, \<open>propfind_body_overruns\<close>, \<open>decode64_runs_past_end\<close>,
    \<open>get_param_value_matches_inside\<close>, \<open>dir_remove_never_returns\<close>, \<open>rest_never_starts\<close>,
    \<open>mode_bits_overlap\<close>, \<open>server_socket_is_inherited\<close>, \<open>film_daemon_bypassed\<close>,
    \<open>dav_daemon_answer\<close>, \<open>session_record_is_cut\<close>.

  \<^bold>\<open>Bounds and termination.\<close> \<open>dir_remove\<close> and \<open>dir_move_copy\<close> call themselves on a name that may
  be cut, so they have a fuel, the depth of the call stack; \<open>fits\<close> says that the names fit
  and that the depth of the tree is covered, and then they return. \<open>handle_requests\<close> and
  \<open>read_file_loop\<close> are partial functions, because a client can keep a connection open and
  because the second need not end; the theorems on them state that they return. The other
  loops are recursive functions with a termination proof. \<open>fd_read_loop\<close> in \<open>Tls\<close> is partial, since
  the library behind it is an argument; it returns for a socket and for records that fit.

  \<^bold>\<open>Not modelled.\<close> OpenSSL, \<open>libmagic\<close> and the generated \<open>config.h\<close>, which are not part of the
  sources and are arguments of the definitions. The signal handlers but \<open>print_queue_status\<close>.
  \<open>write_compressed_file\<close>, which \<open>options.h\<close> disables and which does
  not compile when it is enabled. Calls of \<open>syslog\<close>. Symbolic links and permissions, other
  than as failures of calls. The graphical front end \<open>qweborf\<close> and the test suite, which are
  not part of the server.
\<close>

end
